(* ===== verification/Prelude.thy ===== *)
theory Prelude
  imports Complex_Main "HOL-Library.AList"
begin

text \<open>
  Shared vocabulary and automation: Python dictionaries as insertion-ordered association lists,
  the weighted total of a dictionary's values, and two interfaces that several components rely on.

  \<^item> \<open>ledger\<close>: a keyed store with a weight per value, as the diagnostic budget and the delivery
    queue use it (put, drop and rename one entry, and what that does to the accounted total).
  \<^item> \<open>preserved\<close>: an operation type with a step function and an invariant that every step keeps;
    its client lemma lifts the invariant to every run of operations.
\<close>

named_theorems dict_laws \<open>lookup and total laws of association-list dictionaries\<close>

type_synonym ('k, 'v) dict = "('k \<times> 'v) list"

text \<open>A Python dictionary has one entry per key.\<close>

abbreviation dict_ok :: "('k, 'v) dict \<Rightarrow> bool" where
  "dict_ok d \<equiv> distinct (map fst d)"

text \<open>The sum over a dictionary's values of a per-value weight.\<close>

definition total :: "('v \<Rightarrow> int) \<Rightarrow> ('k, 'v) dict \<Rightarrow> int" where
  "total w d = sum_list (map (\<lambda>(k, v). w v) d)"

lemma total_Nil [simp]: "total w [] = 0"
  by (simp add: total_def)

lemma total_Cons [simp]: "total w ((k, v) # d) = w v + total w d"
  by (simp add: total_def)

lemma total_append [simp]: "total w (d @ e) = total w d + total w e"
  by (simp add: total_def)

lemma total_nonneg: "(\<And>v. v \<in> snd ` set d \<Longrightarrow> 0 \<le> w v) \<Longrightarrow> 0 \<le> total w d"
  by (induction d) (force simp: total_def)+

lemma total_filter_le:
  "(\<And>v. v \<in> snd ` set d \<Longrightarrow> 0 \<le> w v) \<Longrightarrow> total w (filter P d) \<le> total w d"
proof (induction d)
  case (Cons x d)
  then have "total w (filter P d) \<le> total w d" and "0 \<le> w (snd x)" by auto
  then show ?case by (cases x) auto
qed simp

lemma total_update [dict_laws]:
  "dict_ok d \<Longrightarrow>
   total w (AList.update k v d) = total w d - (case map_of d k of None \<Rightarrow> 0 | Some u \<Rightarrow> w u) + w v"
proof (induction d)
  case (Cons x d)
  obtain a u where x: "x = (a, u)" by (cases x)
  show ?case
  proof (cases "a = k")
    case True
    with x show ?thesis by simp
  next
    case False
    with Cons x show ?thesis by simp
  qed
qed simp

lemma delete_absent: "map_of d k = None \<Longrightarrow> AList.delete k d = d"
  by (simp add: map_of_eq_None_iff)

lemma delete_Cons: "AList.delete k ((a, v) # d) = (if a = k then AList.delete k d else (a, v) # AList.delete k d)"
  by (simp add: AList.delete_eq)

lemma total_delete [dict_laws]:
  "dict_ok d \<Longrightarrow> total w (AList.delete k d) = total w d - (case map_of d k of None \<Rightarrow> 0 | Some u \<Rightarrow> w u)"
proof (induction d)
  case (Cons x d)
  obtain a v where x: "x = (a, v)" by (cases x)
  show ?case
  proof (cases "a = k")
    case True
    with Cons.prems x have "map_of d k = None" by (auto simp: map_of_eq_None_iff)
    then show ?thesis using True x by (simp add: delete_Cons delete_absent)
  next
    case False
    with Cons x show ?thesis by (simp add: delete_Cons)
  qed
qed simp

lemma total_ge_member:
  "(k, v) \<in> set d \<Longrightarrow> (\<And>u. u \<in> snd ` set d \<Longrightarrow> 0 \<le> w u) \<Longrightarrow> w v \<le> total w d"
proof (induction d)
  case (Cons x d)
  have rest: "0 \<le> total w d" using Cons.prems(2) by (intro total_nonneg) auto
  show ?case
  proof (cases "x = (k, v)")
    case True
    with rest show ?thesis by simp
  next
    case False
    with Cons.prems(1) have "(k, v) \<in> set d" by auto
    with Cons have "w v \<le> total w d" by simp
    moreover have "0 \<le> w (snd x)" using Cons.prems(2) by auto
    ultimately show ?thesis by (cases x) simp
  qed
qed simp

lemma length_update:
  "length (AList.update k v d) = (if k \<in> fst ` set d then length d else Suc (length d))"
  by (induction d) auto

lemma snd_update_subset: "snd ` set (AList.update k v d) \<subseteq> insert v (snd ` set d)"
  by (induction d) auto

lemma dict_ok_filter: "dict_ok d \<Longrightarrow> dict_ok (filter P d)"
  by (rule distinct_map_filter)

lemma map_of_key: "map_of d k = Some v \<Longrightarrow> k \<in> fst ` set d"
  by (force dest: map_of_SomeD)

lemma map_of_value: "map_of d k = Some v \<Longrightarrow> v \<in> snd ` set d"
  by (force dest: map_of_SomeD)

lemma map_of_tl_None: "map_of d k = None \<Longrightarrow> map_of (tl d) k = None"
  by (cases d) (auto split: if_splits)

lemma set_tl_subset: "set (tl xs) \<subseteq> set xs"
  by (cases xs) auto

lemma ball_update: "\<forall>u \<in> snd ` set d. P u \<Longrightarrow> P v \<Longrightarrow> \<forall>u \<in> snd ` set (AList.update k v d). P u"
  using snd_update_subset by fastforce

lemma total_zero: "(\<And>v. v \<in> snd ` set d \<Longrightarrow> w v = 0) \<Longrightarrow> total w d = 0"
  by (induction d) (auto simp: total_def)

lemma total_map: "total w (map (\<lambda>(k, v). (k, f v)) d) = total (\<lambda>v. w (f v)) d"
  by (induction d) auto

lemma length_delete: "map_of d k = Some v \<Longrightarrow> length (AList.delete k d) < length d"
  by (auto simp: AList.delete_eq dest!: map_of_SomeD intro: length_filter_less)

lemmas dict_lookup = AList.update_conv' AList.delete_conv'
declare dict_lookup [dict_laws]

subsection \<open>Removing one element of a list\<close>

definition delete_nth :: "nat \<Rightarrow> 'a list \<Rightarrow> 'a list" where
  "delete_nth i xs = take i xs @ drop (Suc i) xs"

lemma map_delete_nth: "map f (delete_nth i xs) = delete_nth i (map f xs)"
  by (simp add: delete_nth_def take_map drop_map)

lemma insert_delete_nth: "i < length xs \<Longrightarrow> insert (xs ! i) (set (delete_nth i xs)) = set xs"
  unfolding delete_nth_def by (subst (4) id_take_nth_drop [of i xs]) auto

lemma distinct_delete_nth:
  assumes "distinct xs" shows "distinct (delete_nth i xs)"
proof (cases "i < length xs")
  case True
  have "distinct (take i xs @ xs ! i # drop (Suc i) xs)"
    using assms by (simp only: id_take_nth_drop [OF True, symmetric])
  then show ?thesis by (auto simp: delete_nth_def)
qed (use assms in \<open>simp add: delete_nth_def\<close>)

lemma set_delete_nth:
  assumes "distinct xs" "i < length xs"
  shows "set (delete_nth i xs) = set xs - {xs ! i}"
proof -
  have "distinct (take i xs @ xs ! i # drop (Suc i) xs)"
    using assms(1) by (simp only: id_take_nth_drop [OF assms(2), symmetric])
  then have "xs ! i \<notin> set (delete_nth i xs)" by (auto simp: delete_nth_def)
  with insert_delete_nth [OF assms(2)] show ?thesis by auto
qed

text \<open>
  The ledger interface. The provider keeps an \<open>ok\<close> predicate; the client sees a map with a
  running total. \<open>rename_total\<close> is what \<open>d[new] = d.pop(old)\<close> does to the total.
\<close>

locale ledger =
  fixes look :: "'d \<Rightarrow> 'k \<Rightarrow> 'v option"
    and put :: "'k \<Rightarrow> 'v \<Rightarrow> 'd \<Rightarrow> 'd"
    and drop_key :: "'k \<Rightarrow> 'd \<Rightarrow> 'd"
    and ok :: "'d \<Rightarrow> bool"
    and weight :: "'v \<Rightarrow> int"
    and sum_of :: "'d \<Rightarrow> int"
  assumes look_put: "look (put k v d) = (look d)(k \<mapsto> v)"
    and look_drop: "look (drop_key k d) = (look d)(k := None)"
    and ok_put: "ok d \<Longrightarrow> ok (put k v d)"
    and ok_drop: "ok d \<Longrightarrow> ok (drop_key k d)"
    and sum_put: "ok d \<Longrightarrow>
      sum_of (put k v d) = sum_of d - (case look d k of None \<Rightarrow> 0 | Some u \<Rightarrow> weight u) + weight v"
    and sum_drop: "ok d \<Longrightarrow>
      sum_of (drop_key k d) = sum_of d - (case look d k of None \<Rightarrow> 0 | Some u \<Rightarrow> weight u)"
begin

lemma sum_put_new: "ok d \<Longrightarrow> look d k = None \<Longrightarrow> sum_of (put k v d) = sum_of d + weight v"
  by (simp add: sum_put)

lemma sum_put_old:
  "ok d \<Longrightarrow> look d k = Some u \<Longrightarrow> sum_of (put k v d) = sum_of d - weight u + weight v"
  by (simp add: sum_put)

lemma sum_drop_old: "ok d \<Longrightarrow> look d k = Some u \<Longrightarrow> sum_of (drop_key k d) = sum_of d - weight u"
  by (simp add: sum_drop)

lemma sum_drop_none: "ok d \<Longrightarrow> look d k = None \<Longrightarrow> sum_of (drop_key k d) = sum_of d"
  by (simp add: sum_drop)

lemma rename_total:
  assumes "ok d" "look d old = Some u" "look d new = None" "old \<noteq> new"
  shows "sum_of (put new v (drop_key old d)) = sum_of d - weight u + weight v"
  using assms by (simp add: sum_put ok_drop sum_drop look_drop)

lemma put_drop_ok: "ok d \<Longrightarrow> ok (put new v (drop_key old d))"
  by (simp add: ok_put ok_drop)

end

text \<open>Association lists with one entry per key are a ledger for every weight.\<close>

lemma alist_ledger: "ledger map_of AList.update AList.delete dict_ok w (total w)"
  by unfold_locales (simp_all add: dict_laws distinct_update distinct_delete)

text \<open>Operations that keep an invariant, and their runs.\<close>

fun run :: "('o \<Rightarrow> 's \<Rightarrow> 's) \<Rightarrow> 'o list \<Rightarrow> 's \<Rightarrow> 's" where
  "run step [] s = s"
| "run step (x # xs) s = run step xs (step x s)"

lemma run_append: "run step (xs @ ys) s = run step ys (run step xs s)"
  by (induction xs arbitrary: s) auto

locale preserved =
  fixes step :: "'o \<Rightarrow> 's \<Rightarrow> 's"
    and inv :: "'s \<Rightarrow> bool"
  assumes step_inv: "inv s \<Longrightarrow> inv (step x s)"
begin

lemma run_inv: "inv s \<Longrightarrow> inv (run step xs s)"
  by (induction xs arbitrary: s) (auto intro: step_inv)

end

end
