(* ===== verification/PyValues.thy ===== *)
theory PyValues
  imports Prelude
begin

text \<open>
  The Python values the SDK inspects and the parts of the standard library it relies on.

  A value is a native Python value or an opaque application object (\<open>PObj\<close>, told apart by
  identity only). Dictionaries are insertion-ordered lists of entries with arbitrary keys, as the
  code checks key types. Strings are restricted to code points U+0000 to U+00FF, so that one
  \<open>char\<close> is one code point and \<open>utf8_len\<close> is the length of its UTF-8 encoding; lone surrogates
  (the only strings whose encoding raises) do not occur. A finite float is its exact rational
  value; rounding of float arithmetic is not modelled.
\<close>

datatype pyfloat = Fin rat | PosInf | NegInf | NaN

datatype pyval =
    PNone
  | PBool bool
  | PInt int
  | PFloat pyfloat
  | PStr string
  | PList "pyval list"
  | PTuple "pyval list"
  | PDict "(pyval \<times> pyval) list"
  | PObj nat

type_synonym pydict = "(pyval \<times> pyval) list"

subsection \<open>Dictionary access by a string key\<close>

abbreviation dget :: "pydict \<Rightarrow> string \<Rightarrow> pyval option" where
  "dget d k \<equiv> map_of d (PStr k)"

text \<open>\<open>d.get(k)\<close>: None when the key is absent.\<close>

definition dgetn :: "pydict \<Rightarrow> string \<Rightarrow> pyval" where
  "dgetn d k = (case dget d k of None \<Rightarrow> PNone | Some v \<Rightarrow> v)"

text \<open>\<open>k in d\<close> and \<open>dict(d, k=v)\<close>.\<close>

definition has_key :: "string \<Rightarrow> pydict \<Rightarrow> bool" where
  "has_key k d \<longleftrightarrow> dget d k \<noteq> None"

definition dput :: "string \<Rightarrow> pyval \<Rightarrow> pydict \<Rightarrow> pydict" where
  "dput k v d = AList.update (PStr k) v d"

definition ddel :: "string \<Rightarrow> pydict \<Rightarrow> pydict" where
  "ddel k d = AList.delete (PStr k) d"

definition without_keys :: "string list \<Rightarrow> pydict \<Rightarrow> pydict" where
  "without_keys ks d = filter (\<lambda>(k, v). k \<notin> set (map PStr ks)) d"

lemma dget_dput [simp]: "dget (dput k v d) k' = (if k' = k then Some v else dget d k')"
  by (simp add: dput_def update_conv')

lemma dget_ddel [simp]: "dget (ddel k d) k' = (if k' = k then None else dget d k')"
  by (simp add: ddel_def delete_conv')

lemma dget_without_keys [simp]:
  "dget (without_keys ks d) k = (if k \<in> set ks then None else dget d k)"
  unfolding without_keys_def by (induction d) auto

lemma dgetn_Some: "dget d k = Some v \<Longrightarrow> dgetn d k = v"
  by (simp add: dgetn_def)

lemma without_keys_absent: "(\<forall>k \<in> set ks. dget d k = None) \<Longrightarrow> without_keys ks d = d"
  unfolding without_keys_def by (rule filter_True) (force simp: map_of_eq_None_iff)

lemma without_keys_idem [simp]: "without_keys ks (without_keys ks d) = without_keys ks d"
  by (simp add: without_keys_def)

subsection \<open>Type tests and truth values\<close>

fun is_str :: "pyval \<Rightarrow> bool" where
  "is_str (PStr s) = True" | "is_str _ = False"

fun is_dict :: "pyval \<Rightarrow> bool" where
  "is_dict (PDict d) = True" | "is_dict _ = False"

fun is_list :: "pyval \<Rightarrow> bool" where
  "is_list (PList xs) = True" | "is_list _ = False"

fun is_bool :: "pyval \<Rightarrow> bool" where
  "is_bool (PBool b) = True" | "is_bool _ = False"

fun truthy :: "pyval \<Rightarrow> bool" where
  "truthy PNone = False"
| "truthy (PBool b) = b"
| "truthy (PInt i) = (i \<noteq> 0)"
| "truthy (PFloat x) = (x \<noteq> Fin 0)"
| "truthy (PStr s) = (s \<noteq> [])"
| "truthy (PList xs) = (xs \<noteq> [])"
| "truthy (PTuple xs) = (xs \<noteq> [])"
| "truthy (PDict d) = (d \<noteq> [])"
| "truthy (PObj n) = True"

text \<open>\<open>all(type(key) is str for key in d)\<close>.\<close>

definition str_keys :: "pydict \<Rightarrow> bool" where
  "str_keys d \<longleftrightarrow> (\<forall>k \<in> set (map fst d). is_str k)"

lemma str_keys_Cons [simp]: "str_keys ((k, v) # d) \<longleftrightarrow> is_str k \<and> str_keys d"
  by (auto simp: str_keys_def)

lemma is_str_cases: "is_str k \<Longrightarrow> (\<And>s. k = PStr s \<Longrightarrow> P) \<Longrightarrow> P"
  by (cases k) auto

text \<open>\<open>a or b\<close> as a value.\<close>

definition py_or :: "pyval \<Rightarrow> pyval \<Rightarrow> pyval" where
  "py_or a b = (if truthy a then a else b)"

text \<open>The number an int or a finite float stands for (bool is a separate type here).\<close>

fun num_of :: "pyval \<Rightarrow> rat option" where
  "num_of (PInt i) = Some (of_int i)"
| "num_of (PFloat (Fin q)) = Some q"
| "num_of _ = None"

text \<open>The largest finite IEEE double, the bound 1.7976931348623157e308 of the code.\<close>

definition max_double :: int where
  "max_double = (2 ^ 53 - 1) * 2 ^ 971"

lemma le_mult_right: "n \<le> (a::int) \<Longrightarrow> 0 \<le> a \<Longrightarrow> 1 \<le> k \<Longrightarrow> n \<le> a * k"
  using mult_left_mono [of 1 k a] by simp

lemma max_double_ge: "n \<le> 2 ^ 53 - 1 \<Longrightarrow> n \<le> max_double"
  unfolding max_double_def by (rule le_mult_right) (simp_all only: one_le_power, simp_all)

subsection \<open>Strings\<close>

abbreviation ord_of :: "char \<Rightarrow> nat" where
  "ord_of \<equiv> (of_char :: char \<Rightarrow> nat)"

definition utf8_len :: "string \<Rightarrow> nat" where
  "utf8_len s = sum_list (map (\<lambda>c. if ord_of c < 128 then 1 else 2) s)"

lemma utf8_len_Nil [simp]: "utf8_len [] = 0"
  by (simp add: utf8_len_def)

lemma utf8_len_Cons [simp]: "utf8_len (c # s) = (if ord_of c < 128 then 1 else 2) + utf8_len s"
  by (simp add: utf8_len_def)

lemma utf8_len_append [simp]: "utf8_len (s @ t) = utf8_len s + utf8_len t"
  by (simp add: utf8_len_def)

lemma length_le_utf8_len: "length s \<le> utf8_len s"
  by (induction s) auto

lemma utf8_len_replicate: "ord_of c < 128 \<Longrightarrow> utf8_len (replicate n c) = n"
  by (induction n) auto

text \<open>Whitespace of \<open>str.strip\<close> and case mapping of \<open>str.lower\<close>, on this range of code points.\<close>

definition is_space :: "char \<Rightarrow> bool" where
  "is_space c \<longleftrightarrow> (let n = ord_of c in (9 \<le> n \<and> n \<le> 13) \<or> (28 \<le> n \<and> n \<le> 32) \<or> n = 133 \<or> n = 160)"

definition str_strip :: "string \<Rightarrow> string" where
  "str_strip s = rev (dropWhile is_space (rev (dropWhile is_space s)))"

definition lower_char :: "char \<Rightarrow> char" where
  "lower_char c = (let n = ord_of c in
     if (65 \<le> n \<and> n \<le> 90) \<or> (192 \<le> n \<and> n \<le> 222 \<and> n \<noteq> 215) then char_of (n + 32) else c)"

definition str_lower :: "string \<Rightarrow> string" where
  "str_lower s = map lower_char s"

text \<open>
  \<open>str.upper\<close> on ASCII letters. The code compares the result with ASCII words only, and no other
  code point of the range has an upper case that spells one of them.
\<close>

definition upper_char :: "char \<Rightarrow> char" where
  "upper_char c = (let n = ord_of c in if 97 \<le> n \<and> n \<le> 122 then char_of (n - 32) else c)"

definition str_upper :: "string \<Rightarrow> string" where
  "str_upper s = map upper_char s"

definition starts_with :: "string \<Rightarrow> string \<Rightarrow> bool" where
  "starts_with p s \<longleftrightarrow> take (length p) s = p"

definition ends_with :: "string \<Rightarrow> string \<Rightarrow> bool" where
  "ends_with p s \<longleftrightarrow> length p \<le> length s \<and> drop (length s - length p) s = p"

definition is_digit :: "char \<Rightarrow> bool" where
  "is_digit c \<longleftrightarrow> 48 \<le> ord_of c \<and> ord_of c \<le> 57"

definition is_hex :: "char \<Rightarrow> bool" where
  "is_hex c \<longleftrightarrow> (let n = ord_of c in is_digit c \<or> (65 \<le> n \<and> n \<le> 70) \<or> (97 \<le> n \<and> n \<le> 102))"

text \<open>\<open>int(s)\<close> for a string of decimal digits.\<close>

definition nat_of_digits :: "string \<Rightarrow> nat" where
  "nat_of_digits s = foldl (\<lambda>n c. 10 * n + (ord_of c - 48)) 0 s"

text \<open>\<open>str.partition\<close> on one character: what comes before, whether it occurs, what comes after.\<close>

definition partition_at :: "char \<Rightarrow> string \<Rightarrow> string \<times> bool \<times> string" where
  "partition_at c s = (takeWhile (\<lambda>x. x \<noteq> c) s, c \<in> set s, tl (dropWhile (\<lambda>x. x \<noteq> c) s))"

subsection \<open>Decimal numerals\<close>

fun dec_nat :: "nat \<Rightarrow> string" where
  "dec_nat n = (if n < 10 then [char_of (48 + n)] else dec_nat (n div 10) @ [char_of (48 + n mod 10)])"

declare dec_nat.simps [simp del]

definition dec_int :: "int \<Rightarrow> string" where
  "dec_int i = (if i < 0 then CHR ''-'' # dec_nat (nat (- i)) else dec_nat (nat i))"

lemma length_dec_nat_pos [simp]: "0 < length (dec_nat n)"
  by (subst dec_nat.simps) simp

lemma length_dec_nat_mono: "m \<le> n \<Longrightarrow> length (dec_nat m) \<le> length (dec_nat n)"
proof (induction n arbitrary: m rule: dec_nat.induct)
  case (1 n)
  show ?case
  proof (cases "n < 10")
    case True
    with "1.prems" show ?thesis by (simp add: dec_nat.simps [of n] dec_nat.simps [of m])
  next
    case False
    have "m div 10 \<le> n div 10" using "1.prems" by (rule div_le_mono)
    with "1.IH" False have "length (dec_nat (m div 10)) \<le> length (dec_nat (n div 10))" by simp
    with False show ?thesis by (simp add: dec_nat.simps [of n] dec_nat.simps [of m])
  qed
qed

lemma length_dec_int_mono: "0 \<le> i \<Longrightarrow> i \<le> j \<Longrightarrow> length (dec_int i) \<le> length (dec_int j)"
  by (simp add: dec_int_def length_dec_nat_mono nat_mono)

lemma utf8_len_dec_nat [simp]: "utf8_len (dec_nat n) = length (dec_nat n)"
proof (induction n rule: dec_nat.induct)
  case (1 n)
  have digit: "k < 10 \<Longrightarrow> ord_of (char_of (48 + k)) < 128" for k :: nat
    by simp
  show ?case
  proof (cases "n < 10")
    case True
    with digit show ?thesis by (simp add: dec_nat.simps [of n])
  next
    case False
    with "1.IH" digit [of "n mod 10"] show ?thesis by (simp add: dec_nat.simps [of n])
  qed
qed

lemma utf8_len_dec_int [simp]: "utf8_len (dec_int i) = length (dec_int i)"
  by (simp add: dec_int_def)

subsection \<open>Writing the value that is there, deleting the key that is not\<close>

lemma update_same: "map_of d k = Some v \<Longrightarrow> AList.update k v d = d"
  by (induction d) (auto split: if_splits)

lemma dput_same: "dget d k = Some v \<Longrightarrow> dput k v d = d"
  by (simp add: dput_def update_same)

lemma ddel_absent: "dget d k = None \<Longrightarrow> ddel k d = d"
  by (simp add: ddel_def delete_absent)

lemma str_keys_dput [simp]: "str_keys d \<Longrightarrow> str_keys (dput k v d)"
  unfolding dput_def by (induction d) auto

lemma length_dput_present: "dget d k = Some u \<Longrightarrow> length (dput k v d) = length d"
  unfolding dput_def by (induction d) (auto split: if_splits)

lemma str_keys_subset: "str_keys d \<Longrightarrow> set e \<subseteq> set d \<Longrightarrow> str_keys e"
  by (auto simp: str_keys_def)

lemma str_keys_ddel [simp]: "str_keys d \<Longrightarrow> str_keys (ddel k d)"
  by (erule str_keys_subset) (auto simp: ddel_def AList.delete_eq)

lemma length_ddel_le [simp]: "length (ddel k d) \<le> length d"
  by (simp add: ddel_def AList.delete_eq)

lemma str_keys_without [simp]: "str_keys d \<Longrightarrow> str_keys (without_keys ks d)"
  by (erule str_keys_subset) (auto simp: without_keys_def)

lemma length_without_le [simp]: "length (without_keys ks d) \<le> length d"
  by (simp add: without_keys_def)

lemma has_key_iff: "has_key k d \<longleftrightarrow> (\<exists>v. dget d k = Some v)"
  by (auto simp: has_key_def)

lemma dgetn_dput [simp]: "dgetn (dput k v d) k' = (if k' = k then v else dgetn d k')"
  by (simp add: dgetn_def)

lemma dgetn_ddel [simp]: "dgetn (ddel k d) k' = (if k' = k then PNone else dgetn d k')"
  by (simp add: dgetn_def)

lemma dgetn_without [simp]: "dgetn (without_keys ks d) k = (if k \<in> set ks then PNone else dgetn d k)"
  by (simp add: dgetn_def)

lemma dgetn_not_none: "dgetn d k = v \<Longrightarrow> v \<noteq> PNone \<Longrightarrow> dget d k = Some v"
  by (auto simp: dgetn_def split: option.splits)

end
