(* ===== verification/Json.thy ===== *)
theory Json
  imports PyValues
begin

text \<open>
  The text \<open>json.dumps\<close> produces with compact separators, as the SDK uses it to size events
  (\<open>core._event_bytes\<close>), wire bodies (\<open>ingestion_wire\<close>) and tracker metadata
  (\<open>diagnostic_budget\<close>). \<open>ea\<close> is \<open>ensure_ascii\<close>, \<open>nk\<close> is \<open>allow_nan\<close> and \<open>fr\<close> is the
  interpreter's \<open>float.__repr__\<close> on finite floats, a parameter throughout. \<open>None\<close> is a raised
  TypeError or ValueError.
\<close>

definition hex_digit :: "nat \<Rightarrow> char" where
  "hex_digit n = char_of (if n < 10 then 48 + n else 87 + n)"

definition json_char :: "bool \<Rightarrow> char \<Rightarrow> string" where
  "json_char ea c = (let n = ord_of c in
     if n = 34 then [CHR 0x5C, CHR 0x22]
     else if n = 92 then [CHR 0x5C, CHR 0x5C]
     else if n = 10 then [CHR 0x5C, CHR ''n'']
     else if n = 13 then [CHR 0x5C, CHR ''r'']
     else if n = 9 then [CHR 0x5C, CHR ''t'']
     else if n = 8 then [CHR 0x5C, CHR ''b'']
     else if n = 12 then [CHR 0x5C, CHR ''f'']
     else if n < 32 \<or> (ea \<and> 126 < n)
       then [CHR 0x5C, CHR ''u'', CHR ''0'', CHR ''0'', hex_digit (n div 16), hex_digit (n mod 16)]
     else [c])"

definition json_str :: "bool \<Rightarrow> string \<Rightarrow> string" where
  "json_str ea s = CHR 0x22 # concat (map (json_char ea) s) @ [CHR 0x22]"

fun join_comma :: "string list \<Rightarrow> string" where
  "join_comma [] = []"
| "join_comma [t] = t"
| "join_comma (t # u # ts) = t @ CHR '','' # join_comma (u # ts)"

fun json_float :: "bool \<Rightarrow> (rat \<Rightarrow> string) \<Rightarrow> pyfloat \<Rightarrow> string option" where
  "json_float nk fr (Fin q) = Some (fr q)"
| "json_float nk fr PosInf = (if nk then Some ''Infinity'' else None)"
| "json_float nk fr NegInf = (if nk then Some ''-Infinity'' else None)"
| "json_float nk fr NaN = (if nk then Some ''NaN'' else None)"

text \<open>Dictionary keys: strings as they are, other scalars by their JSON text, the rest raise.\<close>

fun json_key :: "bool \<Rightarrow> bool \<Rightarrow> (rat \<Rightarrow> string) \<Rightarrow> pyval \<Rightarrow> string option" where
  "json_key ea nk fr (PStr s) = Some (json_str ea s)"
| "json_key ea nk fr (PInt i) = Some (json_str ea (dec_int i))"
| "json_key ea nk fr (PBool b) = Some (json_str ea (if b then ''true'' else ''false''))"
| "json_key ea nk fr PNone = Some (json_str ea ''null'')"
| "json_key ea nk fr (PFloat x) = map_option (json_str ea) (json_float nk fr x)"
| "json_key ea nk fr _ = None"

fun json_val :: "bool \<Rightarrow> bool \<Rightarrow> (rat \<Rightarrow> string) \<Rightarrow> pyval \<Rightarrow> string option"
  and json_list :: "bool \<Rightarrow> bool \<Rightarrow> (rat \<Rightarrow> string) \<Rightarrow> pyval list \<Rightarrow> string list option"
  and json_items :: "bool \<Rightarrow> bool \<Rightarrow> (rat \<Rightarrow> string) \<Rightarrow> pydict \<Rightarrow> string list option" where
  "json_val ea nk fr PNone = Some ''null''"
| "json_val ea nk fr (PBool b) = Some (if b then ''true'' else ''false'')"
| "json_val ea nk fr (PInt i) = Some (dec_int i)"
| "json_val ea nk fr (PFloat x) = json_float nk fr x"
| "json_val ea nk fr (PStr s) = Some (json_str ea s)"
| "json_val ea nk fr (PList xs) =
     map_option (\<lambda>ts. CHR ''['' # join_comma ts @ '']'') (json_list ea nk fr xs)"
| "json_val ea nk fr (PTuple xs) =
     map_option (\<lambda>ts. CHR ''['' # join_comma ts @ '']'') (json_list ea nk fr xs)"
| "json_val ea nk fr (PDict d) =
     map_option (\<lambda>ts. CHR ''{'' # join_comma ts @ ''}'') (json_items ea nk fr d)"
| "json_val ea nk fr (PObj n) = None"
| "json_list ea nk fr [] = Some []"
| "json_list ea nk fr (x # xs) =
     (case json_val ea nk fr x of None \<Rightarrow> None
      | Some t \<Rightarrow> map_option (Cons t) (json_list ea nk fr xs))"
| "json_items ea nk fr [] = Some []"
| "json_items ea nk fr ((k, v) # d) =
     (case json_key ea nk fr k of None \<Rightarrow> None
      | Some kt \<Rightarrow> (case json_val ea nk fr v of None \<Rightarrow> None
        | Some t \<Rightarrow> map_option (Cons (kt @ CHR '':'' # t)) (json_items ea nk fr d)))"

definition json_bytes :: "bool \<Rightarrow> bool \<Rightarrow> (rat \<Rightarrow> string) \<Rightarrow> pyval \<Rightarrow> nat option" where
  "json_bytes ea nk fr v = map_option utf8_len (json_val ea nk fr v)"

subsection \<open>Sizes of composed texts\<close>

lemma utf8_len_join:
  "utf8_len (join_comma ts) = sum_list (map utf8_len ts) + (length ts - 1)"
  by (induction ts rule: join_comma.induct) auto

lemma length_join: "length (join_comma ts) = sum_list (map length ts) + (length ts - 1)"
  by (induction ts rule: join_comma.induct) auto

lemma json_list_length: "json_list ea nk fr xs = Some ts \<Longrightarrow> length ts = length xs"
  by (induction xs arbitrary: ts) (auto split: option.splits)

lemma json_items_length: "json_items ea nk fr d = Some ts \<Longrightarrow> length ts = length d"
  by (induction d arbitrary: ts) (auto split: option.splits)

text \<open>A list serialises when every element does, and its size adds up from theirs.\<close>

lemma json_list_sizes:
  "json_list ea nk fr xs = Some ts \<Longrightarrow>
   map utf8_len ts = map (\<lambda>x. the (json_bytes ea nk fr x)) xs \<and>
   (\<forall>x \<in> set xs. json_bytes ea nk fr x \<noteq> None)"
  by (induction xs arbitrary: ts) (auto simp: json_bytes_def split: option.splits)

lemma json_list_defined:
  "(\<forall>x \<in> set xs. json_bytes ea nk fr x \<noteq> None) \<Longrightarrow> \<exists>ts. json_list ea nk fr xs = Some ts"
  by (induction xs) (auto simp: json_bytes_def split: option.splits)

lemma json_bytes_list:
  assumes "\<forall>x \<in> set xs. json_bytes ea nk fr x \<noteq> None"
  shows "json_bytes ea nk fr (PList xs) =
    Some (2 + sum_list (map (\<lambda>x. the (json_bytes ea nk fr x)) xs) + (length xs - 1))"
proof -
  obtain ts where ts: "json_list ea nk fr xs = Some ts"
    using json_list_defined [OF assms] by blast
  have "utf8_len (CHR ''['' # join_comma ts @ '']'') = 2 + sum_list (map utf8_len ts) + (length ts - 1)"
    by (simp add: utf8_len_join)
  then show ?thesis
    using ts json_list_sizes [OF ts] json_list_length [OF ts] by (simp add: json_bytes_def)
qed

lemma utf8_len_json_str_plain:
  "(\<forall>c \<in> set s. json_char ea c = [c] \<and> ord_of c < 128) \<Longrightarrow> utf8_len (json_str ea s) = 2 + length s"
  unfolding json_str_def by (induction s) auto

end
