(* ===== verification/Evidence_Json.thy ===== *)
theory Evidence_Json
  imports Json
begin

text \<open>
  \<open>evidence_json.py\<close>: the byte size of an evidence value in the number form of the accepting
  parser, with a node budget and a depth limit. \<open>None\<close> is a raised exception.
\<close>

definition OVER :: nat where "OVER = 32769"

subsection \<open>Numbers\<close>

fun bit_len :: "nat \<Rightarrow> nat" where
  "bit_len n = (if n = 0 then 0 else Suc (bit_len (n div 2)))"

declare bit_len.simps [simp del]

text \<open>\<open>float(i)\<close> for an int: round half to even at 53 bits, OverflowError above the largest double.\<close>

definition float_of_int :: "int \<Rightarrow> int option" where
  "float_of_int i = (let n = nat \<bar>i\<bar>; e = bit_len n - 53; p = 2 ^ e; q = n div p; r = n mod p;
       m = int ((if p < 2 * r \<or> (2 * r = p \<and> odd q) then Suc q else q) * p)
     in if max_double < m then None else Some (if i < 0 then - m else m))"

definition int_of_text :: "string \<Rightarrow> int" where
  "int_of_text s = (case s of [] \<Rightarrow> 0
     | c # cs \<Rightarrow> if c = CHR ''-'' then - int (nat_of_digits cs)
               else if c = CHR ''+'' then int (nat_of_digits cs) else int (nat_of_digits s))"

definition float_size :: "(rat \<Rightarrow> string) \<Rightarrow> rat \<Rightarrow> nat" where
  "float_size fr q = (if q = 0 then 1 else
     let (mantissa, _, ex) = partition_at CHR ''e'' (str_lower (fr \<bar>q\<bar>));
         before = length (fst (partition_at CHR ''.'' mantissa));
         raw = filter (\<lambda>c. c \<noteq> CHR ''.'') mantissa;
         stripped = dropWhile (\<lambda>c. c = CHR ''0'') raw;
         leading = length raw - length stripped;
         digits = int (length (rev (dropWhile (\<lambda>c. c = CHR ''0'') (rev stripped))));
         position = int before + int_of_text ex - int leading;
         power = position - 1;
         len = (if - 6 \<le> power \<and> power \<le> 20
           then (if position \<le> 0 then 2 - position + digits else max position digits)
                + (if 0 < position \<and> position < digits then 1 else 0)
           else digits + (if 1 < digits then 1 else 0) + 2 + int (length (dec_int \<bar>power\<bar>)))
     in nat len + (if q < 0 then 1 else 0))"

fun number_size :: "(rat \<Rightarrow> string) \<Rightarrow> pyval \<Rightarrow> nat option" where
  "number_size fr (PInt i) =
     (if \<bar>i\<bar> \<le> 9007199254740991 then Some (length (dec_int i))
      else map_option (\<lambda>m. float_size fr (of_int m)) (float_of_int i))"
| "number_size fr (PFloat (Fin q)) = Some (float_size fr q)"
| "number_size fr _ = Some OVER"

subsection \<open>Canonical size\<close>

text \<open>
  The nested \<open>count\<close>: the remaining node budget is threaded through, an item over a limit counts
  as \<open>OVER\<close> and the walk goes on.
\<close>

definition stopped :: "nat \<Rightarrow> int \<Rightarrow> bool" where
  "stopped depth left \<longleftrightarrow> 16 < depth \<or> left < 0"

function (sequential) count :: "(rat \<Rightarrow> string) \<Rightarrow> pyval \<Rightarrow> nat \<Rightarrow> int \<Rightarrow> (nat \<times> int) option"
  and count_list :: "(rat \<Rightarrow> string) \<Rightarrow> pyval list \<Rightarrow> nat \<Rightarrow> int \<Rightarrow> (nat \<times> int) option"
  and count_items :: "(rat \<Rightarrow> string) \<Rightarrow> pydict \<Rightarrow> nat \<Rightarrow> int \<Rightarrow> (nat \<times> int) option" where
  "count fr (PList xs) depth r =
     (if stopped depth (r - 1) \<or> 256 < length xs then Some (OVER, r - 1)
      else map_option (\<lambda>(n, r'). (2 + (length xs - 1) + n, r')) (count_list fr xs (Suc depth) (r - 1)))"
| "count fr (PDict d) depth r =
     (if stopped depth (r - 1) \<or> 256 < length d \<or> \<not> str_keys d then Some (OVER, r - 1)
      else map_option (\<lambda>(n, r'). (2 + (length d - 1) + n, r')) (count_items fr d (Suc depth) (r - 1)))"
| "count fr PNone depth r = Some (if stopped depth (r - 1) then OVER else 4, r - 1)"
| "count fr (PBool b) depth r =
     Some (if stopped depth (r - 1) then OVER else if b then 4 else 5, r - 1)"
| "count fr (PStr s) depth r =
     Some (if stopped depth (r - 1) then OVER else utf8_len (json_str False s), r - 1)"
| "count fr (PInt i) depth r =
     (if stopped depth (r - 1) then Some (OVER, r - 1)
      else map_option (\<lambda>n. (n, r - 1)) (number_size fr (PInt i)))"
| "count fr (PFloat x) depth r =
     (if stopped depth (r - 1) then Some (OVER, r - 1)
      else map_option (\<lambda>n. (n, r - 1)) (number_size fr (PFloat x)))"
| "count fr (PTuple xs) depth r = Some (OVER, r - 1)"
| "count fr (PObj n) depth r = Some (OVER, r - 1)"
| "count_list fr [] depth remaining = Some (0, remaining)"
| "count_list fr (x # xs) depth remaining =
     (case count fr x depth remaining of None \<Rightarrow> None
      | Some (n, r) \<Rightarrow> map_option (\<lambda>(m, r'). (n + m, r')) (count_list fr xs depth r))"
| "count_items fr [] depth remaining = Some (0, remaining)"
| "count_items fr ((k, v) # d) depth remaining =
     (case count fr k depth remaining of None \<Rightarrow> None
      | Some (nk, r) \<Rightarrow>
        (case count fr v depth r of None \<Rightarrow> None
         | Some (nv, r') \<Rightarrow> map_option (\<lambda>(m, r''). (nk + 1 + nv + m, r'')) (count_items fr d depth r')))"

  by pat_completeness auto
termination
  by (relation "measure (\<lambda>x. case x of Inl (_, v, _, _) \<Rightarrow> size v
      | Inr (Inl (_, xs, _, _)) \<Rightarrow> size_list size xs
      | Inr (Inr (_, d, _, _)) \<Rightarrow> size_list (size_prod size size) d)") auto

definition canonical_size :: "(rat \<Rightarrow> string) \<Rightarrow> pyval \<Rightarrow> nat" where
  "canonical_size fr v = (case count fr v 0 4096 of None \<Rightarrow> OVER | Some (n, _) \<Rightarrow> n)"

subsection \<open>What an accepted size means\<close>

fun nodes :: "pyval \<Rightarrow> nat"
  and nodes_list :: "pyval list \<Rightarrow> nat"
  and nodes_items :: "pydict \<Rightarrow> nat" where
  "nodes (PList xs) = Suc (nodes_list xs)"
| "nodes (PTuple xs) = Suc (nodes_list xs)"
| "nodes (PDict d) = Suc (nodes_items d)"
| "nodes v = 1"
| "nodes_list [] = 0"
| "nodes_list (x # xs) = nodes x + nodes_list xs"
| "nodes_items [] = 0"
| "nodes_items ((k, v) # d) = Suc (nodes v) + nodes_items d"

fun depth_of :: "pyval \<Rightarrow> nat"
  and depth_list :: "pyval list \<Rightarrow> nat"
  and depth_items :: "pydict \<Rightarrow> nat" where
  "depth_of (PList xs) = depth_list xs"
| "depth_of (PTuple xs) = depth_list xs"
| "depth_of (PDict d) = depth_items d"
| "depth_of v = 0"
| "depth_list [] = 0"
| "depth_list (x # xs) = max (Suc (depth_of x)) (depth_list xs)"
| "depth_items [] = 0"
| "depth_items ((k, v) # d) = max (Suc (depth_of v)) (depth_items d)"

fun plain_numbers :: "pyval \<Rightarrow> bool"
  and plain_list :: "pyval list \<Rightarrow> bool"
  and plain_items :: "pydict \<Rightarrow> bool" where
  "plain_numbers (PInt i) = (\<bar>i\<bar> \<le> 9007199254740991)"
| "plain_numbers (PFloat x) = False"
| "plain_numbers (PList xs) = plain_list xs"
| "plain_numbers (PTuple xs) = plain_list xs"
| "plain_numbers (PDict d) = plain_items d"
| "plain_numbers v = True"
| "plain_list [] = True"
| "plain_list (x # xs) = (plain_numbers x \<and> plain_list xs)"
| "plain_items [] = True"
| "plain_items ((k, v) # d) = (plain_numbers v \<and> plain_items d)"

text \<open>A count within the limit has visited every node, inside the node and depth budgets.\<close>

lemma count_bounds:
  "count fr v depth r = Some (n, r') \<Longrightarrow> n \<le> 32768 \<Longrightarrow>
     r' = r - int (nodes v) \<and> 0 \<le> r' \<and> depth + depth_of v \<le> 16"
  "count_list fr xs depth r = Some (n, r') \<Longrightarrow> n \<le> 32768 \<Longrightarrow>
     r' = r - int (nodes_list xs) \<and> (0 \<le> r \<longrightarrow> 0 \<le> r') \<and> (xs \<noteq> [] \<longrightarrow> depth + depth_list xs \<le> 17)"
  "count_items fr d depth r = Some (n, r') \<Longrightarrow> n \<le> 32768 \<Longrightarrow> str_keys d \<Longrightarrow>
     r' = r - int (nodes_items d) \<and> (0 \<le> r \<longrightarrow> 0 \<le> r') \<and> (d \<noteq> [] \<longrightarrow> depth + depth_items d \<le> 17)"
proof (induction fr v depth r and fr xs depth r and fr d depth r
    arbitrary: n r' and n r' and n r' rule: count_count_list_count_items.induct)
  case (1 fr xs depth r)
  then show ?case by (cases xs) (auto simp: stopped_def OVER_def split: if_splits)
next
  case (2 fr d depth r)
  then show ?case by (cases d) (auto simp: stopped_def OVER_def split: if_splits)
next
  case (11 fr x xs depth r)
  then show ?case by (cases xs) (fastforce split: option.splits)+
next
  case (13 fr k v d depth r)
  then obtain s where k: "k = PStr s" by (auto elim: is_str_cases)
  from 13 k show ?case by (cases d) (fastforce split: option.splits)+
qed (auto simp: stopped_def OVER_def split: if_splits)

text \<open>
  A value whose canonical size is within the limit has at most 4096 nodes and is nested at most 16
  levels deep: the walk cannot have been cut short.
\<close>

theorem canonical_size_bounds:
  assumes "canonical_size fr v \<le> 32768"
  shows "nodes v \<le> 4096 \<and> depth_of v \<le> 16"
proof -
  from assms obtain n r where "count fr v 0 4096 = Some (n, r)" and "n \<le> 32768"
    by (auto simp: canonical_size_def OVER_def split: option.splits)
  from count_bounds(1) [OF this] show ?thesis by simp
qed

text \<open>
  On values without floats the canonical size is the length of the UTF-8 JSON text: the count and
  the serialiser agree entry by entry.
\<close>

lemma count_json:
  "count fr v depth r = Some (n, r') \<Longrightarrow> n \<le> 32768 \<Longrightarrow> plain_numbers v \<Longrightarrow>
     json_bytes False nk fr v = Some n"
  "count_list fr xs depth r = Some (n, r') \<Longrightarrow> n \<le> 32768 \<Longrightarrow> plain_list xs \<Longrightarrow>
     \<exists>ts. json_list False nk fr xs = Some ts \<and> sum_list (map utf8_len ts) = n"
  "count_items fr d depth r = Some (n, r') \<Longrightarrow> n \<le> 32768 \<Longrightarrow> plain_items d \<Longrightarrow> str_keys d \<Longrightarrow>
     \<exists>ts. json_items False nk fr d = Some ts \<and> sum_list (map utf8_len ts) = n"
proof (induction fr v depth r and fr xs depth r and fr d depth r
    arbitrary: n r' and n r' and n r' rule: count_count_list_count_items.induct)
  case (1 fr xs depth r)
  then obtain m where n: "n = 2 + (length xs - 1) + m"
    and cl: "count_list fr xs (Suc depth) (r - 1) = Some (m, r')"
    and go: "\<not> (stopped depth (r - 1) \<or> 256 < length xs)"
    by (auto simp: OVER_def split: if_splits)
  from "1.IH" [OF go cl] "1.prems" n obtain ts
    where "json_list False nk fr xs = Some ts" "sum_list (map utf8_len ts) = m" by auto
  with n json_list_length [OF this(1)] show ?case by (simp add: json_bytes_def utf8_len_join)
next
  case (2 fr d depth r)
  then obtain m where n: "n = 2 + (length d - 1) + m"
    and ci: "count_items fr d (Suc depth) (r - 1) = Some (m, r')"
    and go: "\<not> (stopped depth (r - 1) \<or> 256 < length d \<or> \<not> str_keys d)"
    by (auto simp: OVER_def split: if_splits)
  from "2.IH" [OF go ci] "2.prems" n go obtain ts
    where "json_items False nk fr d = Some ts" "sum_list (map utf8_len ts) = m" by auto
  with n json_items_length [OF this(1)] show ?case by (simp add: json_bytes_def utf8_len_join)
next
  case (11 fr x xs depth r)
  then obtain a q b where x: "count fr x depth r = Some (a, q)"
    and xs: "count_list fr xs depth q = Some (b, r')" and n: "n = a + b"
    by (auto split: option.splits)
  from "11.IH"(1) [OF x] "11.prems" n have "json_bytes False nk fr x = Some a" by simp
  moreover from "11.IH"(2) [OF x refl xs] "11.prems" n
  obtain ts where "json_list False nk fr xs = Some ts" "sum_list (map utf8_len ts) = b" by auto
  ultimately show ?case using n by (auto simp: json_bytes_def)
next
  case (13 fr k v d depth r)
  then obtain s where k: "k = PStr s" by (auto elim: is_str_cases)
  from "13.prems" obtain a q b q' c where ck: "count fr k depth r = Some (a, q)"
    and cv: "count fr v depth q = Some (b, q')"
    and cd: "count_items fr d depth q' = Some (c, r')" and n: "n = a + 1 + b + c"
    by (auto split: option.splits)
  from "13.IH"(1) [OF ck] "13.prems" k n have kb: "json_bytes False nk fr k = Some a" by simp
  from "13.IH"(2) [OF ck refl cv] "13.prems" n have "json_bytes False nk fr v = Some b" by simp
  moreover from "13.IH"(3) [OF ck refl cv refl cd] "13.prems" n
  obtain ts where "json_items False nk fr d = Some ts" "sum_list (map utf8_len ts) = c" by auto
  ultimately show ?case using n kb k by (auto simp: json_bytes_def)
qed (auto simp: stopped_def OVER_def json_bytes_def split: if_splits)


definition sample_value :: pyval where
  "sample_value = PDict [(PStr ''a'', PList [PInt 1, PNone, PBool True]), (PStr ''b'', PStr ''x'')]"


theorem canonical_size_bounds_witness: "nodes sample_value \<le> 4096 \<and> depth_of sample_value \<le> 16"
  by (rule canonical_size_bounds [of "\<lambda>q. []"]) code_simp

end
