(* ===== verification/Evidence_Wire.thy ===== *)
theory Evidence_Wire
  imports Evidence_Json
begin

text \<open>
  \<open>evidence_wire.py\<close>: the closed validators of optional evidence and the two reductions of an
  event, \<open>without_optional\<close> and \<open>strip_unsupported\<close>.

  \<open>fr\<close> is the interpreter's float representation. \<open>br\<close> stands for the library's check of an IPv6
  literal inside the authority of a URL. Strings cannot fail to encode here (see PyValues), so the
  UnicodeError branch of \<open>_text\<close> does not occur.
\<close>

definition FEATURES :: "string list" where
  "FEATURES = [''exception_evidence_v1'', ''resource_observations_v1'', ''recovery_v1'',
    ''evidence_provenance_v1'']"

subsection \<open>Closed shapes and scalars\<close>

fun mapping :: "nat \<Rightarrow> pyval \<Rightarrow> bool" where
  "mapping m (PDict d) = (length d \<le> m \<and> str_keys d)"
| "mapping m _ = False"

fun closed :: "string list \<Rightarrow> string list \<Rightarrow> pyval \<Rightarrow> bool" where
  "closed req opt (PDict d) =
     (mapping (length req + length opt) (PDict d) \<and>
      (\<forall>k \<in> set req. has_key k d) \<and>
      (\<forall>k \<in> set (map fst d). k \<in> PStr ` set req \<or> k \<in> PStr ` set opt))"
| "closed req opt _ = False"

fun one_of :: "pyval \<Rightarrow> string option list \<Rightarrow> bool" where
  "one_of PNone opts = (None \<in> set opts)"
| "one_of (PStr s) opts = (Some s \<in> set opts)"
| "one_of _ opts = False"

abbreviation one_str :: "pyval \<Rightarrow> string list \<Rightarrow> bool" where
  "one_str v ss \<equiv> one_of v (map Some ss)"

definition number :: "pyval \<Rightarrow> bool" where
  "number v = (case num_of v of None \<Rightarrow> False | Some q \<Rightarrow> 0 \<le> q \<and> q \<le> of_int max_double)"

definition integer :: "pyval \<Rightarrow> int \<Rightarrow> int option \<Rightarrow> bool" where
  "integer v lo hi = (number v \<and> (case num_of v of None \<Rightarrow> False | Some q \<Rightarrow>
     of_int lo \<le> q \<and> (case hi of None \<Rightarrow> True | Some h \<Rightarrow> q \<le> of_int h) \<and> q = of_int \<lfloor>q\<rfloor>))"

text \<open>The integer a checked number stands for, as a dictionary key (1 and 1.0 are the same key).\<close>

definition int_of :: "pyval \<Rightarrow> int" where
  "int_of v = (case num_of v of None \<Rightarrow> 0 | Some q \<Rightarrow> \<lfloor>q\<rfloor>)"

fun text_ok :: "pyval \<Rightarrow> nat \<Rightarrow> bool" where
  "text_ok (PStr s) m = (length s \<le> m \<and> utf8_len s \<le> m)"
| "text_ok _ m = False"

text \<open>The regular expressions \<open>_UUID\<close> and \<open>_V4\<close>, position by position.\<close>

definition uuid_shape :: "string \<Rightarrow> bool" where
  "uuid_shape s \<longleftrightarrow> length s = 36 \<and>
     (\<forall>i \<in> set [0..<36]. if i \<in> {8, 13, 18, 23} then s ! i = CHR ''-'' else is_hex (s ! i))"

definition v4_shape :: "string \<Rightarrow> bool" where
  "v4_shape s \<longleftrightarrow> uuid_shape s \<and> s ! 14 = CHR ''4'' \<and> s ! 19 \<in> set ''89abAB''"

fun uuid :: "pyval \<Rightarrow> bool \<Rightarrow> bool" where
  "uuid (PStr s) fresh = (length s = 36 \<and> (if fresh then v4_shape s else uuid_shape s))"
| "uuid _ fresh = False"

text \<open>The regular expression \<open>_TIME\<close>.\<close>

definition time_shape :: "string \<Rightarrow> bool" where
  "time_shape s \<longleftrightarrow> 20 \<le> length s \<and>
     (\<forall>i \<in> set [0, 1, 2, 3, 5, 6, 8, 9, 11, 12, 14, 15, 17, 18]. is_digit (s ! i)) \<and>
     s ! 4 = CHR ''-'' \<and> s ! 7 = CHR ''-'' \<and> s ! 10 = CHR ''T'' \<and> s ! 13 = CHR '':'' \<and> s ! 16 = CHR '':'' \<and>
     (let r = drop 19 s in r = ''Z'' \<or>
        (hd r = CHR ''.'' \<and> last r = CHR ''Z'' \<and> butlast (tl r) \<noteq> [] \<and> list_all is_digit (butlast (tl r))))"

definition slice :: "nat \<Rightarrow> nat \<Rightarrow> 'a list \<Rightarrow> 'a list" where
  "slice i j s = take (j - i) (drop i s)"

definition leap :: "nat \<Rightarrow> bool" where
  "leap y \<longleftrightarrow> y mod 4 = 0 \<and> (y mod 100 \<noteq> 0 \<or> y mod 400 = 0)"

definition month_days :: "nat \<Rightarrow> nat list" where
  "month_days y = [31, if leap y then 29 else 28, 31, 30, 31, 30, 31, 31, 30, 31, 30, 31]"

fun timestamp :: "pyval \<Rightarrow> bool" where
  "timestamp (PStr s) =
     (text_ok (PStr s) 32768 \<and> time_shape s \<and>
      (let year = nat_of_digits (slice 0 4 s); month = nat_of_digits (slice 5 7 s);
           day = nat_of_digits (slice 8 10 s); hour = nat_of_digits (slice 11 13 s);
           minute = nat_of_digits (slice 14 16 s); second = nat_of_digits (slice 17 19 s)
       in if \<not> (1 \<le> month \<and> month \<le> 12) \<or> 23 < hour \<or> 59 < minute \<or> 59 < second then False
          else 1 \<le> day \<and> day \<le> month_days year ! (month - 1)))"
| "timestamp _ = False"

subsection \<open>Capabilities, scopes and references\<close>

definition capabilities :: "string list \<Rightarrow> pyval" where
  "capabilities fs = PDict [(PStr ''version'', PInt 1), (PStr ''features'', PList (map PStr fs))]"

fun parse_features :: "pyval \<Rightarrow> string list" where
  "parse_features (PDict d) =
     (if \<not> closed [''version'', ''features''] [] (PDict d) \<or> \<not> integer (dgetn d ''version'') 1 (Some 1) then []
      else (case dgetn d ''features'' of
          PList fs \<Rightarrow>
            if length FEATURES < length fs then []
            else if (\<exists>f \<in> set fs. f \<notin> PStr ` set FEATURES) \<or> \<not> distinct fs then []
            else filter (\<lambda>f. PStr f \<in> set fs) FEATURES
        | _ \<Rightarrow> []))"
| "parse_features _ = []"

definition parse_capabilities :: "pyval \<Rightarrow> pyval" where
  "parse_capabilities v = capabilities (parse_features v)"

fun scope :: "pyval \<Rightarrow> bool" where
  "scope (PDict d) =
     (mapping 2 (PDict d) \<and>
      (case (if one_str (dgetn d ''kind'') [''page''] then Some ''page_id''
             else if one_str (dgetn d ''kind'') [''operation''] then Some ''operation_id'' else None) of
         None \<Rightarrow> False
       | Some field \<Rightarrow> closed [''kind'', field] [] (PDict d) \<and> uuid (dgetn d field) True))"
| "scope _ = False"

fun reference :: "pyval \<Rightarrow> pyval option" where
  "reference (PDict d) =
     (if closed [''version'', ''failure_ref'', ''scope''] [] (PDict d)
         \<and> integer (dgetn d ''version'') 1 (Some 1)
         \<and> uuid (dgetn d ''failure_ref'') True \<and> scope (dgetn d ''scope'')
      then Some (PDict d) else None)"
| "reference _ = None"

text \<open>\<open>value.get(key, dflt)\<close>.\<close>

definition dget_or :: "pydict \<Rightarrow> string \<Rightarrow> pyval \<Rightarrow> pyval" where
  "dget_or d k v = (case dget d k of None \<Rightarrow> v | Some u \<Rightarrow> u)"

fun capture_reference :: "pyval \<Rightarrow> pyval \<Rightarrow> pyval option" where
  "capture_reference (PDict d) dflt =
     (if \<not> mapping 256 (PDict d) then None
      else reference (PDict [(PStr ''version'', PInt 1), (PStr ''failure_ref'', dgetn d ''failure_ref''),
             (PStr ''scope'', dget_or d ''evidence_scope'' dflt)]))"
| "capture_reference _ dflt = None"

subsection \<open>URLs\<close>

text \<open>
  What \<open>urlsplit\<close> reads from the authority of an http URL: user information before the last \<open>@\<close>,
  then a bracketed or plain host and a port. \<open>None\<close> is the ValueError of an invalid authority.
\<close>

definition rpartition_at :: "char \<Rightarrow> string \<Rightarrow> string \<times> bool \<times> string" where
  "rpartition_at c s = (if c \<in> set s
     then (rev (tl (dropWhile (\<lambda>x. x \<noteq> c) (rev s))), True, rev (takeWhile (\<lambda>x. x \<noteq> c) (rev s)))
     else ([], False, s))"

record authority =
  username :: string
  password :: string
  hostname :: string

definition split_authority :: "(string \<Rightarrow> bool) \<Rightarrow> string \<Rightarrow> authority option" where
  "split_authority br netloc =
     (if (CHR ''['' \<in> set netloc) \<noteq> (CHR '']'' \<in> set netloc) then None
      else if CHR ''['' \<in> set netloc \<and> \<not> br netloc then None
      else
        let (userinfo, _, hostinfo) = rpartition_at CHR ''@'' netloc;
            (user, _, pass) = partition_at CHR '':'' userinfo;
            (_, bracket, rest) = partition_at CHR ''['' hostinfo;
            (host, port) = (if bracket
               then (let (h, _, p) = partition_at CHR '']'' rest; (_, _, q) = partition_at CHR '':'' p in (h, q))
               else (let (h, _, p) = partition_at CHR '':'' hostinfo in (h, p)))
        in if port \<noteq> [] \<and> (\<not> list_all is_digit port \<or> 65535 < nat_of_digits port) then None
           else Some \<lparr>username = user, password = pass, hostname = host\<rparr>)"

definition url_forbidden :: "char \<Rightarrow> bool" where
  "url_forbidden c \<longleftrightarrow> (let n = ord_of c in n \<le> 32 \<or> n = 127 \<or> n = 92 \<or> n = 63 \<or> n = 35)"

fun url :: "(string \<Rightarrow> bool) \<Rightarrow> pyval \<Rightarrow> bool" where
  "url br (PStr s) =
     (if \<not> text_ok (PStr s) 2048 \<or> s = [] \<or> starts_with ''//'' s \<or> list_ex url_forbidden s
         \<or> (\<not> starts_with ''/'' s \<and> \<not> starts_with ''http://'' (str_lower s)
             \<and> \<not> starts_with ''https://'' (str_lower s)) then False
      else if starts_with ''/'' s then True
      else (let after = drop (if starts_with ''http://'' (str_lower s) then 7 else 8) s in
        case split_authority br (takeWhile (\<lambda>c. c \<noteq> CHR ''/'') after) of
          None \<Rightarrow> False
        | Some a \<Rightarrow> hostname a \<noteq> [] \<and> username a = [] \<and> password a = []))"
| "url br _ = False"

subsection \<open>Resource observations\<close>

definition null_or :: "(pyval \<Rightarrow> bool) \<Rightarrow> pyval \<Rightarrow> bool" where
  "null_or P v \<longleftrightarrow> v = PNone \<or> P v"

definition directive_shape :: "string \<Rightarrow> bool" where
  "directive_shape s \<longleftrightarrow> 1 \<le> length s \<and> length s \<le> 64 \<and>
     list_all (\<lambda>c. (97 \<le> ord_of c \<and> ord_of c \<le> 122) \<or> c = CHR ''-'') s"

fun resource_item :: "(string \<Rightarrow> bool) \<Rightarrow> pyval \<Rightarrow> bool" where
  "resource_item br (PDict d) =
     (if \<not> mapping 8 (PDict d) \<or> \<not> timestamp (dgetn d ''observed_at'')
         \<or> \<not> null_or (url br) (dgetn d ''source_url'') then False
      else if one_str (dgetn d ''kind'') [''timing''] then
        closed [''kind'', ''observed_at'', ''source_url'', ''availability'', ''response_status'',
                ''duration_ms'', ''transfer_size_bytes''] [] (PDict d)
        \<and> one_str (dgetn d ''availability'')
            [''observed'', ''withheld'', ''unsupported'', ''no_match'', ''ambiguous'', ''unknown'']
        \<and> null_or (\<lambda>v. integer v 100 (Some 599)) (dgetn d ''response_status'')
        \<and> null_or number (dgetn d ''duration_ms'')
        \<and> null_or (\<lambda>v. integer v 0 None) (dgetn d ''transfer_size_bytes'')
      else if one_str (dgetn d ''kind'') [''csp''] then
        closed [''kind'', ''observed_at'', ''source_url'', ''effective_directive'', ''disposition'',
                ''document_status_code''] [] (PDict d)
        \<and> (case dgetn d ''effective_directive'' of PStr s \<Rightarrow> directive_shape s | _ \<Rightarrow> False)
        \<and> one_str (dgetn d ''disposition'') [''report'', ''enforce'']
        \<and> null_or (\<lambda>v. integer v 100 (Some 599)) (dgetn d ''document_status_code'')
      else False)"
| "resource_item br _ = False"

fun resources :: "(rat \<Rightarrow> string) \<Rightarrow> (string \<Rightarrow> bool) \<Rightarrow> pyval \<Rightarrow> bool" where
  "resources fr br (PDict d) =
     (if \<not> closed [''version'', ''items''] [] (PDict d) \<or> \<not> integer (dgetn d ''version'') 1 (Some 1) then False
      else (case dgetn d ''items'' of
          PList items \<Rightarrow> 1 \<le> length items \<and> length items \<le> 5 \<and> list_all (resource_item br) items
            \<and> canonical_size fr (PDict d) \<le> 32768
        | _ \<Rightarrow> False))"
| "resources fr br _ = False"

subsection \<open>Diagnostics and execution metadata\<close>

definition recovery_states :: "string list" where
  "recovery_states = [''attempt_started'', ''attempt_completed'', ''attempt_failed'',
    ''recovery_observed'', ''failure_persisted'']"

definition if_present :: "string \<Rightarrow> (pyval \<Rightarrow> bool) \<Rightarrow> pydict \<Rightarrow> bool" where
  "if_present k P d \<longleftrightarrow> (case dget d k of None \<Rightarrow> True | Some v \<Rightarrow> P v)"

definition recovery_fields :: "pydict \<Rightarrow> bool" where
  "recovery_fields d \<longleftrightarrow>
     closed [''version'', ''kind'', ''failure_ref'', ''scope'', ''attempt_id'', ''state'']
       [''operation'', ''status_code'', ''duration_ms''] (PDict d)
     \<and> uuid (dgetn d ''attempt_id'') True \<and> one_str (dgetn d ''state'') recovery_states
     \<and> if_present ''operation'' (\<lambda>v. text_ok v 64) d
     \<and> if_present ''status_code'' (\<lambda>v. integer v 100 (Some 599)) d
     \<and> if_present ''duration_ms'' number d"

fun diagnostic :: "(rat \<Rightarrow> string) \<Rightarrow> (string \<Rightarrow> bool) \<Rightarrow> pyval \<Rightarrow> bool" where
  "diagnostic fr br (PDict d) =
     (if \<not> mapping 10 (PDict d)
         \<or> reference (PDict (map (\<lambda>k. (PStr k, dgetn d k)) [''version'', ''failure_ref'', ''scope''])) = None
      then False
      else if one_str (dgetn d ''kind'') [''recovery''] then recovery_fields d
      else one_str (dgetn d ''kind'') [''resource_observation'']
        \<and> closed [''version'', ''kind'', ''failure_ref'', ''scope'', ''source_event_id'', ''observations''] []
            (PDict d)
        \<and> uuid (dgetn d ''source_event_id'') False \<and> resources fr br (dgetn d ''observations''))"
| "diagnostic fr br _ = False"

definition copy_present :: "string \<Rightarrow> pydict \<Rightarrow> pydict \<Rightarrow> pydict" where
  "copy_present k src d = (case dget src k of None \<Rightarrow> d | Some v \<Rightarrow> dput k v d)"

fun normalise_recovery ::
  "(rat \<Rightarrow> string) \<Rightarrow> (string \<Rightarrow> bool) \<Rightarrow> pyval \<Rightarrow> pyval \<Rightarrow> pyval option" where
  "normalise_recovery fr br (PDict d) dflt =
     (case capture_reference (PDict d) dflt of
        Some (PDict selected) \<Rightarrow>
          (let payload = dput ''state'' (dgetn d ''state'') (dput ''attempt_id'' (dgetn d ''attempt_id'')
                 (dput ''kind'' (PStr ''recovery'') selected));
               payload = fold (\<lambda>k. copy_present k d) [''operation'', ''status_code'', ''duration_ms''] payload
           in if diagnostic fr br (PDict payload) then Some (PDict payload) else None)
      | _ \<Rightarrow> None)"
| "normalise_recovery fr br _ dflt = None"

fun execution :: "pyval \<Rightarrow> bool" where
  "execution (PDict d) =
     (closed [''version'', ''kind'', ''name'', ''elapsed_ms'', ''limit_ms''] [] (PDict d)
      \<and> integer (dgetn d ''version'') 1 (Some 1)
      \<and> one_str (dgetn d ''kind'') [''request'', ''command'', ''job'', ''unknown'']
      \<and> null_or (\<lambda>v. text_ok v 128) (dgetn d ''name'')
      \<and> null_or number (dgetn d ''elapsed_ms'') \<and> null_or number (dgetn d ''limit_ms''))"
| "execution _ = False"

subsection \<open>Exception graphs\<close>

definition graph_runtimes :: "string list" where
  "graph_runtimes = [''node'', ''browser'', ''python'', ''php'', ''jvm'', ''go'', ''ruby'', ''dotnet'',
    ''android'', ''swift'', ''react_native'', ''unknown'']"

fun frame_ok :: "pyval \<Rightarrow> bool" where
  "frame_ok (PDict f) =
     (closed [''function'', ''file'', ''line'', ''column'', ''classification''] [] (PDict f)
      \<and> null_or (\<lambda>v. text_ok v 256) (dgetn f ''function'') \<and> null_or (\<lambda>v. text_ok v 2048) (dgetn f ''file'')
      \<and> null_or (\<lambda>v. integer v 1 None) (dgetn f ''line'') \<and> null_or (\<lambda>v. integer v 0 None) (dgetn f ''column'')
      \<and> one_str (dgetn f ''classification'') [''application'', ''framework'', ''sdk'', ''unknown''])"
| "frame_ok _ = False"

text \<open>
  The loop over one node's relationships: the (kind, target) pairs seen, the number of causal edges
  and the targets so far. \<open>None\<close> is the early \<open>return False\<close>.
\<close>

fun graph_edges :: "pyval list \<Rightarrow> (string \<times> int) list \<Rightarrow> nat \<Rightarrow> int list \<Rightarrow> (nat \<times> int list) option" where
  "graph_edges [] seen causal targets = Some (causal, targets)"
| "graph_edges (PDict e # es) seen causal targets =
     (case dgetn e ''kind'' of
        PStr k \<Rightarrow>
          if \<not> closed [''kind'', ''target_id''] [] (PDict e)
             \<or> \<not> one_str (PStr k) [''cause'', ''context'', ''aggregate'', ''suppressed'']
             \<or> \<not> integer (dgetn e ''target_id'') 0 (Some 7)
             \<or> (k, int_of (dgetn e ''target_id'')) \<in> set seen then None
          else graph_edges es ((k, int_of (dgetn e ''target_id'')) # seen)
                 (causal + (if one_str (PStr k) [''cause'', ''context''] then 1 else 0))
                 (targets @ [int_of (dgetn e ''target_id'')])
      | _ \<Rightarrow> None)"
| "graph_edges (_ # es) seen causal targets = None"

text \<open>The scalar checks of a node, before its frames and relationships.\<close>

definition node_fields :: "pydict \<Rightarrow> bool" where
  "node_fields n \<longleftrightarrow>
     closed [''id'', ''name'', ''message'', ''stack'', ''trace_origin'', ''parsing_status'', ''frames'',
       ''relationships''] [] (PDict n)
     \<and> integer (dgetn n ''id'') 0 (Some 7)
     \<and> text_ok (dgetn n ''name'') 256 \<and> text_ok (dgetn n ''message'') 2048
     \<and> null_or (\<lambda>v. text_ok v 16384) (dgetn n ''stack'')
     \<and> one_str (dgetn n ''trace_origin'')
         [''throw'', ''native_fatal'', ''capture'', ''runtime_reported'', ''unavailable'', ''unknown'']
     \<and> one_str (dgetn n ''parsing_status'') [''parsed'', ''partial'', ''unparsed'', ''unavailable'', ''truncated'']"

text \<open>The loop over the nodes, building the adjacency dictionary.\<close>

fun graph_nodes :: "pyval list \<Rightarrow> (int \<times> int list) list \<Rightarrow> (int \<times> int list) list option" where
  "graph_nodes [] adj = Some adj"
| "graph_nodes (PDict n # ns) adj =
     (case (dgetn n ''frames'', dgetn n ''relationships'') of
        (PList frames, PList rels) \<Rightarrow>
          if \<not> node_fields n \<or> int_of (dgetn n ''id'') \<in> set (map fst adj)
             \<or> 32 < length frames \<or> 5 < length rels \<or> \<not> list_all frame_ok frames then None
          else (case graph_edges rels [] 0 [] of
              None \<Rightarrow> None
            | Some (causal, targets) \<Rightarrow>
                if 1 < causal then None
                else graph_nodes ns (AList.update (int_of (dgetn n ''id'')) targets adj))
      | _ \<Rightarrow> None)"
| "graph_nodes (_ # ns) adj = None"

text \<open>
  The nested \<open>visit\<close>: the answer and the ids visited so far. \<open>all(...)\<close> stops at the first False.
\<close>

function (sequential) visit ::
  "(int \<times> int list) list \<Rightarrow> int \<Rightarrow> nat \<Rightarrow> int list \<Rightarrow> int list \<Rightarrow> bool \<times> int list"
  and visit_all ::
  "(int \<times> int list) list \<Rightarrow> int list \<Rightarrow> nat \<Rightarrow> int list \<Rightarrow> int list \<Rightarrow> bool \<times> int list" where
  "visit adj x depth anc vis =
     (case map_of adj x of
        None \<Rightarrow> (False, vis)
      | Some cs \<Rightarrow> if x \<in> set anc \<or> 4 < depth then (False, vis)
          else visit_all adj cs (Suc depth) (x # anc) (List.insert x vis))"
| "visit_all adj [] depth anc vis = (True, vis)"
| "visit_all adj (c # cs) depth anc vis =
     (case visit adj c depth anc vis of
        (False, vis') \<Rightarrow> (False, vis')
      | (True, vis') \<Rightarrow> visit_all adj cs depth anc vis')"
  by pat_completeness auto
termination
  by (relation "measures [\<lambda>x. case x of Inl (_, _, d, _) \<Rightarrow> 6 - d | Inr (_, _, d, _) \<Rightarrow> 6 - d,
      \<lambda>x. case x of Inl _ \<Rightarrow> 0 | Inr (_, cs, _) \<Rightarrow> Suc (length cs)]") auto

fun graph_valid :: "(rat \<Rightarrow> string) \<Rightarrow> pyval \<Rightarrow> bool" where
  "graph_valid fr (PDict g) =
     (if \<not> closed [''version'', ''runtime'', ''root_id'', ''nodes'', ''truncated'', ''unavailable_reason''] [] (PDict g)
         \<or> \<not> integer (dgetn g ''version'') 1 (Some 1) \<or> \<not> integer (dgetn g ''root_id'') 0 (Some 7)
         \<or> \<not> one_str (dgetn g ''runtime'') graph_runtimes
         \<or> \<not> is_bool (dgetn g ''truncated'')
         \<or> \<not> one_of (dgetn g ''unavailable_reason'')
               [None, Some ''unknown'', Some ''unsafe'', Some ''unsupported'', Some ''budget_exceeded'']
      then False
      else (case dgetn g ''nodes'' of
          PList ns \<Rightarrow>
            1 \<le> length ns \<and> length ns \<le> 8 \<and>
            (case graph_nodes ns [] of
               None \<Rightarrow> False
             | Some adj \<Rightarrow>
                 (case visit adj (int_of (dgetn g ''root_id'')) 0 [] [] of
                    (ok, vis) \<Rightarrow> ok \<and> length vis = length adj \<and> canonical_size fr (PDict g) \<le> 32768))
        | _ \<Rightarrow> False))"
| "graph_valid fr _ = False"

subsection \<open>Events: validation and reductions\<close>

definition optional_fields :: "string list" where
  "optional_fields = [''exception_evidence'', ''execution'', ''resource_observations'']"

definition field_allowed :: "string \<Rightarrow> pyval \<Rightarrow> bool" where
  "field_allowed field event_type \<longleftrightarrow>
     (field \<noteq> ''resource_observations'' \<and> one_str event_type [''backend_exception''])
     \<or> (field \<noteq> ''execution'' \<and> one_str event_type [''frontend_exception''])"

fun evidence_field_ok :: "(rat \<Rightarrow> string) \<Rightarrow> (string \<Rightarrow> bool) \<Rightarrow> string \<Rightarrow> pyval \<Rightarrow> bool" where
  "evidence_field_ok fr br field v =
     (if field = ''exception_evidence'' then graph_valid fr v
      else if field = ''execution'' then execution v
      else resources fr br v)"

definition context_reference :: "pyval \<Rightarrow> pyval option" where
  "context_reference context = (case context of
     PDict c \<Rightarrow> if mapping 256 (PDict c) then reference (dgetn c ''evidence_reference'') else None
   | _ \<Rightarrow> None)"

fun validate_evidence :: "(rat \<Rightarrow> string) \<Rightarrow> (string \<Rightarrow> bool) \<Rightarrow> pyval \<Rightarrow> bool" where
  "validate_evidence fr br (PDict e) =
     (case dgetn e ''payload'' of
        PDict p \<Rightarrow>
          if \<not> mapping 256 (PDict e) \<or> \<not> mapping 256 (PDict p) then False
          else if one_str (dgetn e ''event_type'') [''diagnostic_context''] then
            diagnostic fr br (PDict p)
            \<and> (\<not> one_str (case dgetn p ''scope'' of PDict sc \<Rightarrow> dgetn sc ''kind'' | _ \<Rightarrow> PNone) [''page'']
               \<or> (case dgetn e ''correlation'' of
                    PDict c \<Rightarrow> mapping 256 (PDict c)
                      \<and> (case dgetn c ''session_id'' of PStr s \<Rightarrow> str_strip s \<noteq> [] | _ \<Rightarrow> False)
                  | _ \<Rightarrow> False))
          else
            let present = filter (\<lambda>f. has_key f p) optional_fields in
            list_all (\<lambda>f. field_allowed f (dgetn e ''event_type'') \<and> evidence_field_ok fr br f (dgetn p f)) present
            \<and> (present = []
               \<or> canonical_size fr (PDict (map (\<lambda>f. (PStr f, dgetn p f)) present
                    @ (case context_reference (dgetn e ''context'') of None \<Rightarrow> []
                       | Some r \<Rightarrow> [(PStr ''evidence_reference'', r)]))) \<le> 32768)
      | _ \<Rightarrow> False)"
| "validate_evidence fr br _ = False"

fun without_optional :: "pyval \<Rightarrow> pyval option" where
  "without_optional (PDict e) =
     (if \<not> mapping 256 (PDict e) then None
      else if \<not> one_str (dgetn e ''event_type'') [''backend_exception'', ''frontend_exception''] then None
      else (case dgetn e ''payload'' of
          PDict p \<Rightarrow>
            if \<not> mapping 256 (PDict p) \<or> \<not> (\<exists>f \<in> set optional_fields. has_key f p) then None
            else Some (PDict (dput ''payload'' (PDict (without_keys optional_fields p)) e))
        | _ \<Rightarrow> None))"
| "without_optional _ = None"

fun strip_unsupported :: "pyval \<Rightarrow> string list \<Rightarrow> pyval option" where
  "strip_unsupported (PDict e) features =
     (case dgetn e ''payload'' of
        PDict p \<Rightarrow>
          if \<not> mapping 256 (PDict e) \<or> \<not> mapping 256 (PDict p) then None
          else if one_str (dgetn e ''event_type'') [''diagnostic_context''] then
            (let feature = (if one_str (dgetn p ''kind'') [''recovery''] then ''recovery_v1''
                            else ''resource_observations_v1'')
             in if feature \<in> set features then Some (PDict e) else None)
          else
            let p1 = (if ''exception_evidence_v1'' \<in> set features then p
                      else ddel ''execution'' (ddel ''exception_evidence'' p));
                p2 = (if ''resource_observations_v1'' \<in> set features then p1
                      else ddel ''resource_observations'' p1);
                candidate = dput ''payload'' (PDict p2) e
            in (case dgetn e ''context'' of
                  PDict c \<Rightarrow>
                    if ''resource_observations_v1'' \<notin> set features \<and> ''recovery_v1'' \<notin> set features
                       \<and> mapping 256 (PDict c) \<and> reference (dgetn c ''evidence_reference'') \<noteq> None
                    then Some (PDict (dput ''context'' (PDict (without_keys [''evidence_reference''] c)) candidate))
                    else Some (PDict candidate)
                | _ \<Rightarrow> Some (PDict candidate))
      | _ \<Rightarrow> None)"
| "strip_unsupported _ features = None"

end
