(* ===== verification/Evidence_Facts.thy ===== *)
theory Evidence_Facts
  imports Evidence_Wire
begin

text \<open>
  Correctness of the evidence boundary: what an accepted exception graph is, that capability
  descriptors parse to a canonical form, that the two reductions of an event remove exactly the
  optional fields, and that accepted timestamps are calendar dates.
\<close>

subsection \<open>Sample values\<close>

definition sample_node :: "int \<Rightarrow> pyval list \<Rightarrow> pyval" where
  "sample_node i rels = PDict [(PStr ''id'', PInt i), (PStr ''name'', PStr ''ValueError''),
     (PStr ''message'', PStr ''boom''), (PStr ''stack'', PNone), (PStr ''trace_origin'', PStr ''throw''),
     (PStr ''parsing_status'', PStr ''parsed''), (PStr ''frames'', PList []), (PStr ''relationships'', PList rels)]"

definition sample_graph :: pydict where
  "sample_graph = [(PStr ''version'', PInt 1), (PStr ''runtime'', PStr ''python''), (PStr ''root_id'', PInt 0),
     (PStr ''nodes'', PList [sample_node 0 [PDict [(PStr ''kind'', PStr ''cause''), (PStr ''target_id'', PInt 1)]],
        sample_node 1 []]),
     (PStr ''truncated'', PBool False), (PStr ''unavailable_reason'', PNone)]"

definition sample_execution :: pyval where
  "sample_execution = PDict [(PStr ''version'', PInt 1), (PStr ''kind'', PStr ''job''),
     (PStr ''name'', PStr ''nightly''), (PStr ''elapsed_ms'', PInt 12), (PStr ''limit_ms'', PNone)]"

definition sample_event :: pydict where
  "sample_event = [(PStr ''event_type'', PStr ''backend_exception''),
     (PStr ''payload'', PDict [(PStr ''message'', PStr ''boom''), (PStr ''execution'', sample_execution)])]"

definition sample_event_stripped :: pydict where
  "sample_event_stripped = [(PStr ''event_type'', PStr ''backend_exception''),
     (PStr ''payload'', PDict [(PStr ''message'', PStr ''boom'')])]"

lemma sample_graph_valid: "graph_valid (\<lambda>q. []) (PDict sample_graph)"
  by code_simp

lemma sample_execution_ok: "execution sample_execution"
  by code_simp

lemma sample_execution_size: "canonical_size (\<lambda>q. []) (PDict [(PStr ''execution'', sample_execution)]) \<le> 32768"
  by code_simp

lemma sample_event_valid: "validate_evidence (\<lambda>q. []) (\<lambda>s. False) (PDict sample_event)"
  using sample_execution_ok sample_execution_size
  by (simp add: sample_event_def dgetn_def has_key_def optional_fields_def field_allowed_def
      context_reference_def str_keys_def del: execution.simps)

lemma sample_event_strip: "strip_unsupported (PDict sample_event) [] = Some (PDict sample_event_stripped)"
  by code_simp

lemma sample_event_without: "without_optional (PDict sample_event) = Some (PDict sample_event_stripped)"
  by code_simp

subsection \<open>The calendar of timestamps\<close>

text \<open>The text \<open>YYYY-MM-DDThh:mm:ssZ\<close> of a date and time.\<close>

definition digit :: "nat \<Rightarrow> char" where
  "digit n = char_of (48 + n mod 10)"

definition pad2 :: "nat \<Rightarrow> string" where
  "pad2 n = [digit (n div 10), digit n]"

definition pad4 :: "nat \<Rightarrow> string" where
  "pad4 n = pad2 (n div 100) @ pad2 n"

definition iso_utc :: "nat \<Rightarrow> nat \<Rightarrow> nat \<Rightarrow> nat \<Rightarrow> nat \<Rightarrow> nat \<Rightarrow> string" where
  "iso_utc y mo d h mi s = pad4 y @ ''-'' @ pad2 mo @ ''-'' @ pad2 d @ ''T'' @ pad2 h @ '':'' @ pad2 mi @ '':'' @ pad2 s @ ''Z''"

lemma ord_digit [simp]: "ord_of (digit n) = 48 + n mod 10"
  by (simp add: digit_def)

lemma is_digit_digit [simp]: "is_digit (digit n)"
  by (simp add: is_digit_def)

lemma digits_pad2: "n < 100 \<Longrightarrow> nat_of_digits (pad2 n) = n"
  by (simp add: nat_of_digits_def pad2_def)

lemma two_digits: "10 * (b div 10 mod 10) + b mod 10 = (b mod 100 :: nat)"
  using mod_mult2_eq [of b 10 10] by simp

lemma digits_pad4:
  assumes "n < 10000" shows "nat_of_digits (pad4 n) = n"
proof -
  let ?a = "n div 100"
  have "nat_of_digits (pad4 n) = 100 * (10 * (?a div 10 mod 10) + ?a mod 10) + (10 * (n div 10 mod 10) + n mod 10)"
    by (simp add: nat_of_digits_def pad2_def pad4_def)
  also have "\<dots> = 100 * (?a mod 100) + n mod 100"
    by (simp only: two_digits)
  also have "?a mod 100 = ?a" using assms by simp
  finally show ?thesis by simp
qed

lemma length_pad [simp]: "length (pad2 n) = 2" "length (pad4 n) = 4"
  by (simp_all add: pad2_def pad4_def)

lemma iso_parts:
  "slice 0 4 (iso_utc y mo d h mi s) = pad4 y" "slice 5 7 (iso_utc y mo d h mi s) = pad2 mo"
  "slice 8 10 (iso_utc y mo d h mi s) = pad2 d" "slice 11 13 (iso_utc y mo d h mi s) = pad2 h"
  "slice 14 16 (iso_utc y mo d h mi s) = pad2 mi" "slice 17 19 (iso_utc y mo d h mi s) = pad2 s"
  by (simp_all add: slice_def iso_utc_def pad2_def pad4_def)

lemma iso_shape: "time_shape (iso_utc y mo d h mi s)"
  by (simp add: time_shape_def iso_utc_def pad2_def pad4_def nth_Cons_numeral)

lemma iso_text: "text_ok (PStr (iso_utc y mo d h mi s)) 32768"
  by (simp add: iso_utc_def pad2_def pad4_def)

text \<open>
  The validator of times accepts the formatted form of a date and time exactly when it exists in
  the UTC calendar.
\<close>

theorem timestamp_calendar:
  assumes "y < 10000" "mo < 100" "d < 100" "h < 100" "mi < 100" "s < 100"
  shows "timestamp (PStr (iso_utc y mo d h mi s)) \<longleftrightarrow>
    mo \<in> {1..12} \<and> d \<in> {1..month_days y ! (mo - 1)} \<and> h < 24 \<and> mi < 60 \<and> s < 60"
  using assms
  by (auto simp add: iso_parts iso_shape iso_text digits_pad2 digits_pad4 Let_def simp del: text_ok.simps)
theorem timestamp_calendar_witness:
  "timestamp (PStr (iso_utc 2024 2 29 23 59 59)) \<and> \<not> timestamp (PStr (iso_utc 2023 2 29 23 59 59))"
  using timestamp_calendar [of 2024 2 29 23 59 59] timestamp_calendar [of 2023 2 29 23 59 59]
  by (simp add: month_days_def leap_def)

subsection \<open>Accepted graphs\<close>

definition edge :: "(int \<times> int list) list \<Rightarrow> int \<Rightarrow> int \<Rightarrow> bool" where
  "edge adj a b \<longleftrightarrow> (\<exists>cs. map_of adj a = Some cs \<and> b \<in> set cs)"

text \<open>A walk that succeeds from a node has seen every path below it end in time, on known nodes.\<close>

lemma visit_bounds:
  "visit adj x depth anc vis = (True, vis') \<Longrightarrow>
     (\<forall>n y. (edge adj ^^ n) x y \<longrightarrow> depth + n \<le> 4 \<and> map_of adj y \<noteq> None)"
  "visit_all adj cs depth anc vis = (True, vis') \<Longrightarrow>
     (\<forall>c \<in> set cs. \<forall>n y. (edge adj ^^ n) c y \<longrightarrow> depth + n \<le> 4 \<and> map_of adj y \<noteq> None)"
proof (induction adj x depth anc vis and adj cs depth anc vis
    arbitrary: vis' and vis' rule: visit_visit_all.induct)
  case (1 adj x depth anc vis)
  from "1.prems" obtain cs where cs: "map_of adj x = Some cs"
    and go: "\<not> (x \<in> set anc \<or> 4 < depth)"
    and all: "visit_all adj cs (Suc depth) (x # anc) (List.insert x vis) = (True, vis')"
    by (auto split: option.splits if_splits)
  note below = "1.IH" [OF cs go all]
  show ?case
  proof (intro allI impI)
    fix n y assume path: "(edge adj ^^ n) x y"
    show "depth + n \<le> 4 \<and> map_of adj y \<noteq> None"
    proof (cases n)
      case 0
      with path go cs show ?thesis by simp
    next
      case (Suc m)
      from path Suc obtain c where "edge adj x c" and "(edge adj ^^ m) c y"
        by (metis relpowp_Suc_D2)
      with below cs Suc show ?thesis by (fastforce simp: edge_def)
    qed
  qed
next
  case (2 adj depth anc vis)
  show ?case by simp
next
  case (3 adj c cs depth anc vis)
  from "3.prems" obtain v where c: "visit adj c depth anc vis = (True, v)"
    and rest: "visit_all adj cs depth anc v = (True, vis')"
    by (auto simp del: visit.simps split: prod.splits bool.splits)
  from "3.IH"(1) [OF c] "3.IH"(2) [OF c [symmetric] refl rest] show ?case by simp
qed

lemma visit_reaches:
  "visit adj x depth anc vis = (ok, vis') \<Longrightarrow>
     set vis' \<subseteq> set vis \<union> {y. \<exists>n. (edge adj ^^ n) x y} \<and> (distinct vis \<longrightarrow> distinct vis')"
  "visit_all adj cs depth anc vis = (ok, vis') \<Longrightarrow>
     set vis' \<subseteq> set vis \<union> {y. \<exists>c \<in> set cs. \<exists>n. (edge adj ^^ n) c y} \<and> (distinct vis \<longrightarrow> distinct vis')"
proof (induction adj x depth anc vis and adj cs depth anc vis
    arbitrary: ok vis' and ok vis' rule: visit_visit_all.induct)
  case (1 adj x depth anc vis)
  have self: "\<exists>n. (edge adj ^^ n) x x" by (rule exI [of _ 0]) simp
  show ?case
  proof (cases "map_of adj x = None \<or> x \<in> set anc \<or> 4 < depth")
    case True
    with "1.prems" show ?thesis by (auto split: option.splits if_splits)
  next
    case False
    then obtain cs where cs: "map_of adj x = Some cs" and go: "\<not> (x \<in> set anc \<or> 4 < depth)" by auto
    with "1.prems" have all: "visit_all adj cs (Suc depth) (x # anc) (List.insert x vis) = (ok, vis')"
      by simp
    have step: "c \<in> set cs \<Longrightarrow> (edge adj ^^ n) c y \<Longrightarrow> \<exists>m. (edge adj ^^ m) x y" for c n y
      using cs by (intro exI [of _ "Suc n"] relpowp_Suc_I2 [of _ x c]) (auto simp: edge_def)
    from "1.IH" [OF cs go all] self step show ?thesis by auto
  qed
next
  case (2 adj depth anc vis)
  then show ?case by simp
next
  case (3 adj c cs depth anc vis)
  obtain b v where c: "visit adj c depth anc vis = (b, v)" by fastforce
  show ?case
  proof (cases b)
    case True
    with "3.prems" c have rest: "visit_all adj cs depth anc v = (ok, vis')"
      by (simp del: visit.simps)
    from "3.IH"(1) [OF c] "3.IH"(2) [OF c [symmetric] _ rest] True show ?thesis by auto
  next
    case False
    with "3.prems" c have "vis' = v" by (simp del: visit.simps)
    with "3.IH"(1) [OF c] show ?thesis by auto
  qed
qed

fun node_id :: "pyval \<Rightarrow> int" where
  "node_id (PDict n) = int_of (dgetn n ''id'')"
| "node_id _ = 0"

lemma update_new_keys: "k \<notin> set (map fst d) \<Longrightarrow> map fst (AList.update k v d) = map fst d @ [k]"
  by (induction d) auto

lemma graph_nodes_keys:
  "graph_nodes ns adj = Some adj' \<Longrightarrow> dict_ok adj \<Longrightarrow>
     dict_ok adj' \<and> map fst adj' = map fst adj @ map node_id ns"
proof (induction ns adj arbitrary: adj' rule: graph_nodes.induct)
  case (2 n ns adj)
  from "2.prems" obtain frames rels causal targets
    where l: "(dgetn n ''frames'', dgetn n ''relationships'') = (PList frames, PList rels)"
    and c: "\<not> (\<not> node_fields n \<or> int_of (dgetn n ''id'') \<in> set (map fst adj)
             \<or> 32 < length frames \<or> 5 < length rels \<or> \<not> list_all frame_ok frames)"
    and e: "graph_edges rels [] 0 [] = Some (causal, targets)" and one: "\<not> 1 < causal"
    and rest: "graph_nodes ns (AList.update (int_of (dgetn n ''id'')) targets adj) = Some adj'"
    by (auto split: pyval.splits if_splits option.splits)
  have "dict_ok (AList.update (int_of (dgetn n ''id'')) targets adj)"
    using "2.prems"(2) by (rule distinct_update)
  note ih = "2.IH" [OF l [symmetric] refl refl c e refl one rest this]
  then have "map fst adj' = map fst adj @ map node_id (PDict n # ns)"
    using c by (simp add: update_new_keys)
  with ih show ?case by blast
qed simp_all

lemma relpowp_cycle: "(R ^^ k) x x \<Longrightarrow> (R ^^ (k * j)) x x"
proof (induction j)
  case (Suc j)
  have "(R ^^ k OO R ^^ (k * j)) x x" using Suc.prems Suc.IH by blast
  then show ?case by (simp add: relpowp_add)
qed simp

lemma bounded_paths_acyclic:
  assumes bound: "\<forall>n y. (R ^^ n) start y \<longrightarrow> n \<le> (b::nat)" and reach: "(R ^^ m) start x"
  shows "\<not> R\<^sup>+\<^sup>+ x x"
proof
  assume "R\<^sup>+\<^sup>+ x x"
  then obtain k where k: "0 < k" "(R ^^ k) x x" by (auto simp: tranclp_power)
  have "(R ^^ m OO R ^^ (k * Suc b)) start x" using reach relpowp_cycle [OF k(2)] by blast
  then have "m + k * Suc b \<le> b" using bound by (simp only: relpowp_add [symmetric])
  moreover have "1 * Suc b \<le> k * Suc b" using k(1) by (intro mult_le_mono1) simp
  ultimately show False by simp
qed

text \<open>
  C24: An exception graph that the evidence boundary accepts has distinct node ids; from its root
  every path is at most four edges long and stays on declared nodes, every declared node is reached,
  and there is no cycle.
\<close>

theorem graph_valid_sound:
  assumes "graph_valid fr (PDict g)"
  shows "\<exists>ns adj. dgetn g ''nodes'' = PList ns \<and> graph_nodes ns [] = Some adj \<and>
    map fst adj = map node_id ns \<and> distinct (map node_id ns) \<and>
    (\<forall>n y. (edge adj ^^ n) (int_of (dgetn g ''root_id'')) y \<longrightarrow> n \<le> 4 \<and> y \<in> set (map node_id ns)) \<and>
    (\<forall>x \<in> set (map node_id ns). (\<exists>n. (edge adj ^^ n) (int_of (dgetn g ''root_id'')) x) \<and> \<not> (edge adj)\<^sup>+\<^sup>+ x x)"
proof -
  let ?root = "int_of (dgetn g ''root_id'')"
  from assms obtain ns adj vis where ns: "dgetn g ''nodes'' = PList ns"
    and adj: "graph_nodes ns [] = Some adj"
    and v: "visit adj ?root 0 [] [] = (True, vis)" and len: "length vis = length adj"
    by (auto simp del: visit.simps split: if_splits pyval.splits option.splits prod.splits)
  from graph_nodes_keys [OF adj] have keys: "map fst adj = map node_id ns" "dict_ok adj" by auto
  have bound: "\<forall>n y. (edge adj ^^ n) ?root y \<longrightarrow> n \<le> 4 \<and> y \<in> set (map node_id ns)"
    using visit_bounds(1) [OF v] keys by (auto simp: map_of_eq_None_iff simp flip: set_map)
  from visit_reaches(1) [OF v] have sub: "set vis \<subseteq> {y. \<exists>n. (edge adj ^^ n) ?root y}"
    and dist: "distinct vis" by auto
  with bound have "set vis \<subseteq> set (map node_id ns)" by blast
  moreover have "card (set vis) = card (set (map node_id ns))"
    using dist len keys by (metis distinct_card length_map)
  ultimately have all: "set vis = set (map node_id ns)" by (intro card_subset_eq) auto
  have "x \<in> set (map node_id ns) \<Longrightarrow> (\<exists>n. (edge adj ^^ n) ?root x) \<and> \<not> (edge adj)\<^sup>+\<^sup>+ x x" for x
    using sub all bounded_paths_acyclic [where R = "edge adj" and start = ?root and b = 4] bound by blast
  with ns adj keys bound show ?thesis by (metis (no_types, lifting))
qed

theorem graph_valid_sound_witness:
  "\<exists>ns. dgetn sample_graph ''nodes'' = PList ns \<and> distinct (map node_id ns)"
  using graph_valid_sound [OF sample_graph_valid] by blast

subsection \<open>Capabilities\<close>

lemma parse_features_filter: "\<exists>P. parse_features v = filter P FEATURES"
proof (cases v)
  case (PDict d)
  then show ?thesis by (auto split: pyval.splits intro: exI [of _ "\<lambda>_. False"])
qed (auto intro: exI [of _ "\<lambda>_. False"])

lemma parse_features_capabilities: "parse_features (capabilities (filter P FEATURES)) = filter P FEATURES"
proof -
  have one: "integer (PInt 1) 1 (Some 1)"
    using max_double_ge [of 1] by (simp add: integer_def number_def)
  have img: "PStr f \<in> PStr ` A \<longleftrightarrow> f \<in> A" for f A by auto
  have dist: "distinct (map PStr (filter P FEATURES))"
    by (simp add: FEATURES_def distinct_map inj_on_def)
  have len: "\<not> length FEATURES < length (map PStr (filter P FEATURES))"
    by (simp add: not_less)
  have sub: "\<not> (\<exists>f \<in> set (map PStr (filter P FEATURES)). f \<notin> PStr ` set FEATURES)" by auto
  have same: "filter (\<lambda>f. PStr f \<in> set (map PStr (filter P FEATURES))) FEATURES = filter P FEATURES"
    by (rule filter_cong) (auto simp: img)
  have shape: "closed [''version'', ''features''] [] (capabilities fs)" for fs
    by (simp add: capabilities_def has_key_def str_keys_def)
  show ?thesis
    using one shape [of "filter P FEATURES", unfolded capabilities_def] dist len sub same
    unfolding capabilities_def parse_features.simps by (simp add: dgetn_def del: set_map set_filter)
qed

text \<open>
  Whatever a server or a pin sends as a capability descriptor, the parsed descriptor lists known
  features only, each once and in the canonical order, and parsing it again changes nothing.
\<close>

theorem parse_capabilities_canonical:
  "distinct (parse_features v) \<and> set (parse_features v) \<subseteq> set FEATURES \<and>
   (\<exists>P. parse_features v = filter P FEATURES) \<and>
   parse_capabilities (parse_capabilities v) = parse_capabilities v"
proof -
  obtain P where P: "parse_features v = filter P FEATURES" using parse_features_filter by blast
  then have "parse_capabilities (parse_capabilities v) = parse_capabilities v"
    by (simp add: parse_capabilities_def parse_features_capabilities)
  with P show ?thesis by (auto simp: FEATURES_def)
qed

subsection \<open>Reductions of an event\<close>

lemma payload_kept:
  assumes "dgetn e ''payload'' = PDict p" and "mapping 256 (PDict e)"
  shows "mapping 256 (PDict (dput ''payload'' w e))"
  using assms dgetn_not_none [OF assms(1)] by (simp add: length_dput_present)

text \<open>The payload of \<open>strip_unsupported\<close>, as one definition for the lemmas.\<close>

definition stripped_payload :: "string list \<Rightarrow> pydict \<Rightarrow> pydict" where
  "stripped_payload features p =
     (let p1 = (if ''exception_evidence_v1'' \<in> set features then p
                else ddel ''execution'' (ddel ''exception_evidence'' p))
      in if ''resource_observations_v1'' \<in> set features then p1 else ddel ''resource_observations'' p1)"

definition supported :: "string list \<Rightarrow> string \<Rightarrow> bool" where
  "supported features k \<longleftrightarrow>
     (k \<in> {''exception_evidence'', ''execution''} \<longrightarrow> ''exception_evidence_v1'' \<in> set features) \<and>
     (k = ''resource_observations'' \<longrightarrow> ''resource_observations_v1'' \<in> set features)"

lemma dget_stripped_payload:
  "dget (stripped_payload features p) k = (if supported features k then dget p k else None)"
  by (auto simp: stripped_payload_def supported_def Let_def)

lemma stripped_payload_idem: "stripped_payload features (stripped_payload features p) = stripped_payload features p"
  by (auto simp: stripped_payload_def Let_def ddel_def AList.delete_eq intro!: filter_cong)

lemma stripped_payload_size:
  "length (stripped_payload features p) \<le> length p \<and> (str_keys p \<longrightarrow> str_keys (stripped_payload features p))"
  by (auto simp: stripped_payload_def Let_def intro: order_trans [OF length_ddel_le])

definition references_off :: "string list \<Rightarrow> bool" where
  "references_off features \<longleftrightarrow>
     ''resource_observations_v1'' \<notin> set features \<and> ''recovery_v1'' \<notin> set features"

definition stripped_context :: "string list \<Rightarrow> pydict \<Rightarrow> pydict \<Rightarrow> pydict" where
  "stripped_context features e candidate =
     (case dgetn e ''context'' of
        PDict c \<Rightarrow>
          if references_off features \<and> mapping 256 (PDict c) \<and> reference (dgetn c ''evidence_reference'') \<noteq> None
          then dput ''context'' (PDict (without_keys [''evidence_reference''] c)) candidate
          else candidate
      | _ \<Rightarrow> candidate)"

lemma strip_unsupported_eq:
  assumes "dgetn e ''payload'' = PDict p" "mapping 256 (PDict e)" "mapping 256 (PDict p)"
    and "\<not> one_str (dgetn e ''event_type'') [''diagnostic_context'']"
  shows "strip_unsupported (PDict e) features =
    Some (PDict (stripped_context features e (dput ''payload'' (PDict (stripped_payload features p)) e)))"
  using assms
  by (cases "dgetn e ''context''")
    (auto simp: stripped_payload_def stripped_context_def references_off_def Let_def)

lemma strip_unsupported_cases:
  assumes "strip_unsupported ev features = Some ev'"
  obtains e p where "ev = PDict e" "dgetn e ''payload'' = PDict p" "mapping 256 (PDict e)" "mapping 256 (PDict p)"
    "one_str (dgetn e ''event_type'') [''diagnostic_context'']" "ev' = ev"
  | e p where "ev = PDict e" "dgetn e ''payload'' = PDict p" "mapping 256 (PDict e)" "mapping 256 (PDict p)"
    "\<not> one_str (dgetn e ''event_type'') [''diagnostic_context'']"
    "ev' = PDict (stripped_context features e (dput ''payload'' (PDict (stripped_payload features p)) e))"
proof (cases ev)
  case (PDict e)
  with assms obtain p where p: "dgetn e ''payload'' = PDict p" "mapping 256 (PDict e)" "mapping 256 (PDict p)"
    by (auto split: pyval.splits if_splits)
  show ?thesis
  proof (cases "one_str (dgetn e ''event_type'') [''diagnostic_context'']")
    case True
    with assms p PDict have "ev' = ev" by (auto simp: Let_def split: if_splits)
    with True p PDict that(1) show ?thesis by blast
  next
    case False
    with assms strip_unsupported_eq [OF p False] p PDict that(2) show ?thesis by auto
  qed
qed (use assms in auto)

lemma dput_commute_same: "dget e k = Some v \<Longrightarrow> dput k v (dput k w e) = e"
  unfolding dput_def by (induction e) auto

lemma dput_dput [simp]: "dput k v (dput k w d) = dput k v d"
  unfolding dput_def by (induction d) auto

lemma dput_swap:
  "k \<noteq> k' \<Longrightarrow> dget d k' = Some u \<Longrightarrow> dput k v (dput k' w d) = dput k' w (dput k v d)"
  unfolding dput_def by (induction d) auto

lemma stripped_context_other:
  "k \<noteq> ''context'' \<Longrightarrow> dget (stripped_context features e c) k = dget c k"
  by (auto simp: stripped_context_def split: pyval.splits)

lemma stripped_context_shape:
  "dget c ''context'' = dget e ''context'' \<Longrightarrow>
   length (stripped_context features e c) = length c \<and>
   (str_keys c \<longrightarrow> str_keys (stripped_context features e c))"
  by (auto simp: stripped_context_def dest: dgetn_not_none intro!: length_dput_present split: pyval.splits)

lemma context_reference_stripped:
  "dget c ''context'' = dget e ''context'' \<Longrightarrow> references_off features \<Longrightarrow>
   context_reference (dgetn (stripped_context features e c) ''context'') = None"
  by (auto simp: stripped_context_def context_reference_def dgetn_def split: pyval.splits option.splits)

lemma stripped_context_idem:
  assumes "dget c ''context'' = dget e ''context''"
    and "references_off features"
  shows "stripped_context features (stripped_context features e c) w = w"
  using context_reference_stripped [OF assms]
  by (auto simp: stripped_context_def context_reference_def split: pyval.splits if_splits)

lemma strip_facts:
  assumes "strip_unsupported ev features = Some ev'"
  shows "strip_unsupported ev' features = Some ev' \<and>
    (\<exists>e p. ev = PDict e \<and> dgetn e ''payload'' = PDict p \<and>
      (if one_str (dgetn e ''event_type'') [''diagnostic_context''] then ev' = ev
       else \<exists>e' p'. ev' = PDict e' \<and> dgetn e' ''payload'' = PDict p' \<and>
         (\<forall>k. dget p' k = (if supported features k then dget p k else None)) \<and>
         (\<forall>k. k \<notin> {''payload'', ''context''} \<longrightarrow> dget e' k = dget e k) \<and>
         (references_off features \<longrightarrow> context_reference (dgetn e' ''context'') = None)))"
  using assms
proof (cases rule: strip_unsupported_cases)
  case (1 e p)
  with assms show ?thesis by auto
next
  case (2 e p)
  let ?p = "stripped_payload features p"
  let ?c = "dput ''payload'' (PDict ?p) e"
  let ?e = "stripped_context features e ?c"
  have ctx: "dget ?c ''context'' = dget e ''context''" by simp
  have pay: "dgetn ?e ''payload'' = PDict ?p" by (simp add: dgetn_def stripped_context_other)
  have ty: "dgetn ?e ''event_type'' = dgetn e ''event_type''"
    by (simp add: dgetn_def stripped_context_other)
  have me: "mapping 256 (PDict ?e)"
    using payload_kept [OF 2(2,3), of "PDict ?p"] stripped_context_shape [OF ctx, of features] by simp
  have mp: "mapping 256 (PDict ?p)"
    using 2(4) stripped_payload_size [of features p] by simp
  have "dput ''payload'' (PDict (stripped_payload features ?p)) ?e = ?e"
    using pay by (simp add: stripped_payload_idem dput_same dgetn_not_none)
  moreover have "stripped_context features ?e ?e = ?e"
  proof (cases "references_off features")
    case True
    then show ?thesis by (rule stripped_context_idem [OF ctx])
  next
    case False
    then show ?thesis by (simp add: stripped_context_def split: pyval.splits)
  qed
  ultimately have "strip_unsupported (PDict ?e) features = Some (PDict ?e)"
    using strip_unsupported_eq [OF pay me mp] 2(5) ty by simp
  with 2 pay ctx show ?thesis
    by (auto simp: dget_stripped_payload stripped_context_other context_reference_stripped)
qed

text \<open>
  Stripping an event for a destination's features removes from the payload exactly the optional
  fields the destination cannot read, leaves every other field of the event except the context
  alone, and withholds the reference when neither reader exists; stripping twice is stripping once.
\<close>

theorem strip_unsupported_sound:
  assumes "strip_unsupported ev features = Some ev'"
  shows "strip_unsupported ev' features = Some ev' \<and>
    (\<exists>e p. ev = PDict e \<and> dgetn e ''payload'' = PDict p \<and>
      (if one_str (dgetn e ''event_type'') [''diagnostic_context''] then ev' = ev
       else \<exists>e' p'. ev' = PDict e' \<and> dgetn e' ''payload'' = PDict p' \<and>
         (\<forall>k. dget p' k = (if supported features k then dget p k else None)) \<and>
         (\<forall>k. k \<notin> {''payload'', ''context''} \<longrightarrow> dget e' k = dget e k) \<and>
         (references_off features \<longrightarrow> context_reference (dgetn e' ''context'') = None)))"
  by (rule strip_facts [OF assms])

theorem strip_unsupported_sound_witness:
  "strip_unsupported (PDict sample_event_stripped) [] = Some (PDict sample_event_stripped)"
  using strip_unsupported_sound [OF sample_event_strip] by blast

text \<open>
  Dropping the optional evidence of an exception event succeeds at most once, keeps every other
  field of the payload and of the event, and the result always passes the evidence validation.
\<close>

theorem without_optional_sound:
  assumes "without_optional ev = Some ev'"
  shows "without_optional ev' = None \<and> validate_evidence fr br ev' \<and>
    (\<exists>e e' p p'. ev = PDict e \<and> ev' = PDict e' \<and> dgetn e ''payload'' = PDict p \<and> dgetn e' ''payload'' = PDict p' \<and>
      (\<forall>k. dget p' k = (if k \<in> set optional_fields then None else dget p k)) \<and>
      (\<forall>k. k \<noteq> ''payload'' \<longrightarrow> dget e' k = dget e k))"
proof -
  obtain e where e: "ev = PDict e" using assms by (cases ev) auto
  with assms obtain p where p: "dgetn e ''payload'' = PDict p"
    and m: "mapping 256 (PDict e)" "mapping 256 (PDict p)"
    and ty: "one_str (dgetn e ''event_type'') [''backend_exception'', ''frontend_exception'']"
    and ev': "ev' = PDict (dput ''payload'' (PDict (without_keys optional_fields p)) e)"
    by (auto split: pyval.splits if_splits)
  let ?q = "without_keys optional_fields p"
  have none: "filter (\<lambda>f. has_key f ?q) optional_fields = []" and gone: "\<not> (\<exists>f \<in> set optional_fields. has_key f ?q)"
    by (auto simp: has_key_def filter_empty_conv)
  have mq: "mapping 256 (PDict ?q)"
    using m(2) by (auto intro: order_trans [OF length_without_le])
  have nd: "\<not> one_str (dgetn e ''event_type'') [''diagnostic_context'']"
    using ty by (cases "dgetn e ''event_type''") auto
  note me = payload_kept [OF p m(1), of "PDict ?q"]
  have "validate_evidence fr br ev'"
    using ev' me mq none nd by (simp del: mapping.simps evidence_field_ok.simps)
  moreover have "without_optional ev' = None"
    using ev' gone by (simp add: mq)
  ultimately show ?thesis using e p ev' by auto
qed

theorem without_optional_sound_witness:
  "without_optional (PDict sample_event_stripped) = None"
  using without_optional_sound [OF sample_event_without] by blast

subsection \<open>Stripping keeps an event valid\<close>

lemma count_more_budget:
  "count fr v depth r = Some (n, r') \<Longrightarrow> n \<le> 32768 \<Longrightarrow> 0 \<le> x \<Longrightarrow>
     count fr v depth (r + x) = Some (n, r' + x)"
  "count_list fr xs depth r = Some (n, r') \<Longrightarrow> n \<le> 32768 \<Longrightarrow> 0 \<le> x \<Longrightarrow>
     count_list fr xs depth (r + x) = Some (n, r' + x)"
  "count_items fr d depth r = Some (n, r') \<Longrightarrow> n \<le> 32768 \<Longrightarrow> 0 \<le> x \<Longrightarrow>
     count_items fr d depth (r + x) = Some (n, r' + x)"
proof (induction fr v depth r and fr xs depth r and fr d depth r
    arbitrary: n r' and n r' and n r' rule: count_count_list_count_items.induct)
  case (1 fr xs depth r)
  then show ?case by (fastforce simp: stopped_def OVER_def algebra_simps split: if_splits)
next
  case (2 fr d depth r)
  then show ?case by (fastforce simp: stopped_def OVER_def algebra_simps split: if_splits)
next
  case (11 fr y xs depth r)
  then show ?case by (fastforce split: option.splits)
next
  case (13 fr k v d depth r)
  from "13.prems" obtain a q b q' c where k: "count fr k depth r = Some (a, q)"
    and v: "count fr v depth q = Some (b, q')"
    and d: "count_items fr d depth q' = Some (c, r')" and n: "n = a + 1 + b + c"
    by (auto split: option.splits)
  from "13.IH"(1) [OF k] "13.IH"(2) [OF k refl v] "13.IH"(3) [OF k refl v refl d] "13.prems" n
  show ?case by simp
qed (auto simp: stopped_def OVER_def split: if_splits)

lemma count_items_filter:
  "count_items fr d depth r = Some (n, r') \<Longrightarrow> n \<le> 32768 \<Longrightarrow>
   \<exists>m x. count_items fr (filter P d) depth r = Some (m, r' + x) \<and> m \<le> n \<and> 0 \<le> x"
proof (induction d arbitrary: r n)
  case Nil
  then show ?case by auto
next
  case (Cons e d)
  obtain k v where e: "e = (k, v)" by (cases e)
  with Cons.prems obtain a q b q' c where k: "count fr k depth r = Some (a, q)"
    and v: "count fr v depth q = Some (b, q')"
    and d: "count_items fr d depth q' = Some (c, r')" and n: "n = a + 1 + b + c"
    by (auto split: option.splits)
  from Cons.IH [OF d] Cons.prems n obtain m x
    where ih: "count_items fr (filter P d) depth q' = Some (m, r' + x)" "m \<le> c" "0 \<le> x" by auto
  show ?case
  proof (cases "P e")
    case True
    with ih n e k v show ?thesis by (intro exI [of _ "a + 1 + b + m"] exI [of _ x]) simp
  next
    case False
    from count_bounds(1) [OF k] count_bounds(1) [OF v] n Cons.prems(2) have "0 \<le> r - q'" by auto
    from count_more_budget(3) [OF ih(1) _ this] ih n Cons.prems(2)
    have "count_items fr (filter P d) depth r = Some (m, r' + (x + (r - q')))" by (simp add: add.assoc)
    with False ih(2,3) n \<open>0 \<le> r - q'\<close> show ?thesis by (intro exI [of _ m] exI [of _ "x + (r - q')"]) simp
  qed
qed

lemma canonical_size_filter:
  assumes "canonical_size fr (PDict d) \<le> 32768"
  shows "canonical_size fr (PDict (filter P d)) \<le> 32768"
proof -
  from assms obtain n r where c: "count_items fr d 1 4095 = Some (n, r)"
    and n: "2 + (length d - 1) + n \<le> 32768" and len: "length d \<le> 256" and keys: "str_keys d"
    by (auto simp: canonical_size_def stopped_def OVER_def split: option.splits if_splits)
  from count_items_filter [OF c, where P = P] n obtain m x
    where f: "count_items fr (filter P d) 1 4095 = Some (m, r + x)" "m \<le> n" by auto
  have "str_keys (filter P d)" using keys by (rule str_keys_subset) auto
  moreover have "\<not> 256 < length (filter P d)"
    using len length_filter_le [of P d] by linarith
  moreover have "2 + (length (filter P d) - 1) + m \<le> 32768"
    using n f(2) length_filter_le [of P d] by linarith
  ultimately show ?thesis using f(1) by (simp add: canonical_size_def stopped_def)
qed

text \<open>The fields whose joint size \<open>validate_evidence\<close> bounds.\<close>

definition additions :: "pydict \<Rightarrow> pyval \<Rightarrow> pydict" where
  "additions p context = map (\<lambda>f. (PStr f, dgetn p f)) (filter (\<lambda>f. has_key f p) optional_fields)
     @ (case context_reference context of None \<Rightarrow> [] | Some r \<Rightarrow> [(PStr ''evidence_reference'', r)])"

lemma validate_evidence_eq:
  assumes "dgetn e ''payload'' = PDict p" "mapping 256 (PDict e)" "mapping 256 (PDict p)"
    and "\<not> one_str (dgetn e ''event_type'') [''diagnostic_context'']"
  shows "validate_evidence fr br (PDict e) \<longleftrightarrow>
    (\<forall>f \<in> set optional_fields. has_key f p \<longrightarrow>
       field_allowed f (dgetn e ''event_type'') \<and> evidence_field_ok fr br f (dgetn p f)) \<and>
    ((\<exists>f \<in> set optional_fields. has_key f p) \<longrightarrow> canonical_size fr (PDict (additions p (dgetn e ''context''))) \<le> 32768)"
  using assms
  by (auto simp: additions_def Let_def list_all_iff filter_empty_conv simp del: mapping.simps evidence_field_ok.simps)

definition kept_addition :: "string list \<Rightarrow> pyval \<times> pyval \<Rightarrow> bool" where
  "kept_addition features = (\<lambda>(k, v). case k of
     PStr f \<Rightarrow> if f = ''evidence_reference'' then \<not> references_off features else supported features f
   | _ \<Rightarrow> False)"

lemma additions_stripped:
  assumes "dget c ''context'' = dget e ''context''"
  shows "additions (stripped_payload features p) (dgetn (stripped_context features e c) ''context'') =
    filter (kept_addition features) (additions p (dgetn e ''context''))"
proof -
  have ref: "\<not> references_off features \<Longrightarrow>
      dgetn (stripped_context features e c) ''context'' = dgetn e ''context''"
    using assms by (auto simp: stripped_context_def dgetn_def split: pyval.splits)
  have has: "has_key f (stripped_payload features p) \<longleftrightarrow> supported features f \<and> has_key f p" for f
    by (simp add: has_key_def dget_stripped_payload)
  have val: "supported features f \<Longrightarrow> dgetn (stripped_payload features p) f = dgetn p f" for f
    by (simp add: dgetn_def dget_stripped_payload)
  show ?thesis
  proof (cases "references_off features")
    case True
    with context_reference_stripped [OF assms True] has val show ?thesis
      by (auto simp: additions_def optional_fields_def kept_addition_def split: option.splits)
  next
    case False
    with ref has val show ?thesis
      by (auto simp: additions_def optional_fields_def kept_addition_def split: option.splits)
  qed
qed

text \<open>
  C25: An event that passes the evidence validation still passes it after being stripped for any
  destination.
\<close>

theorem strip_unsupported_keeps_valid:
  assumes "validate_evidence fr br ev" and "strip_unsupported ev features = Some ev'"
  shows "validate_evidence fr br ev'"
  using assms(2)
proof (cases rule: strip_unsupported_cases)
  case (1 e p)
  with assms(1) show ?thesis by (simp only:)
next
  case (2 e p)
  let ?p = "stripped_payload features p"
  let ?c = "dput ''payload'' (PDict ?p) e"
  let ?e = "stripped_context features e ?c"
  have ctx: "dget ?c ''context'' = dget e ''context''" by simp
  have pay: "dgetn ?e ''payload'' = PDict ?p" by (simp add: dgetn_def stripped_context_other)
  have ty: "dgetn ?e ''event_type'' = dgetn e ''event_type''"
    by (simp add: dgetn_def stripped_context_other)
  have me: "mapping 256 (PDict ?e)"
    using payload_kept [OF 2(2,3), of "PDict ?p"] stripped_context_shape [OF ctx, of features] by simp
  have mp: "mapping 256 (PDict ?p)"
    using 2(4) stripped_payload_size [of features p] by simp
  have has: "has_key f ?p \<longleftrightarrow> supported features f \<and> has_key f p" for f
    by (simp add: has_key_def dget_stripped_payload)
  have val: "supported features f \<Longrightarrow> dgetn ?p f = dgetn p f" for f
    by (simp add: dgetn_def dget_stripped_payload)
  have old: "(\<forall>f \<in> set optional_fields. has_key f p \<longrightarrow>
       field_allowed f (dgetn e ''event_type'') \<and> evidence_field_ok fr br f (dgetn p f)) \<and>
    ((\<exists>f \<in> set optional_fields. has_key f p) \<longrightarrow> canonical_size fr (PDict (additions p (dgetn e ''context''))) \<le> 32768)"
    using assms(1) unfolding 2(1) validate_evidence_eq [OF 2(2-5)] .
  have "validate_evidence fr br (PDict ?e)"
    unfolding validate_evidence_eq [OF pay me mp 2(5) [folded ty]] additions_stripped [OF ctx] ty
    using old has val canonical_size_filter by metis
  then show ?thesis by (simp only: 2(6))
qed

theorem strip_unsupported_keeps_valid_witness:
  "validate_evidence (\<lambda>q. []) (\<lambda>s. False) (PDict sample_event_stripped)"
  by (rule strip_unsupported_keeps_valid [OF sample_event_valid sample_event_strip])

end
