(* ===== verification/Capture_Policy.thy ===== *)
theory Capture_Policy
  imports Evidence_Wire
begin

text \<open>
  \<open>config.py\<close>, \<open>request_capture_policy.py\<close> and the level and status rules of \<open>event_support.py\<close>:
  what a remote configuration means and which logs and requests are captured under it.

  \<open>fromiso\<close> is \<open>datetime.fromisoformat(v).timestamp()\<close> (None is its ValueError), \<open>br\<close> the library's
  check of a bracketed host. A lookup that would raise KeyError and a URL that would raise ValueError
  are None.
\<close>

subsection \<open>Policies and directives\<close>

record PathRule =
  rule_status :: int
  path_pattern :: string
  methods :: "string list"

record CapturePolicy =
  preset :: string
  capture_logs :: string
  capture_request_events :: string
  capture_breadcrumbs :: string
  capture_probe_events :: string
  immediate_client_error_statuses :: "int list"
  immediate_client_error_path_rules :: "PathRule list"
  capture_diagnostic_context :: bool

record RemoteProbeDirective =
  directive_id :: string
  label_pattern :: string
  dir_service :: string
  dir_environment :: string
  expires_at :: string

record RemoteConfigSnapshot =
  probes_enabled :: bool
  remote_probes_enabled :: bool
  directives :: "RemoteProbeDirective list"
  poll_interval_ms :: int
  capture_policy :: CapturePolicy
  trigger_token_key :: "string option"

definition DEFAULT_PROBES_POLL_INTERVAL_MS :: int where "DEFAULT_PROBES_POLL_INTERVAL_MS = 60000"

definition BALANCED_CAPTURE_POLICY :: CapturePolicy where
  "BALANCED_CAPTURE_POLICY = \<lparr>preset = ''balanced'', capture_logs = ''warning'',
     capture_request_events = ''failures_only'', capture_breadcrumbs = ''exception_only'',
     capture_probe_events = ''buffer_only'', immediate_client_error_statuses = [],
     immediate_client_error_path_rules = [], capture_diagnostic_context = True\<rparr>"

definition MINIMAL_CAPTURE_POLICY :: CapturePolicy where
  "MINIMAL_CAPTURE_POLICY = \<lparr>preset = ''minimal'', capture_logs = ''error'',
     capture_request_events = ''failures_only'', capture_breadcrumbs = ''local_only'',
     capture_probe_events = ''buffer_only'', immediate_client_error_statuses = [],
     immediate_client_error_path_rules = [], capture_diagnostic_context = False\<rparr>"

fun as_non_empty_string :: "pyval \<Rightarrow> string option" where
  "as_non_empty_string (PStr s) = (if s \<noteq> [] then Some s else None)"
| "as_non_empty_string _ = None"

text \<open>\<open>int(q)\<close> for a float: truncation towards zero.\<close>

definition trunc_rat :: "rat \<Rightarrow> int" where
  "trunc_rat q = (if 0 \<le> q then \<lfloor>q\<rfloor> else \<lceil>q\<rceil>)"

definition expires_at_ms :: "(string \<Rightarrow> rat option) \<Rightarrow> string \<Rightarrow> int" where
  "expires_at_ms fromiso v =
     (case fromiso (if ends_with ''Z'' v then butlast v @ ''+00:00'' else v) of
        None \<Rightarrow> 0 | Some t \<Rightarrow> trunc_rat (t * 1000))"

fun parse_directive :: "(string \<Rightarrow> rat option) \<Rightarrow> pyval \<Rightarrow> RemoteProbeDirective option" where
  "parse_directive fromiso (PDict d) =
     (case (as_non_empty_string (dgetn d ''id''), as_non_empty_string (dgetn d ''label_pattern''),
            as_non_empty_string (dgetn d ''service''), as_non_empty_string (dgetn d ''environment''),
            as_non_empty_string (dgetn d ''expires_at'')) of
        (Some i, Some p, Some s, Some e, Some x) \<Rightarrow>
          if expires_at_ms fromiso x = 0 then None
          else Some \<lparr>directive_id = i, label_pattern = p, dir_service = s, dir_environment = e, expires_at = x\<rparr>
      | _ \<Rightarrow> None)"
| "parse_directive fromiso _ = None"

definition matches_label_pattern :: "string \<Rightarrow> string \<Rightarrow> bool" where
  "matches_label_pattern pattern label =
     (if pattern = ''*'' then True
      else if ends_with ''.*'' pattern then
        (let stem = take (length pattern - 2) pattern in label = stem \<or> starts_with (stem @ ''.'') label)
      else pattern = label)"

fun find_matching_remote_probe_directives ::
  "(string \<Rightarrow> rat option) \<Rightarrow> RemoteProbeDirective list \<Rightarrow> string \<Rightarrow> string \<Rightarrow> string \<Rightarrow> int \<Rightarrow>
   RemoteProbeDirective list" where
  "find_matching_remote_probe_directives fromiso [] label service environment now_ms = []"
| "find_matching_remote_probe_directives fromiso (d # ds) label service environment now_ms =
     (let rest = find_matching_remote_probe_directives fromiso ds label service environment now_ms in
      if expires_at_ms fromiso (expires_at d) \<le> now_ms then rest
      else if dir_service d \<noteq> ''*'' \<and> dir_service d \<noteq> service then rest
      else if dir_environment d \<noteq> ''*'' \<and> dir_environment d \<noteq> environment then rest
      else if matches_label_pattern (label_pattern d) label then d # rest else rest)"

subsection \<open>Parsing a policy\<close>

fun read_statuses :: "pyval list \<Rightarrow> int list option" where
  "read_statuses [] = Some []"
| "read_statuses (PInt i # xs) =
     (if i < 400 \<or> 499 < i then None else map_option (Cons i) (read_statuses xs))"
| "read_statuses (_ # xs) = None"

definition parse_statuses :: "pyval \<Rightarrow> int list option" where
  "parse_statuses v =
     (case v of
        PNone \<Rightarrow> Some []
      | PList xs \<Rightarrow> if 12 < length xs then None else map_option (\<lambda>s. sort (remdups s)) (read_statuses xs)
      | _ \<Rightarrow> None)"

definition is_valid_path_pattern :: "string \<Rightarrow> bool" where
  "is_valid_path_pattern s =
     (if \<not> starts_with ''/'' s \<or> s = [] \<or> 256 < length s \<or> CHR ''?'' \<in> set s \<or> CHR ''#'' \<in> set s then False
      else CHR ''*'' \<notin> set s \<or> length (takeWhile (\<lambda>c. c \<noteq> CHR ''*'') s) = length s - 1)"

definition HTTP_METHODS :: "string list" where
  "HTTP_METHODS = [''GET'', ''POST'', ''PUT'', ''PATCH'', ''DELETE'', ''HEAD'', ''OPTIONS'']"

fun read_methods :: "pyval list \<Rightarrow> string list \<Rightarrow> string list option" where
  "read_methods [] acc = Some acc"
| "read_methods (v # vs) acc =
     (let m = (case v of PStr s \<Rightarrow> str_upper s | _ \<Rightarrow> []) in
      if m \<notin> set HTTP_METHODS then None
      else read_methods vs (if m \<in> set acc then acc else acc @ [m]))"

fun read_rules :: "pyval list \<Rightarrow> PathRule list option" where
  "read_rules [] = Some []"
| "read_rules (PDict d # items) =
     (case (dgetn d ''status_code'', dgetn d ''path_pattern'', dget_or d ''methods'' (PList [])) of
        (PInt code, PStr pattern, PList raw) \<Rightarrow>
          if code < 400 \<or> 499 < code \<or> \<not> is_valid_path_pattern pattern \<or> 7 < length raw then None
          else (case read_methods raw [] of
              None \<Rightarrow> None
            | Some ms \<Rightarrow> map_option (Cons \<lparr>rule_status = code, path_pattern = pattern, methods = ms\<rparr>)
                (read_rules items))
      | _ \<Rightarrow> None)"
| "read_rules (_ # items) = None"

definition parse_path_rules :: "pyval \<Rightarrow> PathRule list option" where
  "parse_path_rules v =
     (case v of
        PNone \<Rightarrow> Some []
      | PList xs \<Rightarrow> if 25 < length xs then None else read_rules xs
      | _ \<Rightarrow> None)"

definition option_in :: "string option \<Rightarrow> string list \<Rightarrow> bool" where
  "option_in x xs \<longleftrightarrow> (case x of None \<Rightarrow> False | Some s \<Rightarrow> s \<in> set xs)"

definition parse_capture_policy :: "pyval \<Rightarrow> CapturePolicy option" where
  "parse_capture_policy v =
     (case v of
        PNone \<Rightarrow> Some BALANCED_CAPTURE_POLICY
      | PDict d \<Rightarrow>
          (let chosen = (case as_non_empty_string (dgetn d ''preset'') of
                 None \<Rightarrow> preset BALANCED_CAPTURE_POLICY | Some s \<Rightarrow> s);
               logs = as_non_empty_string (dgetn d ''capture_logs'');
               requests = as_non_empty_string (dgetn d ''capture_request_events'');
               breadcrumbs = as_non_empty_string (dgetn d ''capture_breadcrumbs'');
               probes = as_non_empty_string (dgetn d ''capture_probe_events'')
           in if \<not> option_in logs [''off'', ''error'', ''warning'', ''info''] then None
              else if \<not> option_in requests [''off'', ''failures_only'', ''filtered'', ''all''] then None
              else if \<not> option_in breadcrumbs [''local_only'', ''exception_only'', ''standalone''] then None
              else if \<not> option_in probes [''buffer_only'', ''standalone_when_activated''] then None
              else (case (parse_statuses (dgetn d ''immediate_client_error_statuses''),
                          parse_path_rules (dgetn d ''immediate_client_error_path_rules'')) of
                  (Some statuses, Some rules) \<Rightarrow>
                    (case dget_or d ''capture_diagnostic_context'' (PBool True) of
                       PBool wanted \<Rightarrow>
                         Some \<lparr>preset = chosen, capture_logs = the logs, capture_request_events = the requests,
                           capture_breadcrumbs = the breadcrumbs, capture_probe_events = the probes,
                           immediate_client_error_statuses = statuses, immediate_client_error_path_rules = rules,
                           capture_diagnostic_context = (chosen \<noteq> ''minimal'' \<and> wanted)\<rparr>
                     | _ \<Rightarrow> None)
                | _ \<Rightarrow> None))
      | _ \<Rightarrow> None)"

text \<open>
  \<open>parse_remote_config\<close>. \<open>int()\<close> of an infinite or undefined poll interval raises: the outer None.
  A bool is an int in Python, so \<open>True\<close> is a poll interval of one millisecond.
\<close>

definition poll_candidate :: "pyval \<Rightarrow> int \<Rightarrow> int option" where
  "poll_candidate v fallback =
     (case v of
        PInt i \<Rightarrow> Some (if 0 < i then i else fallback)
      | PBool b \<Rightarrow> Some (if b then 1 else fallback)
      | PFloat (Fin q) \<Rightarrow> Some (if 0 < trunc_rat q then trunc_rat q else fallback)
      | PFloat _ \<Rightarrow> None
      | _ \<Rightarrow> Some fallback)"

fun active_directives :: "(string \<Rightarrow> rat option) \<Rightarrow> int \<Rightarrow> pyval list \<Rightarrow> RemoteProbeDirective list" where
  "active_directives fromiso now_ms [] = []"
| "active_directives fromiso now_ms (v # vs) =
     (case parse_directive fromiso v of
        None \<Rightarrow> active_directives fromiso now_ms vs
      | Some d \<Rightarrow> if now_ms < expires_at_ms fromiso (expires_at d) then d # active_directives fromiso now_ms vs
                  else active_directives fromiso now_ms vs)"

definition parse_remote_config ::
  "(string \<Rightarrow> rat option) \<Rightarrow> pyval \<Rightarrow> int \<Rightarrow> int \<Rightarrow> RemoteConfigSnapshot option option" where
  "parse_remote_config fromiso payload fallback now_ms =
     (case payload of
        PDict d \<Rightarrow>
          (case poll_candidate (dgetn d ''poll_interval_ms'') fallback of
             None \<Rightarrow> None
           | Some interval \<Rightarrow>
               let remote = (dgetn d ''remote_probes_enabled'' = PBool True);
                   active = (case dgetn d ''active_probes'' of PList xs \<Rightarrow> active_directives fromiso now_ms xs | _ \<Rightarrow> [])
               in Some (case parse_capture_policy (dgetn d ''capture_policy'') of
                    None \<Rightarrow> None
                  | Some policy \<Rightarrow> Some \<lparr>probes_enabled = (dgetn d ''probes_enabled'' = PBool True),
                      remote_probes_enabled = remote, directives = active,
                      poll_interval_ms = (if remote then interval else DEFAULT_PROBES_POLL_INTERVAL_MS),
                      capture_policy = policy,
                      trigger_token_key = as_non_empty_string (dgetn d ''trigger_token_key'')\<rparr>))
      | _ \<Rightarrow> Some None)"

subsection \<open>Log levels\<close>

definition DEFAULT_LOG_LEVEL :: string where "DEFAULT_LOG_LEVEL = ''warning''"

definition LEVEL_RANKS :: "(string \<times> int) list" where
  "LEVEL_RANKS = [(''debug'', 10), (''info'', 20), (''warning'', 30), (''error'', 40), (''critical'', 50)]"

definition normalize_level :: "string \<Rightarrow> string" where
  "normalize_level level =
     (let n = str_strip (str_lower level) in if map_of LEVEL_RANKS n \<noteq> None then n else DEFAULT_LOG_LEVEL)"

definition level_enabled :: "string \<Rightarrow> string \<Rightarrow> bool option" where
  "level_enabled candidate threshold =
     (case (map_of LEVEL_RANKS candidate, map_of LEVEL_RANKS threshold) of
        (Some a, Some b) \<Rightarrow> Some (b \<le> a) | _ \<Rightarrow> None)"

definition effective_log_threshold :: "string \<Rightarrow> CapturePolicy \<Rightarrow> string option" where
  "effective_log_threshold log_level policy =
     (case (map_of LEVEL_RANKS log_level, map_of LEVEL_RANKS (capture_logs policy)) of
        (Some a, Some b) \<Rightarrow> Some (if b \<le> a then log_level else capture_logs policy) | _ \<Rightarrow> None)"

definition log_level_eligible :: "bool \<Rightarrow> string \<Rightarrow> CapturePolicy \<Rightarrow> string \<Rightarrow> bool option" where
  "log_level_eligible enabled log_level policy level =
     (if \<not> enabled \<or> capture_logs policy = ''off'' then Some False
      else (case effective_log_threshold log_level policy of
          None \<Rightarrow> None | Some t \<Rightarrow> level_enabled (normalize_level level) t))"

subsection \<open>Request statuses\<close>

definition BALANCED_IMMEDIATE_REQUEST_STATUSES :: "int list" where
  "BALANCED_IMMEDIATE_REQUEST_STATUSES = [408, 423, 424, 425, 429]"

definition INVESTIGATIVE_IMMEDIATE_REQUEST_STATUSES :: "int list" where
  "INVESTIGATIVE_IMMEDIATE_REQUEST_STATUSES = BALANCED_IMMEDIATE_REQUEST_STATUSES @ [409]"

text \<open>
  The path \<open>urllib.parse.urlparse\<close> reads from a URL: leading controls and tabs and line breaks go, a
  scheme and an authority are cut off, then fragment, query and the parameters of the last segment.
\<close>

definition is_alpha :: "char \<Rightarrow> bool" where
  "is_alpha c \<longleftrightarrow> (let n = ord_of c in (65 \<le> n \<and> n \<le> 90) \<or> (97 \<le> n \<and> n \<le> 122))"

definition split_scheme :: "string \<Rightarrow> string \<times> string" where
  "split_scheme s =
     (let (a, found, b) = partition_at CHR '':'' s in
      if found \<and> a \<noteq> [] \<and> is_alpha (hd a) \<and> list_all (\<lambda>c. is_alpha c \<or> is_digit c \<or> c \<in> set ''+-.'') a
      then (str_lower a, b) else ([], s))"

definition uses_params :: "string list" where
  "uses_params = ['''', ''ftp'', ''hdl'', ''prospero'', ''http'', ''https'', ''shttp'', ''rtsp'', ''rtsps'',
     ''rtspu'', ''sip'', ''sips'', ''mms'', ''sftp'', ''tel'']"

definition drop_params :: "string \<Rightarrow> string" where
  "drop_params p =
     (let (before, found, final) = rpartition_at CHR ''/'' p;
          cut = fst (partition_at CHR '';'' final)
      in if found then before @ ''/'' @ cut else cut)"

definition urlparse_path :: "(string \<Rightarrow> bool) \<Rightarrow> string \<Rightarrow> string option" where
  "urlparse_path br value =
     (let s = filter (\<lambda>c. c \<notin> {CHR 0x09, CHR 0x0A, CHR 0x0D}) (dropWhile (\<lambda>c. ord_of c \<le> 32) value);
          (scheme, rest) = split_scheme s;
          netloc = (if starts_with ''//'' rest then takeWhile (\<lambda>c. c \<notin> set ''/?#'') (drop 2 rest) else []);
          rest = (if starts_with ''//'' rest then drop (length netloc + 2) rest else rest)
      in if (CHR ''['' \<in> set netloc) \<noteq> (CHR '']'' \<in> set netloc) \<or> (CHR ''['' \<in> set netloc \<and> \<not> br netloc) then None
         else
           let p = takeWhile (\<lambda>c. c \<noteq> CHR ''?'' \<and> c \<noteq> CHR ''#'') rest
           in Some (if scheme \<in> set uses_params then drop_params p else p))"

definition normalize_request_path :: "(string \<Rightarrow> bool) \<Rightarrow> string \<Rightarrow> string option" where
  "normalize_request_path br value =
     map_option (\<lambda>p. if p \<noteq> [] then p
       else if starts_with ''/'' value
         then fst (partition_at CHR ''#'' (fst (partition_at CHR ''?'' value)))
       else ''/'') (urlparse_path br value)"

fun rule_matches :: "int \<Rightarrow> string \<Rightarrow> string option \<Rightarrow> PathRule \<Rightarrow> bool" where
  "rule_matches code path meth rule =
     (rule_status rule = code
      \<and> (methods rule = [] \<or> (case meth of None \<Rightarrow> False | Some m \<Rightarrow> m \<in> set (methods rule)))
      \<and> (if ends_with ''*'' (path_pattern rule) then starts_with (butlast (path_pattern rule)) path
         else path = path_pattern rule))"

definition matches_path_rule ::
  "(string \<Rightarrow> bool) \<Rightarrow> int \<Rightarrow> string option \<Rightarrow> string option \<Rightarrow> PathRule list \<Rightarrow> bool option" where
  "matches_path_rule br code path meth rules =
     (if code < 400 \<or> 499 < code then Some False
      else (case path of
          None \<Rightarrow> Some False
        | Some p \<Rightarrow> map_option (\<lambda>q. list_ex (rule_matches code q (map_option str_upper meth)) rules)
            (normalize_request_path br p)))"

definition is_immediate_request_incident_status ::
  "(string \<Rightarrow> bool) \<Rightarrow> int option \<Rightarrow> string \<Rightarrow> int list \<Rightarrow> string option \<Rightarrow> string option \<Rightarrow> PathRule list \<Rightarrow>
   bool option" where
  "is_immediate_request_incident_status br status chosen statuses path meth rules =
     (case status of
        None \<Rightarrow> Some False
      | Some code \<Rightarrow>
          if 500 \<le> code then Some True
          else if code \<in> set statuses then Some True
          else (case matches_path_rule br code path meth rules of
              None \<Rightarrow> None
            | Some True \<Rightarrow> Some True
            | Some False \<Rightarrow>
                Some (if chosen = ''investigative'' then code \<in> set INVESTIGATIVE_IMMEDIATE_REQUEST_STATUSES
                      else if chosen = ''balanced'' then code \<in> set BALANCED_IMMEDIATE_REQUEST_STATUSES
                      else False)))"

text \<open>\<open>isinstance(v, int)\<close> holds of a bool, whose value is 0 or 1.\<close>

fun int_like :: "pyval \<Rightarrow> int option" where
  "int_like (PInt i) = Some i"
| "int_like (PBool b) = Some (if b then 1 else 0)"
| "int_like _ = None"

fun str_like :: "pyval \<Rightarrow> string option" where
  "str_like (PStr s) = Some s"
| "str_like _ = None"

definition should_capture_request_event ::
  "(string \<Rightarrow> bool) \<Rightarrow> CapturePolicy \<Rightarrow> pydict option \<Rightarrow> pydict option \<Rightarrow> bool option" where
  "should_capture_request_event br policy request response =
     (let status = (case response of None \<Rightarrow> None
            | Some r \<Rightarrow> int_like (py_or (dgetn r ''status_code'') (dgetn r ''response_status'')));
          path = (case request of None \<Rightarrow> None
            | Some q \<Rightarrow> str_like (py_or (dgetn q ''path'') (dgetn q ''url'')));
          meth = (case request of None \<Rightarrow> None | Some q \<Rightarrow> str_like (dgetn q ''method''))
      in case is_immediate_request_incident_status br status (preset policy)
              (immediate_client_error_statuses policy) path meth (immediate_client_error_path_rules policy) of
           None \<Rightarrow> None
         | Some True \<Rightarrow> Some True
         | Some False \<Rightarrow>
             Some (if capture_request_events policy = ''off'' then False
                   else if capture_request_events policy = ''all'' then True
                   else (case status of
                       None \<Rightarrow> capture_request_events policy = ''filtered''
                     | Some code \<Rightarrow> capture_request_events policy = ''failures_only'' \<and> 500 \<le> code)))"

end
