(* ===== verification/Policy_Facts.thy ===== *)
theory Policy_Facts
  imports Capture_Policy
begin

text \<open>
  Correctness of the capture policy: a parsed policy is well formed, a parsed configuration holds only
  live directives, label patterns mean what their syntax says, log levels never fail to compare and
  the decision about a request depends on its status as each policy promises.
\<close>

definition rule_ok :: "PathRule \<Rightarrow> bool" where
  "rule_ok r \<longleftrightarrow> 400 \<le> rule_status r \<and> rule_status r \<le> 499 \<and> is_valid_path_pattern (path_pattern r) \<and>
     distinct (methods r) \<and> set (methods r) \<subseteq> set HTTP_METHODS"

definition policy_ok :: "CapturePolicy \<Rightarrow> bool" where
  "policy_ok p \<longleftrightarrow> preset p \<noteq> [] \<and> capture_logs p \<in> {''off'', ''error'', ''warning'', ''info''} \<and>
     capture_request_events p \<in> {''off'', ''failures_only'', ''filtered'', ''all''} \<and>
     capture_breadcrumbs p \<in> {''local_only'', ''exception_only'', ''standalone''} \<and>
     capture_probe_events p \<in> {''buffer_only'', ''standalone_when_activated''} \<and>
     sorted (immediate_client_error_statuses p) \<and> distinct (immediate_client_error_statuses p) \<and>
     set (immediate_client_error_statuses p) \<subseteq> {400..499} \<and> length (immediate_client_error_statuses p) \<le> 12 \<and>
     list_all rule_ok (immediate_client_error_path_rules p) \<and> length (immediate_client_error_path_rules p) \<le> 25 \<and>
     (preset p = ''minimal'' \<longrightarrow> \<not> capture_diagnostic_context p)"

lemma read_statuses_range: "read_statuses xs = Some is \<Longrightarrow> set is \<subseteq> {400..499} \<and> length is = length xs"
  by (induction xs arbitrary: "is" rule: read_statuses.induct) (fastforce split: if_splits)+

lemma parse_statuses_ok:
  "parse_statuses v = Some s \<Longrightarrow> sorted s \<and> distinct s \<and> set s \<subseteq> {400..499} \<and> length s \<le> 12"
  by (auto simp: parse_statuses_def split: pyval.splits if_splits dest!: read_statuses_range)
    (metis length_remdups_leq linorder_not_less order_trans)

lemma read_methods_ok:
  "read_methods vs acc = Some ms \<Longrightarrow> distinct acc \<Longrightarrow> set acc \<subseteq> set HTTP_METHODS \<Longrightarrow>
   distinct ms \<and> set ms \<subseteq> set HTTP_METHODS"
  by (induction vs acc rule: read_methods.induct) (auto simp: Let_def split: if_splits)

lemma read_rules_ok: "read_rules xs = Some rs \<Longrightarrow> list_all rule_ok rs \<and> length rs = length xs"
  by (induction xs arbitrary: rs rule: read_rules.induct)
    (fastforce simp: rule_ok_def dest: read_methods_ok split: pyval.splits option.splits if_splits)+

lemma parse_path_rules_ok: "parse_path_rules v = Some rs \<Longrightarrow> list_all rule_ok rs \<and> length rs \<le> 25"
  by (auto simp: parse_path_rules_def split: pyval.splits if_splits dest: read_rules_ok)

lemma as_non_empty_string_ok: "as_non_empty_string v = Some s \<Longrightarrow> s \<noteq> [] \<and> v = PStr s"
  by (cases v) (auto split: if_splits)

lemma builtin_policies_ok: "policy_ok BALANCED_CAPTURE_POLICY" "policy_ok MINIMAL_CAPTURE_POLICY"
  by (simp_all add: policy_ok_def BALANCED_CAPTURE_POLICY_def MINIMAL_CAPTURE_POLICY_def)

lemma parsed_policy_ok: "parse_capture_policy v = Some p \<Longrightarrow> policy_ok p"
proof (cases v)
  case (PDict d)
  assume p: "parse_capture_policy v = Some p"
  let ?chosen = "case as_non_empty_string (dgetn d ''preset'') of None \<Rightarrow> preset BALANCED_CAPTURE_POLICY | Some s \<Rightarrow> s"
  have chosen: "?chosen \<noteq> []"
    by (auto simp: BALANCED_CAPTURE_POLICY_def dest: as_non_empty_string_ok split: option.splits)
  let ?s = "\<lambda>k. as_non_empty_string (dgetn d k)"
  from p PDict have modes: "option_in (?s ''capture_logs'') [''off'', ''error'', ''warning'', ''info'']"
    "option_in (?s ''capture_request_events'') [''off'', ''failures_only'', ''filtered'', ''all'']"
    "option_in (?s ''capture_breadcrumbs'') [''local_only'', ''exception_only'', ''standalone'']"
    "option_in (?s ''capture_probe_events'') [''buffer_only'', ''standalone_when_activated'']"
    by (simp_all add: parse_capture_policy_def Let_def split: if_splits)
  have "\<exists>statuses rules wanted. parse_statuses (dgetn d ''immediate_client_error_statuses'') = Some statuses \<and>
      parse_path_rules (dgetn d ''immediate_client_error_path_rules'') = Some rules \<and>
      dget_or d ''capture_diagnostic_context'' (PBool True) = PBool wanted"
    using p PDict modes
    by (cases "parse_statuses (dgetn d ''immediate_client_error_statuses'')";
        cases "parse_path_rules (dgetn d ''immediate_client_error_path_rules'')";
        cases "dget_or d ''capture_diagnostic_context'' (PBool True)") (simp_all add: parse_capture_policy_def Let_def)
  then obtain statuses rules wanted where
    l: "parse_statuses (dgetn d ''immediate_client_error_statuses'') = Some statuses"
      "parse_path_rules (dgetn d ''immediate_client_error_path_rules'') = Some rules"
      "dget_or d ''capture_diagnostic_context'' (PBool True) = PBool wanted" by blast
  have eq: "p = \<lparr>preset = ?chosen, capture_logs = the (?s ''capture_logs''),
      capture_request_events = the (?s ''capture_request_events''),
      capture_breadcrumbs = the (?s ''capture_breadcrumbs''), capture_probe_events = the (?s ''capture_probe_events''),
      immediate_client_error_statuses = statuses, immediate_client_error_path_rules = rules,
      capture_diagnostic_context = (?chosen \<noteq> ''minimal'' \<and> wanted)\<rparr>"
    using p PDict modes l by (simp add: parse_capture_policy_def Let_def)
  have the_in: "option_in x xs \<Longrightarrow> the x \<in> set xs" for x xs
    by (auto simp: option_in_def split: option.splits)
  show ?thesis
    using chosen modes [THEN the_in] parse_statuses_ok [OF l(1)] parse_path_rules_ok [OF l(2)]
    unfolding policy_ok_def eq by (simp del: option.case_eq_if)
qed (auto simp: parse_capture_policy_def builtin_policies_ok)

text \<open>
  Every policy the parser accepts is well formed: known modes, at most twelve sorted client error
  statuses and twenty-five path rules with valid patterns and methods, and no diagnostic context under
  the minimal preset. The two built-in policies are well formed too.
\<close>

theorem parse_capture_policy_ok:
  "policy_ok BALANCED_CAPTURE_POLICY \<and> policy_ok MINIMAL_CAPTURE_POLICY \<and>
   (parse_capture_policy v = Some p \<longrightarrow> policy_ok p)"
  using builtin_policies_ok parsed_policy_ok by blast

definition sample_policy :: pyval where
  "sample_policy = PDict [(PStr ''preset'', PStr ''balanced''), (PStr ''capture_logs'', PStr ''info''),
     (PStr ''capture_request_events'', PStr ''filtered''), (PStr ''capture_breadcrumbs'', PStr ''standalone''),
     (PStr ''capture_probe_events'', PStr ''buffer_only''),
     (PStr ''immediate_client_error_statuses'', PList [PInt 429, PInt 404, PInt 429])]"

theorem parse_capture_policy_ok_witness: "policy_ok (the (parse_capture_policy sample_policy))"
proof -
  have "parse_capture_policy sample_policy \<noteq> None"
    by (simp add: sample_policy_def parse_capture_policy_def dgetn_def option_in_def parse_statuses_def
        parse_path_rules_def dget_or_def Let_def)
  then obtain p where "parse_capture_policy sample_policy = Some p" by blast
  with parse_capture_policy_ok [of sample_policy p] show ?thesis by simp
qed

lemma active_directives_live:
  "d \<in> set (active_directives fromiso now_ms vs) \<Longrightarrow>
   now_ms < expires_at_ms fromiso (expires_at d) \<and> label_pattern d \<noteq> [] \<and> dir_service d \<noteq> [] \<and> dir_environment d \<noteq> []"
proof (induction vs)
  case (Cons v vs)
  show ?case
  proof (cases "parse_directive fromiso v")
    case (Some e)
    then have "label_pattern e \<noteq> [] \<and> dir_service e \<noteq> [] \<and> dir_environment e \<noteq> []"
      by (cases v) (auto split: option.splits if_splits dest: as_non_empty_string_ok)
    with Some Cons show ?thesis by (auto split: if_splits)
  qed (use Cons in simp)
qed simp

text \<open>
  A remote configuration that is accepted holds a well-formed policy, only directives that expire
  after the moment of parsing, and a positive poll interval when the configured one is positive.
\<close>

theorem parse_remote_config_ok:
  assumes "parse_remote_config fromiso payload fallback now_ms = Some (Some snapshot)" and "0 < fallback"
  shows "policy_ok (capture_policy snapshot) \<and> 0 < poll_interval_ms snapshot \<and>
    (\<forall>d \<in> set (directives snapshot). now_ms < expires_at_ms fromiso (expires_at d))"
proof -
  have "0 < i" if "poll_candidate v fallback = Some i" for v i
    using that assms(2) by (auto simp: poll_candidate_def split: pyval.splits pyfloat.splits if_splits)
  with assms(1) show ?thesis
    by (auto simp: parse_remote_config_def Let_def DEFAULT_PROBES_POLL_INTERVAL_MS_def
        split: pyval.splits option.splits dest: parsed_policy_ok active_directives_live)
qed

definition sample_config :: pyval where
  "sample_config = PDict [(PStr ''remote_probes_enabled'', PBool True), (PStr ''poll_interval_ms'', PInt 500),
     (PStr ''active_probes'', PList [PDict [(PStr ''id'', PStr ''p''), (PStr ''label_pattern'', PStr ''db.*''),
        (PStr ''service'', PStr ''*''), (PStr ''environment'', PStr ''*''), (PStr ''expires_at'', PStr ''later'')]])]"

theorem parse_remote_config_ok_witness:
  "poll_interval_ms (the (the (parse_remote_config (\<lambda>s. Some 10) sample_config 60000 5))) > 0"
proof -
  have "\<exists>s. parse_remote_config (\<lambda>s. Some 10) sample_config 60000 5 = Some (Some s)"
    by (simp add: sample_config_def parse_remote_config_def poll_candidate_def dgetn_def parse_capture_policy_def)
  then obtain s where s: "parse_remote_config (\<lambda>s. Some 10) sample_config 60000 5 = Some (Some s)" by blast
  with parse_remote_config_ok [OF s] show ?thesis by simp
qed

subsection \<open>Label patterns\<close>

lemma ends_with_append [simp]: "ends_with s (p @ s)"
  by (simp add: ends_with_def)

lemma ends_with_split: "ends_with s p \<Longrightarrow> p = take (length p - length s) p @ s"
  by (simp add: ends_with_def) (metis append_take_drop_id)

lemma starts_with_iff: "starts_with p s \<longleftrightarrow> (\<exists>r. s = p @ r)"
  by (auto simp: starts_with_def) (metis append_take_drop_id)

lemma find_matching_filter:
  "find_matching_remote_probe_directives fromiso ds label service environment now_ms =
   filter (\<lambda>d. now_ms < expires_at_ms fromiso (expires_at d) \<and> dir_service d \<in> {''*'', service} \<and>
     dir_environment d \<in> {''*'', environment} \<and> matches_label_pattern (label_pattern d) label) ds"
  by (induction ds) (auto simp: Let_def)

lemma label_pattern_iff:
  "matches_label_pattern p label \<longleftrightarrow> p = ''*'' \<or> p = label \<or>
     (\<exists>stem rest. p = stem @ ''.*'' \<and> (label = stem \<or> label = stem @ ''.'' @ rest))"
proof (cases "ends_with ''.*'' p")
  case True
  then have p: "p = take (length p - 2) p @ ''.*''" using ends_with_split [OF True] by (simp add: numeral_2_eq_2)
  then obtain stem where stem: "p = stem @ ''.*''" by blast
  have "p \<noteq> ''*''" using stem by (cases stem) auto
  then show ?thesis using True stem by (auto simp: matches_label_pattern_def starts_with_iff)
next
  case False
  then have "\<not> (\<exists>stem. p = stem @ ''.*'')" by auto
  then show ?thesis using False by (auto simp: matches_label_pattern_def)
qed

text \<open>
  The directives found for a probe are exactly the given ones, in order, that have not expired, name
  the service and the environment or any, and whose pattern is the label, \<open>*\<close>, or \<open>stem.*\<close> for a label
  that is the stem or lies below it.
\<close>

theorem directives_found:
  "find_matching_remote_probe_directives fromiso ds label service environment now_ms =
   filter (\<lambda>d. now_ms < expires_at_ms fromiso (expires_at d) \<and> dir_service d \<in> {''*'', service} \<and>
     dir_environment d \<in> {''*'', environment} \<and>
     (label_pattern d = ''*'' \<or> label_pattern d = label \<or>
      (\<exists>stem rest. label_pattern d = stem @ ''.*'' \<and> (label = stem \<or> label = stem @ ''.'' @ rest)))) ds"
  unfolding find_matching_filter label_pattern_iff ..

subsection \<open>Log levels\<close>

definition rank :: "string \<Rightarrow> int" where
  "rank level = (case map_of LEVEL_RANKS level of None \<Rightarrow> 0 | Some r \<Rightarrow> r)"

lemma normalized_level_ranked: "\<exists>r. map_of LEVEL_RANKS (normalize_level l) = Some r"
  by (auto simp: normalize_level_def Let_def LEVEL_RANKS_def DEFAULT_LOG_LEVEL_def)

text \<open>
  The comparison of log levels never raises: under a well-formed policy a log passes exactly when the
  SDK is enabled, logs are not off and its normalised level ranks at least as high as both the
  configured level and the policy's.
\<close>

theorem log_level_decision:
  assumes "policy_ok policy"
  shows "log_level_eligible enabled (normalize_level configured) policy level =
    Some (enabled \<and> capture_logs policy \<noteq> ''off'' \<and> rank (normalize_level configured) \<le> rank (normalize_level level) \<and>
      rank (capture_logs policy) \<le> rank (normalize_level level))"
proof (cases "enabled \<and> capture_logs policy \<noteq> ''off''")
  case True
  with assms obtain q where "map_of LEVEL_RANKS (capture_logs policy) = Some q"
    by (auto simp: policy_ok_def LEVEL_RANKS_def)
  moreover obtain a b where "map_of LEVEL_RANKS (normalize_level configured) = Some a"
    "map_of LEVEL_RANKS (normalize_level level) = Some b" using normalized_level_ranked by metis
  ultimately show ?thesis
    using True by (auto simp: log_level_eligible_def effective_log_threshold_def level_enabled_def rank_def)
qed (auto simp: log_level_eligible_def)

theorem log_level_decision_witness:
  "log_level_eligible True (normalize_level ''Debug'') BALANCED_CAPTURE_POLICY ''info'' = Some False"
proof -
  have "policy_ok BALANCED_CAPTURE_POLICY" by (simp add: policy_ok_def BALANCED_CAPTURE_POLICY_def)
  from log_level_decision [OF this, of True "''Debug''" "''info''"] show ?thesis
    by simp (code_simp)
qed

subsection \<open>Requests\<close>

definition response_status :: "pydict option \<Rightarrow> int option" where
  "response_status response = (case response of None \<Rightarrow> None
     | Some r \<Rightarrow> int_like (py_or (dgetn r ''status_code'') (dgetn r ''response_status'')))"

definition preset_statuses :: "string \<Rightarrow> int set" where
  "preset_statuses chosen = (if chosen = ''investigative'' then {408, 409, 423, 424, 425, 429}
     else if chosen = ''balanced'' then {408, 423, 424, 425, 429} else {})"

lemma preset_decision:
  "(if chosen = ''investigative'' then code \<in> set INVESTIGATIVE_IMMEDIATE_REQUEST_STATUSES
    else if chosen = ''balanced'' then code \<in> set BALANCED_IMMEDIATE_REQUEST_STATUSES else False) \<longleftrightarrow>
   code \<in> preset_statuses chosen"
  by (auto simp: preset_statuses_def INVESTIGATIVE_IMMEDIATE_REQUEST_STATUSES_def BALANCED_IMMEDIATE_REQUEST_STATUSES_def)

lemma preset_statuses_range: "code \<in> preset_statuses chosen \<Longrightarrow> 400 \<le> code \<and> code \<le> 499"
  by (auto simp: preset_statuses_def split: if_splits)

text \<open>
  Under a well-formed policy a request with a server error is always captured and one without any
  error only by the mode \<open>all\<close>; a client error no path rule can match is captured exactly when the
  policy lists its status, its preset does, or the mode is \<open>all\<close>; without a status only \<open>all\<close> and
  \<open>filtered\<close> capture it.
\<close>

theorem request_decision:
  assumes "policy_ok policy"
  shows "case response_status response of
      None \<Rightarrow> should_capture_request_event br policy request response =
        Some (capture_request_events policy \<in> {''all'', ''filtered''})
    | Some code \<Rightarrow>
        (500 \<le> code \<longrightarrow> should_capture_request_event br policy request response = Some True) \<and>
        (code < 400 \<longrightarrow> should_capture_request_event br policy request response =
           Some (capture_request_events policy = ''all'')) \<and>
        (400 \<le> code \<and> code \<le> 499 \<and> immediate_client_error_path_rules policy = [] \<and> request = None \<longrightarrow>
           should_capture_request_event br policy request response =
           Some (code \<in> set (immediate_client_error_statuses policy) \<or> code \<in> preset_statuses (preset policy) \<or>
             capture_request_events policy = ''all''))"
proof (cases "response_status response")
  case None
  then show ?thesis
    using assms by (auto simp: should_capture_request_event_def response_status_def Let_def policy_ok_def
        is_immediate_request_incident_status_def split: option.splits)
next
  case (Some code)
  then have status: "(case response of None \<Rightarrow> None
      | Some r \<Rightarrow> int_like (py_or (dgetn r ''status_code'') (dgetn r ''response_status''))) = Some code"
    by (simp add: response_status_def)
  have range: "set (immediate_client_error_statuses policy) \<subseteq> {400..499}" using assms by (simp add: policy_ok_def)
  show ?thesis
    unfolding Some option.case should_capture_request_event_def status Let_def is_immediate_request_incident_status_def
      preset_decision
    using range preset_statuses_range [of code "preset policy"]
    by (auto simp: matches_path_rule_def split: bool.splits)
qed

theorem request_decision_witness:
  "should_capture_request_event (\<lambda>s. False) BALANCED_CAPTURE_POLICY None
     (Some [(PStr ''status_code'', PInt 503)]) = Some True"
proof -
  have "policy_ok BALANCED_CAPTURE_POLICY" by (simp add: policy_ok_def BALANCED_CAPTURE_POLICY_def)
  from request_decision [OF this, where response = "Some [(PStr ''status_code'', PInt 503)]" and br = "\<lambda>s. False"
      and request = None]
  show ?thesis by (simp add: response_status_def dgetn_def py_or_def)
qed

end
