(* ===== verification/Ingestion_Wire.thy ===== *)
theory Ingestion_Wire
  imports Evidence_Wire
begin

text \<open>
  \<open>ingestion_wire.py\<close> and \<open>transport.py\<close>: sizing of wire bodies, the reduction of an event to the
  ingestion limit, the division of a batch into bodies, the retry hint and the size guard of
  \<open>HttpTransport.send_until\<close>. A raised exception is the left side of a sum. The HTTP client is the
  parameter \<open>network\<close>; \<open>seconds\<close> reads a Retry-After header (a number, or a date relative to now).
\<close>

definition MAX_BODY_BYTES :: nat where "MAX_BODY_BYTES = 256 * 1024"
definition MAX_EVENT_BYTES :: nat where "MAX_EVENT_BYTES = MAX_BODY_BYTES - 13"

datatype wire_error = Unserialisable | EventTooLarge | BodyTooLarge | DeadlineExhausted | NotAMapping

definition encode_body :: "(rat \<Rightarrow> string) \<Rightarrow> pyval list \<Rightarrow> wire_error + string" where
  "encode_body fr events =
     (case json_val False False fr (PDict [(PStr ''events'', PList events)]) of
        None \<Rightarrow> Inl Unserialisable | Some t \<Rightarrow> Inr t)"

definition event_bytes :: "(rat \<Rightarrow> string) \<Rightarrow> pyval \<Rightarrow> wire_error + nat" where
  "event_bytes fr event =
     (case json_bytes False False fr event of None \<Rightarrow> Inl Unserialisable | Some n \<Rightarrow> Inr n)"

subsection \<open>Fitting one event\<close>

text \<open>The last attempts of \<open>fit_event\<close>: dropping the reference from the context.\<close>

definition fit_without_reference :: "(rat \<Rightarrow> string) \<Rightarrow> pydict \<Rightarrow> wire_error + pyval option" where
  "fit_without_reference fr reduced =
     (case dgetn reduced ''context'' of
        PDict context \<Rightarrow>
          if reference (dgetn context ''evidence_reference'') = None then Inr None
          else
            let smaller = PDict (dput ''context'' (PDict (without_keys [''evidence_reference''] context)) reduced)
            in (case event_bytes fr smaller of
                  Inl e \<Rightarrow> Inl e
                | Inr n \<Rightarrow> Inr (if n \<le> MAX_EVENT_BYTES then Some smaller else None))
      | _ \<Rightarrow> Inr None)"

definition limits_note :: "pydict \<Rightarrow> pydict" where
  "limits_note payload = (PStr ''version'', PInt 1) #
     map (\<lambda>f. (PStr f, PStr ''budget_exceeded'')) (filter (\<lambda>f. has_key f payload) optional_fields)"

definition payload_of :: "pydict \<Rightarrow> pydict" where
  "payload_of e = (case dgetn e ''payload'' of PDict p \<Rightarrow> p | _ \<Rightarrow> [])"

text \<open>
  The attempts after evidence was removed; \<open>{**event.get("context", {})}\<close> raises TypeError when the
  context is there and no mapping.
\<close>

definition fit_reduced :: "(rat \<Rightarrow> string) \<Rightarrow> pydict \<Rightarrow> pydict \<Rightarrow> wire_error + pyval option" where
  "fit_reduced fr event reduced =
     (case dget_or event ''context'' (PDict []) of
        PDict context \<Rightarrow>
          let marked = PDict (dput ''context''
            (PDict (dput ''evidence_limits'' (PDict (limits_note (payload_of event))) context)) reduced)
          in (case event_bytes fr marked of
                Inl e \<Rightarrow> Inl e
              | Inr n \<Rightarrow>
                  if n \<le> MAX_EVENT_BYTES then Inr (Some marked)
                  else (case event_bytes fr (PDict reduced) of
                      Inl e \<Rightarrow> Inl e
                    | Inr m \<Rightarrow> if m \<le> MAX_EVENT_BYTES then Inr (Some (PDict reduced))
                               else fit_without_reference fr reduced))
      | _ \<Rightarrow> Inl NotAMapping)"

definition fit_event :: "(rat \<Rightarrow> string) \<Rightarrow> pydict option \<Rightarrow> wire_error + pyval option" where
  "fit_event fr event =
     (case event of
        None \<Rightarrow> Inr None
      | Some e \<Rightarrow>
          (case event_bytes fr (PDict e) of
             Inl er \<Rightarrow> Inl er
           | Inr n \<Rightarrow>
               if n \<le> MAX_EVENT_BYTES then Inr (Some (PDict e))
               else (case without_optional (PDict e) of
                   Some (PDict reduced) \<Rightarrow> fit_reduced fr e reduced
                 | _ \<Rightarrow> fit_without_reference fr e)))"

subsection \<open>Dividing a batch\<close>

text \<open>
  The loop of \<open>prefix\<close>, with its running index and size: how many events the body takes. The code
  starts the size at 12.
\<close>

fun prefix_loop :: "(rat \<Rightarrow> string) \<Rightarrow> pyval list \<Rightarrow> nat \<Rightarrow> nat \<Rightarrow> wire_error + nat" where
  "prefix_loop fr [] index bytes = Inr index"
| "prefix_loop fr (event # events) index bytes =
     (case event_bytes fr event of
        Inl e \<Rightarrow> Inl e
      | Inr n \<Rightarrow>
          let cost = n + (if index \<noteq> 0 then 1 else 0) in
          if MAX_EVENT_BYTES < n then Inl EventTooLarge
          else if MAX_BODY_BYTES < bytes + cost then Inr index
          else prefix_loop fr events (Suc index) (bytes + cost))"

definition wire_prefix :: "(rat \<Rightarrow> string) \<Rightarrow> pyval list \<Rightarrow> wire_error + pyval list" where
  "wire_prefix fr events = (case prefix_loop fr events 0 12 of Inl e \<Rightarrow> Inl e | Inr n \<Rightarrow> Inr (take n events))"

function chunks :: "(rat \<Rightarrow> string) \<Rightarrow> pyval list \<Rightarrow> wire_error + pyval list list" where
  "chunks fr events =
     (if events = [] then Inr []
      else (case wire_prefix fr events of
          Inl e \<Rightarrow> Inl e
        | Inr selected \<Rightarrow>
            if selected = [] then Inl EventTooLarge
            else (case chunks fr (drop (length selected) events) of
                Inl e \<Rightarrow> Inl e
              | Inr rest \<Rightarrow> Inr (selected # rest))))"
  by pat_completeness auto
termination by (relation "measure (\<lambda>(fr, events). length events)") auto

declare chunks.simps [simp del]

subsection \<open>Transport\<close>

definition MAX_RETRY_AFTER_MS :: int where "MAX_RETRY_AFTER_MS = 300000"

definition bounded_retry_after_ms :: "pyval \<Rightarrow> int \<Rightarrow> int" where
  "bounded_retry_after_ms v dflt =
     (case v of
        PInt i \<Rightarrow> min MAX_RETRY_AFTER_MS (max 0 i)
      | PFloat (Fin q) \<Rightarrow> \<lfloor>min (of_int MAX_RETRY_AFTER_MS) (max 0 q)\<rfloor>
      | _ \<Rightarrow> dflt)"

definition parse_retry_after :: "(string \<Rightarrow> pyfloat option) \<Rightarrow> string option \<Rightarrow> int option" where
  "parse_retry_after seconds header =
     (case header of
        None \<Rightarrow> None
      | Some h \<Rightarrow> (case seconds h of
            Some (Fin q) \<Rightarrow> Some (bounded_retry_after_ms (PFloat (Fin (min 300 (max 0 q) * 1000))) 1000)
          | _ \<Rightarrow> None))"

record TransportResponse =
  status_code :: int
  retry_after_ms :: pyval
  body :: pyval

definition send_until ::
  "(rat \<Rightarrow> string) \<Rightarrow> (string \<Rightarrow> pyfloat option) \<Rightarrow> (string \<Rightarrow> rat \<Rightarrow> wire_error + int \<times> string option \<times> pyval) \<Rightarrow>
   rat \<Rightarrow> rat \<Rightarrow> pyval list \<Rightarrow> wire_error + TransportResponse" where
  "send_until fr seconds network now deadline events =
     (let remaining = min 5 (deadline - now) in
      if remaining \<le> 0 then Inl DeadlineExhausted
      else (case encode_body fr events of
          Inl e \<Rightarrow> Inl e
        | Inr text \<Rightarrow>
            if MAX_BODY_BYTES < utf8_len text then Inl BodyTooLarge
            else (case network text remaining of
                Inl e \<Rightarrow> Inl e
              | Inr (status, header, answer) \<Rightarrow>
                  Inr \<lparr>status_code = status,
                       retry_after_ms = (case parse_retry_after seconds header of None \<Rightarrow> PNone | Some ms \<Rightarrow> PInt ms),
                       body = answer\<rparr>)))"

end
