(* ===== verification/Diagnostic_Budget.thy ===== *)
theory Diagnostic_Budget
  imports Json "HOL-Library.List_Lexorder" "HOL-Library.Char_ord"
begin

text \<open>
  \<open>diagnostic_budget.py\<close>: the 64 KiB account of windows and pending diagnostic payloads of one
  destination. Payloads are the dictionaries \<open>evidence_wire.diagnostic\<close> and \<open>reference\<close> accepted, so
  the keys the code subscripts are there and serialise. \<open>fr\<close> is the float representation; times are
  in milliseconds.
\<close>

record Window =
  starts :: rat
  failure_at :: "rat option"
  failure_id :: "string option"
  attempts :: "string list"
  observations :: nat
  resource :: bool
  ambiguous :: bool
  w_pending :: int
  w_cost :: int

record Pending =
  p_scope :: string
  p_kind :: pyval
  p_attempt :: "pyval"
  p_size :: int
  p_cost :: int

record budget =
  windows :: "(string \<times> Window) list"
  pending :: "(string \<times> Pending) list"
  held :: int

definition new_window :: "rat \<Rightarrow> Window" where
  "new_window t = \<lparr>starts = t, failure_at = None, failure_id = None, attempts = [], observations = 0,
     resource = False, ambiguous = False, w_pending = 0, w_cost = 0\<rparr>"

definition empty_budget :: budget where
  "empty_budget = \<lparr>windows = [], pending = [], held = 0\<rparr>"

text \<open>\<open>json.dumps(..., sort_keys=True)\<close> on the reference and its flat scope.\<close>

definition key_text :: "pyval \<Rightarrow> string" where
  "key_text k = (case k of PStr s \<Rightarrow> s | _ \<Rightarrow> [])"

definition sort_keys :: "pyval \<Rightarrow> pyval" where
  "sort_keys v = (case v of PDict d \<Rightarrow> PDict (sort_key (\<lambda>(k, _). key_text k) d) | _ \<Rightarrow> v)"

definition dumps :: "(rat \<Rightarrow> string) \<Rightarrow> pyval \<Rightarrow> string" where
  "dumps fr v = (case json_val True True fr v of Some t \<Rightarrow> t | None \<Rightarrow> [])"

definition key_of :: "(rat \<Rightarrow> string) \<Rightarrow> pydict \<Rightarrow> string" where
  "key_of fr payload = dumps fr (PList [dgetn payload ''failure_ref'', sort_keys (dgetn payload ''scope'')])"

definition opt_val :: "('a \<Rightarrow> pyval) \<Rightarrow> 'a option \<Rightarrow> pyval" where
  "opt_val f x = (case x of None \<Rightarrow> PNone | Some a \<Rightarrow> f a)"

definition cost_of :: "(rat \<Rightarrow> string) \<Rightarrow> string \<Rightarrow> Window \<Rightarrow> int" where
  "cost_of fr key w = int (utf8_len (dumps fr (PList
     [PStr key, PFloat (Fin (starts w)), opt_val (\<lambda>t. PFloat (Fin t)) (failure_at w), opt_val PStr (failure_id w),
      PList (map PStr (sort (attempts w))), PInt (int (observations w)), PBool (resource w), PBool (ambiguous w),
      PInt (w_pending w)])))"

definition size_ok :: "int \<Rightarrow> bool" where
  "size_ok n \<longleftrightarrow> 0 \<le> n \<and> n \<le> 65536"

definition accounted_bytes :: "budget \<Rightarrow> int" where
  "accounted_bytes b = held b + total w_cost (windows b)"

definition recost :: "(rat \<Rightarrow> string) \<Rightarrow> string \<Rightarrow> Window \<Rightarrow> Window" where
  "recost fr key w = w\<lparr>w_cost := cost_of fr key w\<rparr>"

definition put_window :: "string \<Rightarrow> Window \<Rightarrow> budget \<Rightarrow> budget" where
  "put_window key w b = b\<lparr>windows := AList.update key w (windows b)\<rparr>"

definition cost_before :: "Window option \<Rightarrow> int" where
  "cost_before w = (case w of None \<Rightarrow> 0 | Some v \<Rightarrow> w_cost v)"

definition prune :: "rat \<Rightarrow> budget \<Rightarrow> budget" where
  "prune now b = b\<lparr>windows := filter (\<lambda>(k, w). w_pending w \<noteq> 0 \<or> now < starts w + 300000) (windows b)\<rparr>"

definition register_failure ::
  "(rat \<Rightarrow> string) \<Rightarrow> pydict \<Rightarrow> string \<Rightarrow> pyfloat \<Rightarrow> budget \<Rightarrow> bool \<times> budget" where
  "register_failure fr payload event_id clock b0 =
     (case clock of
        Fin now \<Rightarrow>
          (let b = prune now b0; key = key_of fr payload; previous = map_of (windows b) key in
           if (case previous of None \<Rightarrow> False | Some p \<Rightarrow> failure_id p \<noteq> None \<and> failure_id p \<noteq> Some event_id)
           then (False, put_window key (recost fr key ((the previous)\<lparr>ambiguous := True\<rparr>)) b)
           else if previous = None \<and> 50 \<le> length (windows b) then (False, b)
           else
             let v = (case previous of None \<Rightarrow> new_window now | Some p \<Rightarrow> p);
                 v = v\<lparr>failure_id := Some event_id,
                       failure_at := (case failure_at v of None \<Rightarrow> Some now | Some t \<Rightarrow> Some t)\<rparr>;
                 v = recost fr key v
             in if 65536 < accounted_bytes b - cost_before previous + w_cost v then (False, b)
                else (\<not> ambiguous v, put_window key v b))
      | _ \<Rightarrow> (False, b0))"

text \<open>The admission of one observation into a window: \<open>None\<close> is a \<open>return False\<close>.\<close>

definition admit :: "pydict \<Rightarrow> rat \<Rightarrow> Window \<Rightarrow> Window option" where
  "admit payload now v =
     (if now < starts v \<or> (case failure_at v of None \<Rightarrow> starts v | Some t \<Rightarrow> t) + 300000 < now
         \<or> 20 \<le> observations v then None
      else
        (let v1 = (case dgetn payload ''kind'' of
             PStr kind \<Rightarrow>
               if kind = ''recovery'' then
                 (case dgetn payload ''attempt_id'' of
                    PStr attempt \<Rightarrow>
                      if attempt \<notin> set (attempts v) \<and> 5 \<le> length (attempts v) then None
                      else Some (v\<lparr>attempts := List.insert attempt (attempts v)\<rparr>)
                  | _ \<Rightarrow> None)
               else
                 (if resource v \<or> opt_val PStr (failure_id v) \<noteq> dgetn payload ''source_event_id''
                     \<or> (case failure_at v of None \<Rightarrow> True | Some t \<Rightarrow> t + 30000 < now) then None
                  else Some (v\<lparr>resource := True\<rparr>))
           | _ \<Rightarrow> None)
         in map_option (\<lambda>v. v\<lparr>w_pending := w_pending v + 1, observations := observations v + 1\<rparr>) v1))"

definition is_recovery :: "pydict \<Rightarrow> bool" where
  "is_recovery payload \<longleftrightarrow> dgetn payload ''kind'' = PStr ''recovery''"

definition reserve ::
  "(rat \<Rightarrow> string) \<Rightarrow> string \<Rightarrow> pydict \<Rightarrow> int \<Rightarrow> pyfloat \<Rightarrow> budget \<Rightarrow> bool \<times> budget" where
  "reserve fr event_id payload bytes clock b0 =
     (case clock of
        Fin now \<Rightarrow>
          if \<not> size_ok bytes \<or> map_of (pending b0) event_id \<noteq> None then (False, b0)
          else
            let b = prune now b0; key = key_of fr payload; previous = map_of (windows b) key in
            if (previous = None \<and> 50 \<le> length (windows b))
               \<or> (case previous of None \<Rightarrow> False | Some p \<Rightarrow> ambiguous p) then (False, b)
            else (case admit payload now (case previous of None \<Rightarrow> new_window now | Some p \<Rightarrow> p) of
                None \<Rightarrow> (False, b)
              | Some v1 \<Rightarrow>
                  let v = recost fr key v1;
                      cost = bytes + int (length event_id) + int (length key) + 64;
                      attempt = (if is_recovery payload then dgetn payload ''attempt_id'' else PNone)
                  in if 65536 < accounted_bytes b - cost_before previous + w_cost v + cost then (False, b)
                     else (True, (put_window key v b)\<lparr>
                         pending := AList.update event_id
                           \<lparr>p_scope = key, p_kind = dgetn payload ''kind'', p_attempt = attempt,
                            p_size = bytes, p_cost = cost\<rparr> (pending b),
                         held := held b + cost\<rparr>))
      | _ \<Rightarrow> (False, b0))"

definition adjust :: "string \<Rightarrow> int \<Rightarrow> budget \<Rightarrow> bool \<times> budget" where
  "adjust event_id bytes b =
     (case map_of (pending b) event_id of
        None \<Rightarrow> (False, b)
      | Some e \<Rightarrow>
          if \<not> size_ok bytes \<or> 65536 < accounted_bytes b + bytes - p_size e then (False, b)
          else (True, b\<lparr>held := held b + (bytes - p_size e),
            pending := AList.update event_id
              (e\<lparr>p_cost := p_cost e + (bytes - p_size e), p_size := bytes\<rparr>) (pending b)\<rparr>))"

definition eligible :: "(rat \<Rightarrow> string) \<Rightarrow> string \<Rightarrow> pydict \<Rightarrow> budget \<Rightarrow> bool" where
  "eligible fr event_id payload b =
     (case (map_of (pending b) event_id, map_of (windows b) (key_of fr payload)) of
        (Some e, Some w) \<Rightarrow> p_scope e = key_of fr payload \<and> \<not> ambiguous w
          \<and> (is_recovery payload \<or> opt_val PStr (failure_id w) = dgetn payload ''source_event_id'')
      | _ \<Rightarrow> False)"

definition release_one :: "(rat \<Rightarrow> string) \<Rightarrow> string \<Rightarrow> budget \<Rightarrow> budget" where
  "release_one fr event_id b =
     (case map_of (pending b) event_id of
        None \<Rightarrow> b
      | Some e \<Rightarrow>
          let b1 = b\<lparr>pending := AList.delete event_id (pending b), held := held b - p_cost e\<rparr> in
          (case map_of (windows b1) (p_scope e) of
             None \<Rightarrow> b1
           | Some w \<Rightarrow> put_window (p_scope e)
               (recost fr (p_scope e) (w\<lparr>w_pending := max 0 (w_pending w - 1)\<rparr>)) b1))"

fun release :: "(rat \<Rightarrow> string) \<Rightarrow> string list \<Rightarrow> budget \<Rightarrow> budget" where
  "release fr [] b = b"
| "release fr (i # ids) b = release fr ids (release_one fr i b)"

definition retain :: "(rat \<Rightarrow> string) \<Rightarrow> string list \<Rightarrow> budget \<Rightarrow> budget" where
  "retain fr ids b = release fr (filter (\<lambda>i. i \<notin> set ids) (map fst (pending b))) b"

definition rename_entry :: "string \<Rightarrow> string \<Rightarrow> budget \<Rightarrow> budget" where
  "rename_entry old new b =
     (case map_of (pending b) old of
        None \<Rightarrow> b
      | Some e \<Rightarrow>
          (let delta = int (length new) - int (length old) in
           b\<lparr>pending := AList.update new (e\<lparr>p_cost := p_cost e + delta\<rparr>) (AList.delete old (pending b)),
             held := held b + delta\<rparr>))"

definition replace_entry ::
  "(rat \<Rightarrow> string) \<Rightarrow> string \<Rightarrow> string \<Rightarrow> pydict \<Rightarrow> int \<Rightarrow> pyfloat \<Rightarrow> budget \<Rightarrow> bool \<times> budget" where
  "replace_entry fr original_id event_id payload bytes clock b =
     (if (case map_of (pending b) original_id of
            None \<Rightarrow> False
          | Some e \<Rightarrow> p_scope e = key_of fr payload \<and> p_kind e = dgetn payload ''kind''
              \<and> p_attempt e = dgetn payload ''attempt_id'')
      then
        (if event_id \<noteq> original_id \<and> map_of (pending b) event_id \<noteq> None
         then (False, release fr [original_id] b)
         else
           let b1 = (if event_id \<noteq> original_id then rename_entry original_id event_id b else b);
               (ok, b2) = adjust event_id bytes b1
           in if \<not> ok \<or> \<not> eligible fr event_id payload b2 then (False, release fr [event_id] b2)
              else (True, b2))
      else reserve fr event_id payload bytes clock (release fr [original_id] b))"

end
