(* ===== verification/Suppression.thy ===== *)
theory Suppression
  imports PyValues
begin

text \<open>
  \<open>suppression.py\<close>: duplicate and loop suppression of captured events. Clock readings are exact
  rationals, \<open>h\<close> is the SHA-256 hex digest of a key and \<open>to_iso\<close> the formatting of a time. The ordered
  dictionary of the tracker is an association list, least recently used first; a change to a state
  object is a change of its entry.
\<close>

definition DUPLICATE_WINDOW_SECONDS :: rat where "DUPLICATE_WINDOW_SECONDS = 30"
definition LOOP_WINDOW_SECONDS :: rat where "LOOP_WINDOW_SECONDS = 2"
definition LOOP_THRESHOLD :: nat where "LOOP_THRESHOLD = 10"
definition LOOP_RESET_AFTER_SECONDS :: rat where "LOOP_RESET_AFTER_SECONDS = 60"
definition LOOP_CHECKPOINT_SECONDS :: rat where "LOOP_CHECKPOINT_SECONDS = 30"
definition MAX_NORMAL_EVENTS_PER_WINDOW :: nat where "MAX_NORMAL_EVENTS_PER_WINDOW = 3"
definition MAX_TRACKED_FINGERPRINTS :: nat where "MAX_TRACKED_FINGERPRINTS = 2048"

lemmas suppression_limits = DUPLICATE_WINDOW_SECONDS_def LOOP_WINDOW_SECONDS_def LOOP_THRESHOLD_def
  LOOP_RESET_AFTER_SECONDS_def LOOP_CHECKPOINT_SECONDS_def MAX_NORMAL_EVENTS_PER_WINDOW_def
  MAX_TRACKED_FINGERPRINTS_def

record SuppressionState =
  window_started_at :: rat
  emitted_count :: nat
  pending_suppressed_count :: nat
  pending_first_seen_at :: "rat option"
  pending_last_seen_at :: "rat option"
  last_aggregate_emitted_at :: "rat option"
  loop_window_started_at :: rat
  loop_hit_count :: nat
  suppression_mode :: bool
  last_seen_at :: rat

type_synonym tracker = "(string \<times> SuppressionState) list"

definition fresh_state :: "rat \<Rightarrow> SuppressionState" where
  "fresh_state now = \<lparr>window_started_at = now, emitted_count = 0, pending_suppressed_count = 0,
     pending_first_seen_at = None, pending_last_seen_at = None, last_aggregate_emitted_at = None,
     loop_window_started_at = now, loop_hit_count = 0, suppression_mode = False, last_seen_at = now\<rparr>"

definition mark_suppressed :: "rat \<Rightarrow> SuppressionState \<Rightarrow> SuppressionState" where
  "mark_suppressed now s =
     (let s1 = (if pending_suppressed_count s = 0
                then s\<lparr>pending_first_seen_at := Some (window_started_at s)\<rparr> else s)
      in s1\<lparr>pending_suppressed_count := pending_suppressed_count s1 + 1, pending_last_seen_at := Some now\<rparr>)"

text \<open>The lookup of \<open>should_capture\<close>: create with eviction of the oldest, or move to the end.\<close>

definition lookup_state :: "string \<Rightarrow> rat \<Rightarrow> tracker \<Rightarrow> SuppressionState \<times> tracker" where
  "lookup_state fp now st =
     (case map_of st fp of
        None \<Rightarrow>
          (let st1 = (if MAX_TRACKED_FINGERPRINTS \<le> length st then tl st else st)
           in (fresh_state now, st1 @ [(fp, fresh_state now)]))
      | Some s \<Rightarrow> (s, AList.delete fp st @ [(fp, s)]))"

text \<open>The rest of \<open>should_capture\<close>: what happens to the state of the fingerprint.\<close>

definition reset_state :: "rat \<Rightarrow> SuppressionState \<Rightarrow> SuppressionState" where
  "reset_state now s =
     (if suppression_mode s \<and> LOOP_RESET_AFTER_SECONDS \<le> now - last_seen_at s then fresh_state now else s)"

definition roll_windows :: "rat \<Rightarrow> SuppressionState \<Rightarrow> SuppressionState" where
  "roll_windows now s =
     (let s1 = (if DUPLICATE_WINDOW_SECONDS \<le> now - window_started_at s
                then s\<lparr>window_started_at := now, emitted_count := 0\<rparr> else s);
          s2 = (if LOOP_WINDOW_SECONDS \<le> now - loop_window_started_at s1
                then s1\<lparr>loop_window_started_at := now, loop_hit_count := 0\<rparr> else s1);
          s3 = s2\<lparr>loop_hit_count := loop_hit_count s2 + 1, last_seen_at := now\<rparr>
      in if LOOP_THRESHOLD < loop_hit_count s3 then s3\<lparr>suppression_mode := True\<rparr> else s3)"

definition observe :: "rat \<Rightarrow> SuppressionState \<Rightarrow> bool \<times> SuppressionState" where
  "observe now s =
     (let s1 = roll_windows now (reset_state now s) in
      if suppression_mode s1 then (False, mark_suppressed now s1)
      else if emitted_count s1 < MAX_NORMAL_EVENTS_PER_WINDOW
        then (True, s1\<lparr>emitted_count := emitted_count s1 + 1\<rparr>)
      else (False, mark_suppressed now s1))"

definition should_capture :: "(string \<Rightarrow> string) \<Rightarrow> string \<Rightarrow> rat \<Rightarrow> tracker \<Rightarrow> bool \<times> tracker" where
  "should_capture h key now st =
     (let fp = h key; (s, st1) = lookup_state fp now st; (ok, s1) = observe now s
      in (ok, AList.update fp s1 st1))"

definition aggregate :: "(rat \<Rightarrow> string) \<Rightarrow> string \<Rightarrow> SuppressionState \<Rightarrow> pyval" where
  "aggregate to_iso key s = PDict [(PStr ''event_type'', PStr ''error_suppressed''),
     (PStr ''payload'', PDict [(PStr ''fingerprint'', PStr key),
        (PStr ''suppressed_count'', PInt (int (pending_suppressed_count s))),
        (PStr ''first_seen'', PStr (to_iso (the (pending_first_seen_at s)))),
        (PStr ''last_seen'', PStr (to_iso (the (pending_last_seen_at s)))),
        (PStr ''window_seconds'', PInt 30)])]"

definition aggregate_due :: "rat \<Rightarrow> SuppressionState \<Rightarrow> bool" where
  "aggregate_due now s \<longleftrightarrow>
     \<not> (pending_suppressed_count s = 0 \<or> pending_first_seen_at s = None \<or> pending_last_seen_at s = None) \<and>
     \<not> (suppression_mode s \<and> (case last_aggregate_emitted_at s of None \<Rightarrow> False
          | Some t \<Rightarrow> now - t < LOOP_CHECKPOINT_SECONDS))"

definition drained_state :: "rat \<Rightarrow> SuppressionState \<Rightarrow> SuppressionState" where
  "drained_state now s = s\<lparr>pending_suppressed_count := 0, pending_first_seen_at := None,
     pending_last_seen_at := None, last_aggregate_emitted_at := Some now\<rparr>"

fun drain_aggregates :: "(rat \<Rightarrow> string) \<Rightarrow> rat \<Rightarrow> tracker \<Rightarrow> pyval list \<times> tracker" where
  "drain_aggregates to_iso now [] = ([], [])"
| "drain_aggregates to_iso now ((key, s) # st) =
     (let (out, st1) = drain_aggregates to_iso now st in
      if aggregate_due now s then (aggregate to_iso key s # out, (key, drained_state now s) # st1)
      else (out, (key, s) # st1))"

subsection \<open>The invariant of the tracker\<close>

definition state_ok :: "SuppressionState \<Rightarrow> bool" where
  "state_ok s \<longleftrightarrow> emitted_count s \<le> MAX_NORMAL_EVENTS_PER_WINDOW \<and>
     (LOOP_THRESHOLD < loop_hit_count s \<longrightarrow> suppression_mode s) \<and>
     (pending_suppressed_count s = 0 \<longleftrightarrow> pending_first_seen_at s = None) \<and>
     (pending_suppressed_count s = 0 \<longleftrightarrow> pending_last_seen_at s = None)"

definition tracker_ok :: "tracker \<Rightarrow> bool" where
  "tracker_ok st \<longleftrightarrow> dict_ok st \<and> length st \<le> MAX_TRACKED_FINGERPRINTS \<and> (\<forall>s \<in> snd ` set st. state_ok s)"

lemma fresh_state_ok [simp]: "state_ok (fresh_state now)"
  by (simp add: state_ok_def fresh_state_def)

lemma roll_windows_ok: "state_ok s \<Longrightarrow> state_ok (roll_windows now s)"
  by (auto simp: state_ok_def roll_windows_def Let_def LOOP_THRESHOLD_def)

lemma observe_ok: "state_ok s \<Longrightarrow> state_ok (snd (observe now s))"
proof -
  assume "state_ok s"
  then have "state_ok (roll_windows now (reset_state now s))" by (auto intro: roll_windows_ok simp: reset_state_def)
  then show ?thesis by (auto simp: observe_def Let_def state_ok_def mark_suppressed_def)
qed

lemma drained_state_ok: "state_ok s \<Longrightarrow> state_ok (drained_state now s)"
  by (auto simp: state_ok_def drained_state_def)

definition state_of :: "string \<Rightarrow> rat \<Rightarrow> tracker \<Rightarrow> SuppressionState" where
  "state_of fp now st = (case map_of st fp of None \<Rightarrow> fresh_state now | Some s \<Rightarrow> s)"

lemma should_capture_state:
  "fst (should_capture h key now st) = fst (observe now (state_of (h key) now st))"
  "map_of (snd (should_capture h key now st)) (h key) = Some (snd (observe now (state_of (h key) now st)))"
  by (auto simp: should_capture_def lookup_state_def state_of_def update_conv' Let_def split: option.splits prod.splits)

lemma lookup_state_ok:
  assumes "tracker_ok st"
  shows "tracker_ok (snd (lookup_state fp now st))"
proof (cases "map_of st fp")
  case None
  let ?t = "if MAX_TRACKED_FINGERPRINTS \<le> length st then tl st else st"
  have "fp \<notin> fst ` set st" using None by (simp add: map_of_eq_None_iff)
  moreover have "set ?t \<subseteq> set st" using set_tl_subset [of st] by auto
  moreover have "dict_ok ?t" "length ?t < MAX_TRACKED_FINGERPRINTS"
    using assms by (auto simp: tracker_ok_def map_tl distinct_tl MAX_TRACKED_FINGERPRINTS_def)
  ultimately show ?thesis using None assms
    by (auto simp: lookup_state_def Let_def tracker_ok_def intro: rev_image_eqI)
next
  case (Some s)
  then have "state_ok s" using assms by (auto simp: tracker_ok_def dest: map_of_value)
  then show ?thesis using Some assms length_delete [OF Some]
    by (auto simp: lookup_state_def tracker_ok_def distinct_delete AList.delete_eq dict_ok_filter)
qed

lemma lookup_state_fst: "fst (lookup_state fp now st) = state_of fp now st"
  by (auto simp: lookup_state_def state_of_def Let_def split: option.splits)

lemma lookup_state_present: "map_of (snd (lookup_state fp now st)) fp = Some (state_of fp now st)"
  by (auto simp: lookup_state_def state_of_def Let_def delete_conv' map_add_def map_of_tl_None
      split: option.splits)

lemma state_of_ok: "tracker_ok st \<Longrightarrow> state_ok (state_of fp now st)"
  by (auto simp: state_of_def tracker_ok_def split: option.splits dest!: map_of_SomeD)

lemma should_capture_eq:
  "should_capture h key now st =
     (fst (observe now (state_of (h key) now st)),
      AList.update (h key) (snd (observe now (state_of (h key) now st))) (snd (lookup_state (h key) now st)))"
  by (simp add: should_capture_def lookup_state_fst split_beta Let_def)

lemma tracker_ok_update:
  assumes "tracker_ok st" "map_of st fp = Some u" "state_ok s"
  shows "tracker_ok (AList.update fp s st)"
proof -
  have "\<forall>u \<in> snd ` set (AList.update fp s st). state_ok u"
    by (rule ball_update) (use assms in \<open>auto simp: tracker_ok_def\<close>)
  moreover have "length (AList.update fp s st) = length st"
    using map_of_key [OF assms(2)] by (simp add: length_update)
  moreover have "dict_ok (AList.update fp s st)"
    using assms(1) by (simp add: tracker_ok_def distinct_update)
  ultimately show ?thesis using assms(1) by (simp only: tracker_ok_def)
qed

lemma should_capture_ok: "tracker_ok st \<Longrightarrow> tracker_ok (snd (should_capture h key now st))"
  unfolding should_capture_eq snd_conv
  by (rule tracker_ok_update [OF lookup_state_ok lookup_state_present]) (simp_all add: observe_ok state_of_ok)

lemma drain_eq:
  "drain_aggregates to_iso now st =
     (map (\<lambda>(k, s). aggregate to_iso k s) (filter (\<lambda>(k, s). aggregate_due now s) st),
      map (\<lambda>(k, s). (k, if aggregate_due now s then drained_state now s else s)) st)"
  by (induction st) (auto simp: split_beta Let_def)

lemma drain_ok: "tracker_ok st \<Longrightarrow> tracker_ok (snd (drain_aggregates to_iso now st))"
  by (auto simp: tracker_ok_def drain_eq comp_def split_beta intro: drained_state_ok)

subsection \<open>Runs of the tracker\<close>

datatype tracker_op = Capture string rat | Drain rat

fun tracker_step :: "(string \<Rightarrow> string) \<Rightarrow> (rat \<Rightarrow> string) \<Rightarrow> tracker_op \<Rightarrow> tracker \<Rightarrow> tracker" where
  "tracker_step h to_iso (Capture key now) st = snd (should_capture h key now st)"
| "tracker_step h to_iso (Drain now) st = snd (drain_aggregates to_iso now st)"

interpretation tracker: preserved "tracker_step h to_iso" tracker_ok for h to_iso
proof
  fix st x assume "tracker_ok st"
  then show "tracker_ok (tracker_step h to_iso x st)" by (cases x) (auto simp: should_capture_ok drain_ok)
qed

text \<open>
  C22: Whatever events are captured and whenever aggregates are drained, the tracker holds at most 2048
  fingerprints, one state each; a state has let at most three events through its window, is in
  suppression mode once a loop was seen, and has first and last times exactly when suppressed events
  are pending.
\<close>

theorem tracker_run_ok: "tracker_ok (run (tracker_step h to_iso) ops [])"
  by (rule tracker.run_inv) (simp add: tracker_ok_def)

subsection \<open>Every suppressed event is counted\<close>

abbreviation pending_total :: "tracker \<Rightarrow> int" where
  "pending_total \<equiv> total (\<lambda>s. int (pending_suppressed_count s))"

interpretation pending: ledger map_of AList.update AList.delete dict_ok
  "\<lambda>s. int (pending_suppressed_count s)" "pending_total :: tracker \<Rightarrow> int"
  by (rule alist_ledger)

fun suppressed_count_of :: "pyval \<Rightarrow> int" where
  "suppressed_count_of (PDict a) = (case dgetn a ''payload'' of
      PDict p \<Rightarrow> (case dgetn p ''suppressed_count'' of PInt n \<Rightarrow> n | _ \<Rightarrow> 0) | _ \<Rightarrow> 0)"
| "suppressed_count_of _ = 0"

lemma suppressed_count_aggregate [simp]:
  "suppressed_count_of (aggregate to_iso key s) = int (pending_suppressed_count s)"
  by (simp add: aggregate_def dgetn_def)

text \<open>
  Draining aggregates loses nothing: the counts reported together with the counts still pending are
  the counts that were pending before.
\<close>

theorem drain_conserves_counts:
  "sum_list (map suppressed_count_of (fst (drain_aggregates to_iso now st))) +
     pending_total (snd (drain_aggregates to_iso now st)) = pending_total st"
proof (induction st)
  case (Cons x st)
  then show ?case by (cases x) (auto simp: split_beta Let_def drained_state_def)
qed simp

text \<open>The pending count that the capture of a fingerprint gives up: by eviction or by the reset.\<close>

definition given_up :: "string \<Rightarrow> rat \<Rightarrow> tracker \<Rightarrow> int" where
  "given_up fp now st = (case map_of st fp of
      None \<Rightarrow> (if MAX_TRACKED_FINGERPRINTS \<le> length st
        then int (pending_suppressed_count (snd (hd st))) else 0)
    | Some s \<Rightarrow> (if suppression_mode s \<and> LOOP_RESET_AFTER_SECONDS \<le> now - last_seen_at s
        then int (pending_suppressed_count s) else 0))"

lemma roll_windows_pending [simp]:
  "pending_suppressed_count (roll_windows now s) = pending_suppressed_count s"
  "pending_first_seen_at (roll_windows now s) = pending_first_seen_at s"
  by (simp_all add: roll_windows_def Let_def)

lemma observe_pending:
  "int (pending_suppressed_count (snd (observe now s))) + (if fst (observe now s) then 1 else 0) =
     int (pending_suppressed_count (reset_state now s)) + 1"
  by (auto simp: observe_def Let_def mark_suppressed_def)

lemma lookup_total:
  assumes "dict_ok st"
  shows "pending_total (snd (lookup_state fp now st)) = pending_total st -
    (if map_of st fp = None then given_up fp now st else 0)"
proof (cases "map_of st fp")
  case None
  moreover have "0 < MAX_TRACKED_FINGERPRINTS" by (simp add: MAX_TRACKED_FINGERPRINTS_def)
  ultimately show ?thesis
    by (cases st) (auto simp: lookup_state_def given_up_def Let_def fresh_state_def)
next
  case (Some s)
  then show ?thesis using pending.sum_drop_old [OF assms Some] by (simp add: lookup_state_def)
qed

text \<open>
  Every call of \<open>should_capture\<close> either lets the event through or adds one to the counts pending
  for the next aggregate; counts are lost only where the least recently used of 2048 states is evicted
  or a state in suppression mode is reset after a quiet minute.
\<close>

theorem capture_conserves_counts:
  assumes "dict_ok st"
  shows "pending_total (snd (should_capture h key now st)) + (if fst (should_capture h key now st) then 1 else 0) =
    pending_total st + 1 - given_up (h key) now st"
proof -
  let ?st = "snd (lookup_state (h key) now st)" and ?s = "state_of (h key) now st"
  have ok: "dict_ok ?st"
    using assms by (auto simp: lookup_state_def Let_def map_tl distinct_tl distinct_delete dict_ok_filter
        AList.delete_eq map_of_eq_None_iff dest!: set_mp [OF set_tl_subset] split: option.splits)
  have "pending_total (snd (should_capture h key now st)) =
      pending_total ?st - int (pending_suppressed_count ?s) + int (pending_suppressed_count (snd (observe now ?s)))"
    unfolding should_capture_eq snd_conv by (rule pending.sum_put_old [OF ok lookup_state_present])
  moreover have "int (pending_suppressed_count ?s) - int (pending_suppressed_count (reset_state now ?s)) =
      (if map_of st (h key) = None then 0 else given_up (h key) now st)"
    by (auto simp: state_of_def reset_state_def given_up_def fresh_state_def split: option.splits)
  ultimately show ?thesis
    using observe_pending [of now ?s] lookup_total [OF assms, of "h key" now] by (auto simp: should_capture_eq)
qed

subsection \<open>How many captures pass\<close>

text \<open>The answers of successive captures of one key, and of successive observations of its state.\<close>

fun granted :: "(string \<Rightarrow> string) \<Rightarrow> string \<Rightarrow> rat list \<Rightarrow> tracker \<Rightarrow> nat" where
  "granted h key [] st = 0"
| "granted h key (t # ts) st =
     (if fst (should_capture h key t st) then 1 else 0) + granted h key ts (snd (should_capture h key t st))"

fun observed :: "rat list \<Rightarrow> SuppressionState \<Rightarrow> nat" where
  "observed [] s = 0"
| "observed (t # ts) s = (if fst (observe t s) then 1 else 0) + observed ts (snd (observe t s))"

lemma granted_observed:
  "granted h key (t # ts) st = observed (t # ts) (state_of (h key) t st)"
proof (induction ts arbitrary: t st)
  case Nil
  show ?case by (simp add: should_capture_eq)
next
  case (Cons u ts)
  have "state_of (h key) u (snd (should_capture h key t st)) = snd (observe t (state_of (h key) t st))"
    by (simp add: state_of_def should_capture_state)
  with Cons.IH [of u "snd (should_capture h key t st)"] show ?case
    by (simp add: should_capture_state(1))
qed

text \<open>Inside the window no restart happens, so the window's remaining allowance bounds the answers.\<close>

lemma observe_in_window:
  assumes "now - window_started_at s < 30" "now - last_seen_at s < 60" "emitted_count s \<le> 3"
  shows "emitted_count (snd (observe now s)) = emitted_count s + (if fst (observe now s) then 1 else 0) \<and>
    emitted_count (snd (observe now s)) \<le> 3 \<and>
    window_started_at (snd (observe now s)) = window_started_at s \<and> last_seen_at (snd (observe now s)) = now"
  using assms by (auto simp: observe_def reset_state_def roll_windows_def mark_suppressed_def Let_def suppression_limits)

lemma observed_in_window:
  assumes "\<forall>t \<in> set ts. lo \<le> t \<and> t < lo + 30" "lo \<le> window_started_at s" "lo \<le> last_seen_at s"
    "emitted_count s \<le> 3"
  shows "observed ts s + emitted_count s \<le> 3"
  using assms
proof (induction ts arbitrary: s)
  case (Cons t ts)
  then have "t - window_started_at s < 30" "t - last_seen_at s < 60" by auto
  from observe_in_window [OF this Cons.prems(4)] Cons.prems Cons.IH [of "snd (observe t s)"] show ?case by auto
qed simp

lemma observe_restart:
  assumes "30 \<le> now - window_started_at s \<or> (suppression_mode s \<and> 60 \<le> now - last_seen_at s)"
  shows "window_started_at (snd (observe now s)) = now \<and> last_seen_at (snd (observe now s)) = now \<and>
    emitted_count (snd (observe now s)) = (if fst (observe now s) then 1 else 0)"
  using assms
  by (auto simp: observe_def reset_state_def roll_windows_def mark_suppressed_def Let_def suppression_limits fresh_state_def)

lemma observe_no_restart:
  assumes "now - window_started_at s < 30" "\<not> (suppression_mode s \<and> 60 \<le> now - last_seen_at s)" "emitted_count s \<le> 3"
  shows "emitted_count (snd (observe now s)) = emitted_count s + (if fst (observe now s) then 1 else 0) \<and>
    emitted_count (snd (observe now s)) \<le> 3"
  using assms by (auto simp: observe_def reset_state_def roll_windows_def mark_suppressed_def Let_def suppression_limits)

lemma observed_any_window:
  assumes "\<forall>t \<in> set ts. lo \<le> t \<and> t < lo + 30" "emitted_count s \<le> 3"
  shows "observed ts s + emitted_count s \<le> 6"
  using assms
proof (induction ts arbitrary: s)
  case (Cons t ts)
  show ?case
  proof (cases "30 \<le> t - window_started_at s \<or> (suppression_mode s \<and> 60 \<le> t - last_seen_at s)")
    case True
    from observe_restart [OF this] Cons.prems observed_in_window [of ts lo "snd (observe t s)"]
    show ?thesis by (auto split: if_splits)
  next
    case False
    then have "t - window_started_at s < 30" "\<not> (suppression_mode s \<and> 60 \<le> t - last_seen_at s)" by auto
    from observe_no_restart [OF this Cons.prems(2)] Cons.prems Cons.IH [of "snd (observe t s)"] show ?thesis by auto
  qed
qed simp



subsection \<open>Loops\<close>

fun close_after :: "rat \<Rightarrow> rat list \<Rightarrow> bool" where
  "close_after prev [] = True"
| "close_after prev (t # ts) = (t - prev < 60 \<and> close_after t ts)"

lemma observe_suppressed:
  assumes "suppression_mode s" "now - last_seen_at s < 60"
  shows "\<not> fst (observe now s) \<and> suppression_mode (snd (observe now s)) \<and> last_seen_at (snd (observe now s)) = now \<and>
    pending_suppressed_count (snd (observe now s)) = Suc (pending_suppressed_count s)"
  using assms by (auto simp: observe_def reset_state_def roll_windows_def mark_suppressed_def Let_def suppression_limits)

fun observe_all :: "rat list \<Rightarrow> SuppressionState \<Rightarrow> SuppressionState" where
  "observe_all [] s = s"
| "observe_all (t # ts) s = observe_all ts (snd (observe t s))"

text \<open>
  Once a key is in suppression mode none of its captures passes for as long as they follow each
  other within less than a minute, and each of them is added to the pending count.
\<close>

theorem loop_stays_suppressed:
  assumes "suppression_mode s" and "close_after (last_seen_at s) ts"
  shows "observed ts s = 0 \<and> suppression_mode (observe_all ts s) \<and>
    pending_suppressed_count (observe_all ts s) = pending_suppressed_count s + length ts"
  using assms
proof (induction ts arbitrary: s)
  case (Cons t ts)
  with observe_suppressed [of s t] show ?case by auto
qed simp

definition sample_loop :: SuppressionState where
  "sample_loop = (fresh_state 0)\<lparr>suppression_mode := True, emitted_count := 3, loop_hit_count := 11,
     pending_suppressed_count := 8, pending_first_seen_at := Some 0, pending_last_seen_at := Some 0\<rparr>"

theorem loop_stays_suppressed_witness:
  "pending_suppressed_count (observe_all [1, 31, 90] sample_loop) = 11"
  using loop_stays_suppressed [of sample_loop "[1, 31, 90]"] by (simp add: sample_loop_def fresh_state_def)

text \<open>A quiet minute gives up what was pending: eight suppressed events are in no aggregate.\<close>

lemma reset_gives_up_pending:
  "pending_total (snd (should_capture id ''boom'' 61 [(''boom'', sample_loop)])) = 0 \<and>
   given_up ''boom'' 61 [(''boom'', sample_loop)] = 8"
  by (simp add: should_capture_eq state_of_def sample_loop_def observe_def reset_state_def roll_windows_def
      fresh_state_def lookup_state_def given_up_def Let_def suppression_limits)

theorem capture_conserves_counts_witness:
  "pending_total (snd (should_capture id ''boom'' 2 [(''boom'', sample_loop)])) +
     (if fst (should_capture id ''boom'' 2 [(''boom'', sample_loop)]) then 1 else 0) = 9"
  using capture_conserves_counts [of "[(''boom'', sample_loop)]" id "''boom''" 2]
  by (simp add: given_up_def sample_loop_def fresh_state_def suppression_limits)

end
