(* ===== verification/Acknowledgement.thy ===== *)
theory Acknowledgement
  imports PyValues
begin

text \<open>
  \<open>acknowledgement.py\<close>: the decision taken from the body of an ingestion response. The three kinds
  of the dataclass are the constructors of \<open>decision\<close>; the fields a kind leaves at their defaults are
  not repeated.
\<close>

definition RETRYABLE_REASONS :: "string list" where
  "RETRYABLE_REASONS = [''rate_limited'', ''monthly_quota_exceeded'', ''analytics_quota_exceeded'']"

datatype decision =
    Legacy
  | ProtocolFailure string
  | Acknowledged int "int list" "(int \<times> string) list"

fun is_count :: "pyval \<Rightarrow> bool" where
  "is_count (PInt i) = (0 \<le> i)"
| "is_count _ = False"

fun int_value :: "pyval \<Rightarrow> int" where
  "int_value (PInt i) = i"
| "int_value _ = 0"

text \<open>The loop over the reported errors; \<open>None\<close> is the early \<open>invalid_error_index\<close>.\<close>

fun read_errors ::
  "pyval list \<Rightarrow> int \<Rightarrow> int list \<Rightarrow> int list \<Rightarrow> (int \<times> string) list \<Rightarrow>
   (int list \<times> (int \<times> string) list) option" where
  "read_errors [] n seen retryable terminal = Some (retryable, terminal)"
| "read_errors (PDict e # es) n seen retryable terminal =
     (case (dgetn e ''index'', dgetn e ''reason'') of
        (PInt index, PStr reason) \<Rightarrow>
          if index < 0 \<or> n \<le> index \<or> index \<in> set seen \<or> reason = [] then None
          else if reason \<in> set RETRYABLE_REASONS
            then read_errors es n (index # seen) (retryable @ [index]) terminal
            else read_errors es n (index # seen) retryable (terminal @ [(index, reason)])
      | _ \<Rightarrow> None)"
| "read_errors (_ # es) n seen retryable terminal = None"

definition decide_acknowledgement :: "pyval \<Rightarrow> int \<Rightarrow> bool \<Rightarrow> decision" where
  "decide_acknowledgement body batch_length required =
     (case body of
        PDict b \<Rightarrow>
          if \<not> (\<exists>k \<in> set [''accepted'', ''rejected'', ''errors'']. has_key k b)
          then (if required then ProtocolFailure ''missing_acknowledgement'' else Legacy)
          else if \<not> is_count (dgetn b ''accepted'') \<or> \<not> is_count (dgetn b ''rejected'')
          then ProtocolFailure ''inconsistent_counts''
          else (case dgetn b ''errors'' of
              PList errors \<Rightarrow>
                if int_value (dgetn b ''accepted'') + int_value (dgetn b ''rejected'') \<noteq> batch_length
                   \<or> int (length errors) \<noteq> int_value (dgetn b ''rejected'')
                then ProtocolFailure ''inconsistent_counts''
                else (case read_errors errors batch_length [] [] [] of
                    None \<Rightarrow> ProtocolFailure ''invalid_error_index''
                  | Some (r, t) \<Rightarrow> Acknowledged (int_value (dgetn b ''accepted'')) r t)
            | _ \<Rightarrow> ProtocolFailure ''inconsistent_counts'')
      | _ \<Rightarrow> if required then ProtocolFailure ''missing_acknowledgement'' else Legacy)"

subsection \<open>What the loop over the errors computes\<close>

text \<open>The (index, reason) pair of one well-formed error, and the specification of the whole list.\<close>

fun error_pair :: "pyval \<Rightarrow> (int \<times> string) option" where
  "error_pair (PDict e) = (case (dgetn e ''index'', dgetn e ''reason'') of
      (PInt index, PStr reason) \<Rightarrow> Some (index, reason) | _ \<Rightarrow> None)"
| "error_pair _ = None"

definition reported :: "pyval list \<Rightarrow> int \<Rightarrow> (int \<times> string) list \<Rightarrow> bool" where
  "reported errors n ps \<longleftrightarrow> map error_pair errors = map Some ps \<and> distinct (map fst ps) \<and>
     (\<forall>(i, reason) \<in> set ps. 0 \<le> i \<and> i < n \<and> reason \<noteq> [])"

abbreviation retryable_of :: "(int \<times> string) list \<Rightarrow> int list" where
  "retryable_of ps \<equiv> map fst (filter (\<lambda>p. snd p \<in> set RETRYABLE_REASONS) ps)"

abbreviation terminal_of :: "(int \<times> string) list \<Rightarrow> (int \<times> string) list" where
  "terminal_of ps \<equiv> filter (\<lambda>p. snd p \<notin> set RETRYABLE_REASONS) ps"

lemma read_errors_spec:
  "read_errors es n seen r t = Some (r', t') \<longleftrightarrow>
   (\<exists>ps. reported es n ps \<and> set (map fst ps) \<inter> set seen = {} \<and> r' = r @ retryable_of ps \<and> t' = t @ terminal_of ps)"
proof (induction es n seen r t rule: read_errors.induct)
  case (1 n seen r t)
  show ?case by (auto simp: reported_def)
next
  case (2 e es n seen r t)
  show ?case
  proof (cases "error_pair (PDict e)")
    case None
    then show ?thesis by (auto simp: reported_def Cons_eq_map_conv split: pyval.splits)
  next
    case (Some p)
    obtain i reason where p: "p = (i, reason)" by (cases p)
    with Some have v: "dgetn e ''index'' = PInt i" "dgetn e ''reason'' = PStr reason"
      by (auto split: pyval.splits)
    have split: "reported (PDict e # es) n ps \<longleftrightarrow> (\<exists>qs. ps = (i, reason) # qs \<and> 0 \<le> i \<and> i < n \<and> reason \<noteq> [] \<and>
        i \<notin> set (map fst qs) \<and> reported es n qs)" for ps
      using Some p by (auto simp: reported_def Cons_eq_map_conv simp del: error_pair.simps)
    show ?thesis
    proof (cases "i < 0 \<or> n \<le> i \<or> i \<in> set seen \<or> reason = []")
      case True
      then show ?thesis using v split by auto
    next
      case False
      have IH: "read_errors es n (i # seen) r1 t1 = Some (r', t') \<longleftrightarrow>
          (\<exists>ps. reported es n ps \<and> set (map fst ps) \<inter> set (i # seen) = {} \<and> r' = r1 @ retryable_of ps
            \<and> t' = t1 @ terminal_of ps)"
        if "if reason \<in> set RETRYABLE_REASONS then r1 = r @ [i] \<and> t1 = t else r1 = r \<and> t1 = t @ [(i, reason)]" for r1 t1
        using that "2.IH" [OF refl v False] by (auto split: if_splits)
      have ex: "(\<exists>ps. reported (PDict e # es) n ps \<and> Q ps) \<longleftrightarrow>
          (\<exists>qs. reported es n qs \<and> i \<notin> set (map fst qs) \<and> Q ((i, reason) # qs))" for Q
      proof
        assume "\<exists>ps. reported (PDict e # es) n ps \<and> Q ps"
        then obtain ps where ps: "reported (PDict e # es) n ps" "Q ps" by (elim exE conjE)
        from ps(1) obtain qs where "ps = (i, reason) # qs" "i \<notin> set (map fst qs)" "reported es n qs"
          unfolding split by (elim exE conjE)
        with ps(2) show "\<exists>qs. reported es n qs \<and> i \<notin> set (map fst qs) \<and> Q ((i, reason) # qs)"
          by (intro exI [of _ qs]) simp
      next
        assume "\<exists>qs. reported es n qs \<and> i \<notin> set (map fst qs) \<and> Q ((i, reason) # qs)"
        then obtain qs where qs: "reported es n qs" "i \<notin> set (map fst qs)" "Q ((i, reason) # qs)" by (elim exE conjE)
        have "reported (PDict e # es) n ((i, reason) # qs)" unfolding split using False qs(1,2) by simp
        with qs(3) show "\<exists>ps. reported (PDict e # es) n ps \<and> Q ps" by (intro exI conjI)
      qed
      show ?thesis
      proof (cases "reason \<in> set RETRYABLE_REASONS")
        case True
        then have step: "read_errors (PDict e # es) n seen r t = read_errors es n (i # seen) (r @ [i]) t"
          using v False by simp
        have "read_errors es n (i # seen) (r @ [i]) t = Some (r', t') \<longleftrightarrow>
          (\<exists>ps. reported es n ps \<and> set (map fst ps) \<inter> set (i # seen) = {} \<and> r' = (r @ [i]) @ retryable_of ps
            \<and> t' = t @ terminal_of ps)" by (rule IH) (use True in simp)
        then show ?thesis unfolding step ex using True False by (simp add: conj_assoc)
      next
        case nonret: False
        then have step: "read_errors (PDict e # es) n seen r t = read_errors es n (i # seen) r (t @ [(i, reason)])"
          using v False by simp
        have "read_errors es n (i # seen) r (t @ [(i, reason)]) = Some (r', t') \<longleftrightarrow>
          (\<exists>ps. reported es n ps \<and> set (map fst ps) \<inter> set (i # seen) = {} \<and> r' = r @ retryable_of ps
            \<and> t' = (t @ [(i, reason)]) @ terminal_of ps)" by (rule IH) (use nonret in simp)
        then show ?thesis unfolding step ex using nonret False by (simp add: conj_assoc)
      qed
    qed
  qed
qed (auto simp: reported_def Cons_eq_map_conv)

lemma ack_iff:
  "decide_acknowledgement body n required = Acknowledged a r t \<longleftrightarrow>
   (\<exists>b errors ps. body = PDict b \<and> dgetn b ''accepted'' = PInt a \<and> 0 \<le> a \<and>
      dgetn b ''rejected'' = PInt (int (length errors)) \<and> dgetn b ''errors'' = PList errors \<and>
      a + int (length errors) = n \<and> reported errors n ps \<and> r = retryable_of ps \<and> t = terminal_of ps)"
  (is "_ \<longleftrightarrow> ?R")
proof
  assume L: "decide_acknowledgement body n required = Acknowledged a r t"
  then obtain b where b: "body = PDict b" by (cases body) (simp_all add: decide_acknowledgement_def split: if_splits)
  have known: "\<exists>k \<in> set [''accepted'', ''rejected'', ''errors'']. has_key k b"
    by (rule ccontr) (use L b in \<open>simp add: decide_acknowledgement_def split: if_splits\<close>)
  have counts: "is_count (dgetn b ''accepted'') \<and> is_count (dgetn b ''rejected'')"
    by (rule ccontr) (use L b known in \<open>simp add: decide_acknowledgement_def split: if_splits\<close>)
  from counts obtain i where i: "dgetn b ''accepted'' = PInt i" by (cases "dgetn b ''accepted''") simp_all
  from counts obtain k where k: "dgetn b ''rejected'' = PInt k" by (cases "dgetn b ''rejected''") simp_all
  from L b known counts obtain errors where errors: "dgetn b ''errors'' = PList errors"
    by (cases "dgetn b ''errors''") (simp_all add: decide_acknowledgement_def split: if_splits)
  from L b known counts i k errors show ?R
    by (auto simp: decide_acknowledgement_def read_errors_spec split: if_splits option.splits)
next
  assume ?R
  then obtain b errors ps where b: "body = PDict b" "dgetn b ''accepted'' = PInt a" "0 \<le> a"
    "dgetn b ''rejected'' = PInt (int (length errors))" "dgetn b ''errors'' = PList errors"
    "a + int (length errors) = n" and ps: "reported errors n ps" "r = retryable_of ps" "t = terminal_of ps"
    by blast
  have "read_errors errors n [] [] [] = Some (r, t)" unfolding read_errors_spec using ps by auto
  moreover have "has_key ''errors'' b" using b(5) by (auto simp: has_key_def dgetn_def split: option.splits)
  ultimately show "decide_acknowledgement body n required = Acknowledged a r t"
    using b by (simp add: decide_acknowledgement_def)
qed

text \<open>
  C21: A response body is acknowledged exactly when its counts are non-negative integers that sum to the
  batch size and it reports one error per rejected event, each with its own index inside the batch and
  a reason; the errors are then divided, in order, by whether their reason is retryable.
\<close>

theorem acknowledged_iff:
  "decide_acknowledgement body n required = Acknowledged a r t \<longleftrightarrow>
   (\<exists>b errors ps. body = PDict b \<and> dgetn b ''accepted'' = PInt a \<and> 0 \<le> a \<and>
      dgetn b ''rejected'' = PInt (int (length errors)) \<and> dgetn b ''errors'' = PList errors \<and>
      a + int (length errors) = n \<and> reported errors n ps \<and> r = retryable_of ps \<and> t = terminal_of ps)"
  by (rule ack_iff)

lemma ack_positions:
  assumes "decide_acknowledgement body n required = Acknowledged a r t"
  shows "distinct (r @ map fst t)" "\<forall>i \<in> set (r @ map fst t). 0 \<le> i \<and> i < n"
proof -
  from assms obtain errors ps where ps: "reported errors n ps" and r: "r = retryable_of ps" "t = terminal_of ps"
    unfolding ack_iff by blast
  show "distinct (r @ map fst t)"
    using ps r by (auto simp: reported_def distinct_map_filter dest: eq_key_imp_eq_value)
  show "\<forall>i \<in> set (r @ map fst t). 0 \<le> i \<and> i < n" using ps r by (auto simp: reported_def)
qed

lemma ack_total:
  assumes "decide_acknowledgement body n required = Acknowledged a r t"
  shows "a + int (length r) + int (length t) = n"
proof -
  from assms obtain errors ps where a: "a + int (length errors) = n"
    and ps: "reported errors n ps" and r: "r = retryable_of ps" "t = terminal_of ps"
    unfolding ack_iff by blast
  have "length errors = length ps" using ps by (metis reported_def length_map)
  moreover have "length r + length t = length ps"
    using sum_length_filter_compl [of "\<lambda>p. snd p \<in> set RETRYABLE_REASONS" ps] r by simp
  ultimately show ?thesis using a by linarith
qed

text \<open>
  An acknowledgement accounts for every event of the batch once: the retryable and terminal indices
  are distinct positions of the batch, and with the accepted count they add up to its size.
\<close>

theorem acknowledged_accounts_for_batch:
  assumes "decide_acknowledgement body n required = Acknowledged a r t"
  shows "distinct (r @ map fst t) \<and> (\<forall>i \<in> set (r @ map fst t). 0 \<le> i \<and> i < n) \<and> 0 \<le> a \<and>
    a + int (length r) + int (length t) = n"
  using assms ack_positions [OF assms] ack_total [OF assms] unfolding ack_iff by blast

definition sample_ack :: pyval where
  "sample_ack = PDict [(PStr ''accepted'', PInt 1), (PStr ''rejected'', PInt 2), (PStr ''errors'', PList
     [PDict [(PStr ''index'', PInt 2), (PStr ''reason'', PStr ''rate_limited'')],
      PDict [(PStr ''index'', PInt 0), (PStr ''reason'', PStr ''schema'')]])]"

theorem acknowledged_accounts_for_batch_witness:
  "decide_acknowledgement sample_ack 3 True = Acknowledged 1 [2] [(0, ''schema'')] \<and> distinct [2, 0 :: int]"
proof -
  have d: "decide_acknowledgement sample_ack 3 True = Acknowledged 1 [2] [(0, ''schema'')]" by code_simp
  from acknowledged_accounts_for_batch [OF this] d show ?thesis by simp
qed

end
