(* ===== verification/Queue.thy ===== *)
theory Queue
  imports Ingestion_Wire Diagnostic_Budget Capture_Policy Suppression Acknowledgement
begin

text \<open>
  The queue of one SDK object: the fields of \<open>core.DebugBundleSdk\<close> that the queue and its delivery
  use, \<open>queue_admission.py\<close>, \<open>evidence_delivery.py\<close>, and \<open>core._schedule_flush_locked\<close>.

  An event in the buffer is a Python object: \<open>buffer\<close> holds its identity, which \<open>_buffer_sizes\<close> and
  \<open>_hook_bypass\<close> are keyed by, next to its contents. Events reach the queue protected, so they are
  dictionaries with the schema's required keys. \<open>None\<close> is a KeyError of \<open>_buffer_sizes\<close>. Each
  operation is one section under the SDK's lock and gets the clocks it reads as an argument: \<open>wall\<close>
  for the time provider and \<open>mono\<close> for the monotonic clock, both in seconds.
\<close>

record clock =
  wall :: rat
  mono :: rat
  timer_alive :: bool

record sdk =
  enabled :: bool
  has_transport :: bool
  http :: bool
  batch_size :: int
  flush_interval :: rat
  log_level :: string
  policy :: CapturePolicy
  features :: "string list"
  capture_exception_evidence :: bool
  capture_recovery_observations :: bool
  buffer :: "(nat \<times> pydict) list"
  buffer_sizes :: "(nat \<times> int) list"
  buffer_bytes :: int
  pending_low_priority :: int
  sending :: bool
  inflight_count :: int
  timer :: "rat option"
  generation :: nat
  pressure_drops :: int
  last_pressure_report_at :: rat
  retry_after :: rat
  last_event_at :: "rat option"
  consecutive_failures :: nat
  hook_bypass :: "nat list"
  diagnostics :: budget
  suppression :: tracker

definition MAX_PENDING_EVENTS :: int where "MAX_PENDING_EVENTS = 1000"
definition MAX_PENDING_BYTES :: int where "MAX_PENDING_BYTES = 8 * 1024 * 1024"

text \<open>\<open>core._event_bytes\<close>: ASCII JSON with NaN allowed.\<close>

definition sdk_event_bytes :: "(rat \<Rightarrow> string) \<Rightarrow> pydict \<Rightarrow> int" where
  "sdk_event_bytes fr e = (case json_bytes True True fr (PDict e) of Some n \<Rightarrow> int n | None \<Rightarrow> 0)"

definition event_id_of :: "pydict \<Rightarrow> string" where
  "event_id_of e = (case dgetn e ''event_id'' of PStr s \<Rightarrow> s | _ \<Rightarrow> [])"

definition is_type :: "string \<Rightarrow> pydict \<Rightarrow> bool" where
  "is_type t e \<longleftrightarrow> dgetn e ''event_type'' = PStr t"

subsection \<open>Scheduling\<close>

definition schedule_flush :: "clock \<Rightarrow> rat option \<Rightarrow> sdk \<Rightarrow> sdk" where
  "schedule_flush now delay s =
     (if sending s then s
      else
        let next_delay = (case delay of None \<Rightarrow> flush_interval s | Some d \<Rightarrow> max d 0);
            due_at = mono now + next_delay
        in case timer s of
             Some due \<Rightarrow> if timer_alive now \<and> due \<le> due_at then s else s\<lparr>timer := Some due_at\<rparr>
           | None \<Rightarrow> s\<lparr>timer := Some due_at\<rparr>)"

definition schedule_pressure_report :: "clock \<Rightarrow> sdk \<Rightarrow> sdk" where
  "schedule_pressure_report now s =
     (if pressure_drops s = 0 then s
      else schedule_flush now (Some (max (flush_interval s) (last_pressure_report_at s + 60 - wall now))) s)"

subsection \<open>Evidence delivery\<close>

definition observe_evidence :: "pyval \<Rightarrow> bool \<Rightarrow> bool \<Rightarrow> sdk \<Rightarrow> bool \<times> sdk" where
  "observe_evidence answer required valid s =
     (case answer of
        PDict b \<Rightarrow>
          if \<not> required \<and> \<not> has_key ''evidence_capabilities'' b then (False, s)
          else (let fs = parse_features (if valid then dgetn b ''evidence_capabilities'' else PNone) in
                (\<exists>f \<in> set (features s). f \<notin> set fs, s\<lparr>features := fs\<rparr>))
      | _ \<Rightarrow>
          if \<not> required then (False, s)
          else (let fs = parse_features PNone in (\<exists>f \<in> set (features s). f \<notin> set fs, s\<lparr>features := fs\<rparr>)))"

definition filter_evidence :: "sdk \<Rightarrow> pydict \<Rightarrow> pydict option" where
  "filter_evidence s e =
     (case strip_unsupported (PDict e) (if capture_exception_evidence s then features s
             else filter (\<lambda>f. f \<noteq> ''exception_evidence_v1'') (features s)) of
        Some (PDict e') \<Rightarrow> Some e' | _ \<Rightarrow> None)"

definition allows_recovery :: "sdk \<Rightarrow> bool" where
  "allows_recovery s \<longleftrightarrow> capture_recovery_observations s \<and> ''recovery_v1'' \<in> set (features s)
     \<and> preset (policy s) \<noteq> ''minimal'' \<and> capture_diagnostic_context (policy s)"

definition release_diagnostic :: "(rat \<Rightarrow> string) \<Rightarrow> pydict option \<Rightarrow> sdk \<Rightarrow> sdk" where
  "release_diagnostic fr original s =
     (case original of
        Some e \<Rightarrow> if is_type ''diagnostic_context'' e
          then s\<lparr>diagnostics := release fr [event_id_of e] (diagnostics s)\<rparr> else s
      | None \<Rightarrow> s)"

text \<open>
  \<open>reconcile_diagnostic\<close>. \<open>fromiso\<close> is the reading of a time stamp; the exceptions the code catches
  there are its None.
\<close>

definition register_replacement ::
  "(rat \<Rightarrow> string) \<Rightarrow> (string \<Rightarrow> rat option) \<Rightarrow> pydict \<Rightarrow> pydict \<Rightarrow> sdk \<Rightarrow> sdk" where
  "register_replacement fr fromiso replacement selected s =
     (case dgetn replacement ''occurred_at'' of
        PStr stamp \<Rightarrow>
          (case fromiso (concat (map (\<lambda>c. if c = CHR ''Z'' then ''+00:00'' else [c]) stamp)) of
             None \<Rightarrow> s
           | Some t \<Rightarrow> s\<lparr>diagnostics := snd (register_failure fr selected (event_id_of replacement)
               (Fin (t * 1000)) (diagnostics s))\<rparr>)
      | _ \<Rightarrow> s)"

definition reconcile_diagnostic ::
  "(rat \<Rightarrow> string) \<Rightarrow> (string \<Rightarrow> rat option) \<Rightarrow> clock \<Rightarrow> pydict option \<Rightarrow> pydict option \<Rightarrow> sdk \<Rightarrow> bool \<times> sdk" where
  "reconcile_diagnostic fr fromiso now original replacement s =
     (case replacement of
        None \<Rightarrow> (False, release_diagnostic fr original s)
      | Some r \<Rightarrow>
          if is_type ''diagnostic_context'' r then
            (let payload = payload_of r in
             if \<not> is_recovery payload \<or> \<not> allows_recovery s then (False, release_diagnostic fr original s)
             else
               let n = sdk_event_bytes fr r; t = Fin (wall now * 1000);
                   (ok, d) = (case original of
                       Some e \<Rightarrow> if is_type ''diagnostic_context'' e
                         then replace_entry fr (event_id_of e) (event_id_of r) payload n t (diagnostics s)
                         else reserve fr (event_id_of r) payload n t (diagnostics s)
                     | None \<Rightarrow> reserve fr (event_id_of r) payload n t (diagnostics s))
               in (ok, s\<lparr>diagnostics := d\<rparr>))
          else
            (let s1 = release_diagnostic fr original s in
             (True, case (dgetn r ''context'', original) of
                 (PDict c, Some _) \<Rightarrow>
                   (case reference (dgetn c ''evidence_reference'') of
                      Some (PDict selected) \<Rightarrow> register_replacement fr fromiso r selected s1
                    | _ \<Rightarrow> s1)
               | _ \<Rightarrow> s1)))"

subsection \<open>Admission\<close>

definition high_priority_event :: "pydict \<Rightarrow> bool" where
  "high_priority_event e \<longleftrightarrow> is_type ''backend_exception'' e \<or>
     (case dgetn e ''payload'' of
        PDict p \<Rightarrow> dgetn p ''level'' \<in> {PStr ''error'', PStr ''critical''} \<or>
          (is_type ''request_event'' e \<and> (case dgetn p ''response_status'' of PInt n \<Rightarrow> 500 \<le> n | _ \<Rightarrow> False))
      | _ \<Rightarrow> False)"

definition count_drop :: "sdk \<Rightarrow> sdk" where
  "count_drop s = s\<lparr>pressure_drops := min (2 ^ 63 - 1) (pressure_drops s + 1)\<rparr>"

definition may_prepare_event :: "bool \<Rightarrow> int \<Rightarrow> int \<Rightarrow> sdk \<Rightarrow> bool \<times> sdk" where
  "may_prepare_event high max_events max_bytes s =
     (if int (length (buffer s)) < max_events \<and> buffer_bytes s < max_bytes then (True, s)
      else if high \<and> 0 < pending_low_priority s then (True, s)
      else (False, count_drop s))"

definition evict_index :: "sdk \<Rightarrow> nat option" where
  "evict_index s = find (\<lambda>i. \<not> high_priority_event (snd (buffer s ! i))) [nat (inflight_count s)..<length (buffer s)]"

definition evict_low_priority :: "(rat \<Rightarrow> string) \<Rightarrow> sdk \<Rightarrow> (bool \<times> sdk) option" where
  "evict_low_priority fr s =
     (case evict_index s of
        None \<Rightarrow> Some (False, s)
      | Some i \<Rightarrow>
          (let (oid, evicted) = buffer s ! i;
               s1 = s\<lparr>buffer := delete_nth i (buffer s),
                      hook_bypass := removeAll oid (hook_bypass s)\<rparr>;
               s2 = release_diagnostic fr (Some evicted) s1
           in case map_of (buffer_sizes s2) oid of
                None \<Rightarrow> None
              | Some n \<Rightarrow> Some (True, count_drop (s2\<lparr>buffer_bytes := buffer_bytes s2 - n,
                  buffer_sizes := AList.delete oid (buffer_sizes s2),
                  pending_low_priority := pending_low_priority s2 - 1\<rparr>))))"

definition too_full :: "int \<Rightarrow> int \<Rightarrow> int \<Rightarrow> sdk \<Rightarrow> bool" where
  "too_full bytes max_events max_bytes s \<longleftrightarrow>
     max_events \<le> int (length (buffer s)) \<or> max_bytes < buffer_bytes s + bytes"

lemma find_SomeD: "find P xs = Some x \<Longrightarrow> x \<in> set xs \<and> P x"
  by (induction xs) (auto split: if_splits)

lemma evict_index_less: "evict_index s = Some i \<Longrightarrow> nat (inflight_count s) \<le> i \<and> i < length (buffer s) \<and>
   \<not> high_priority_event (snd (buffer s ! i))"
  unfolding evict_index_def by (drule find_SomeD) auto

lemma release_diagnostic_buffer [simp]: "buffer (release_diagnostic fr e s) = buffer s"
  by (simp add: release_diagnostic_def split: option.splits)

lemma evict_shrinks: "evict_low_priority fr s = Some (True, s') \<Longrightarrow> length (buffer s') < length (buffer s)"
  by (auto simp: evict_low_priority_def Let_def count_drop_def delete_nth_def split: option.splits prod.splits dest!: evict_index_less)

text \<open>The while loop of \<open>offer_protected_event\<close>; it ends because every eviction shortens the buffer.\<close>

function make_room :: "(rat \<Rightarrow> string) \<Rightarrow> int \<Rightarrow> int \<Rightarrow> int \<Rightarrow> bool \<Rightarrow> sdk \<Rightarrow> (bool \<times> sdk) option" where
  "make_room fr bytes max_events max_bytes high s =
     (if \<not> too_full bytes max_events max_bytes s then Some (True, s)
      else if \<not> high then Some (False, s\<lparr>pressure_drops := pressure_drops s + 1\<rparr>)
      else (case evict_low_priority fr s of
          None \<Rightarrow> None
        | Some (False, s') \<Rightarrow> Some (False, s'\<lparr>pressure_drops := pressure_drops s' + 1\<rparr>)
        | Some (True, s') \<Rightarrow> make_room fr bytes max_events max_bytes high s'))"
  by pat_completeness auto
termination by (relation "measure (\<lambda>(fr, n, e, b, h, s). length (buffer s))") (auto dest: evict_shrinks)

declare make_room.simps [simp del]

definition insert_at :: "nat \<Rightarrow> 'a \<Rightarrow> 'a list \<Rightarrow> 'a list" where
  "insert_at i x xs = take i xs @ x # drop i xs"

definition place_event :: "nat \<Rightarrow> pydict \<Rightarrow> bool \<Rightarrow> sdk \<Rightarrow> sdk" where
  "place_event oid protected under_pressure s =
     (if high_priority_event protected \<and> (\<not> is_type ''request_event'' protected \<or> under_pressure) then
        (let insertion = nat (inflight_count s);
             insertion = insertion + length (takeWhile (\<lambda>x. high_priority_event (snd x)) (drop insertion (buffer s)))
         in s\<lparr>buffer := insert_at insertion (oid, protected) (buffer s)\<rparr>)
      else s\<lparr>buffer := buffer s @ [(oid, protected)], pending_low_priority := pending_low_priority s + 1\<rparr>)"

definition offer_protected_event ::
  "(rat \<Rightarrow> string) \<Rightarrow> (string \<Rightarrow> rat option) \<Rightarrow> clock \<Rightarrow> nat \<Rightarrow> pydict \<Rightarrow> int \<Rightarrow> int \<Rightarrow> int \<Rightarrow> sdk \<Rightarrow>
   (bool \<times> sdk) option" where
  "offer_protected_event fr fromiso now oid protected bytes max_events max_bytes s =
     (if max_bytes < bytes then Some (False, s\<lparr>pressure_drops := pressure_drops s + 1\<rparr>)
      else
        let high = high_priority_event protected; under_pressure = too_full bytes max_events max_bytes s in
        case make_room fr bytes max_events max_bytes high s of
          None \<Rightarrow> None
        | Some (False, s1) \<Rightarrow> Some (False, s1)
        | Some (True, s1) \<Rightarrow>
            (case reconcile_diagnostic fr fromiso now None (Some protected) s1 of
               (False, s2) \<Rightarrow> Some (False, s2)
             | (True, s2) \<Rightarrow>
                 let s3 = place_event oid protected under_pressure s2;
                     s4 = s3\<lparr>buffer_bytes := buffer_bytes s3 + bytes,
                             buffer_sizes := AList.update oid bytes (buffer_sizes s3)\<rparr>
                 in Some (True, schedule_flush now
                      (if batch_size s4 \<le> int (length (buffer s4)) then Some 0 else None) s4)))"

end
