(* ===== verification/Flush.thy ===== *)
theory Flush
  imports Queue
begin

text \<open>
  \<open>flush_delivery.py\<close>, \<open>flush_aggregates.py\<close> and \<open>delivery_hooks.py\<close>: one flush as the sections it
  takes under the SDK's lock. Between two sections other threads may capture events or reset the SDK,
  so each section gets the state it finds; what the flushing thread carries from one section to the
  next (its generation, its batch) is an argument.

  The network, the hook and the redaction are parameters: a section gets the answer they gave. A new
  event object gets a fresh identity from \<open>new_id\<close>. The outer \<open>None\<close> is an escaping exception
  (KeyError, IndexError or a ValueError of the wire sizing).
\<close>

subsection \<open>Summaries of suppressed events\<close>

text \<open>
  \<open>base\<close> is \<open>core._base_event\<close> and \<open>protect\<close> is \<open>core._protect_event\<close>. Identities are given later, when
  the summaries are offered.
\<close>

fun prepare_aggregates ::
  "(rat \<Rightarrow> string) \<Rightarrow> (string \<Rightarrow> pydict \<Rightarrow> pydict) \<Rightarrow> (pydict \<Rightarrow> pydict option) \<Rightarrow> pyval list \<Rightarrow> (pydict \<times> int) list" where
  "prepare_aggregates fr base protect [] = []"
| "prepare_aggregates fr base protect (a # aggregates) =
     (let rest = prepare_aggregates fr base protect aggregates in
      case a of
        PDict d \<Rightarrow>
          (case (dgetn d ''event_type'', dgetn d ''payload'') of
             (PStr t, PDict p) \<Rightarrow>
               (case protect (fold (\<lambda>(k, v). AList.update k v) (base t p) d) of
                  None \<Rightarrow> rest
                | Some e \<Rightarrow> (e, sdk_event_bytes fr e) # rest)
           | _ \<Rightarrow> rest)
      | _ \<Rightarrow> rest)"

definition pressure_payload :: "int \<Rightarrow> pydict" where
  "pressure_payload n = [(PStr ''message'', PStr (dec_int n @ '' SDK events suppressed due to queue pressure'')),
     (PStr ''level'', PStr ''warning''),
     (PStr ''attributes'', PDict [(PStr ''suppressed_count'', PInt n), (PStr ''reason'', PStr ''queue_pressure'')])]"

definition prepare_pressure ::
  "(rat \<Rightarrow> string) \<Rightarrow> (string \<Rightarrow> pydict \<Rightarrow> pydict) \<Rightarrow> (pydict \<Rightarrow> pydict option) \<Rightarrow> int \<Rightarrow> (pydict \<times> int) option" where
  "prepare_pressure fr base protect n =
     (if n = 0 then None
      else map_option (\<lambda>e. (e, sdk_event_bytes fr e)) (protect (base ''log_event'' (pressure_payload n))))"

subsection \<open>Starting a flush\<close>

definition flush_start ::
  "(rat \<Rightarrow> string) \<Rightarrow> int \<Rightarrow> clock \<Rightarrow> sdk \<Rightarrow> (nat \<times> pyval list \<times> int) option \<times> sdk" where
  "flush_start to_iso max_events now s =
     (if \<not> enabled s \<or> \<not> has_transport s \<or> sending s then (None, s)
      else
        let s1 = s\<lparr>timer := None\<rparr> in
        if wall now < retry_after s1 then (None, schedule_flush now (Some (retry_after s1 - wall now)) s1)
        else
          let (aggregates, tracked) = drain_aggregates to_iso (wall now) (suppression s1);
              pressure_count = (if pressure_drops s1 \<noteq> 0 \<and> 60 \<le> wall now - last_pressure_report_at s1
                  \<and> int (length (buffer s1)) < max_events then pressure_drops s1 else 0)
          in (Some (generation s1, aggregates, pressure_count),
              s1\<lparr>sending := True, suppression := tracked\<rparr>))"

text \<open>Every abandoned section ends the same way.\<close>

definition reschedule :: "clock \<Rightarrow> sdk \<Rightarrow> sdk" where
  "reschedule now s = (if buffer s \<noteq> [] then schedule_flush now None s else s)"

fun offer_all ::
  "(rat \<Rightarrow> string) \<Rightarrow> (string \<Rightarrow> rat option) \<Rightarrow> clock \<Rightarrow> int \<Rightarrow> int \<Rightarrow> (nat \<times> pydict \<times> int) list \<Rightarrow> sdk \<Rightarrow> sdk option" where
  "offer_all fr fromiso now max_events max_bytes [] s = Some s"
| "offer_all fr fromiso now max_events max_bytes ((oid, e, n) # offers) s =
     (case offer_protected_event fr fromiso now oid e n max_events max_bytes s of
        None \<Rightarrow> None
      | Some (_, s') \<Rightarrow> offer_all fr fromiso now max_events max_bytes offers s')"

definition offer_pressure ::
  "(rat \<Rightarrow> string) \<Rightarrow> (string \<Rightarrow> rat option) \<Rightarrow> clock \<Rightarrow> rat \<Rightarrow> int \<Rightarrow> int \<Rightarrow> int \<Rightarrow> (nat \<times> pydict \<times> int) option \<Rightarrow>
   sdk \<Rightarrow> sdk option" where
  "offer_pressure fr fromiso now started max_events max_bytes pressure_count pressure s =
     (case pressure of
        None \<Rightarrow> Some s
      | Some (oid, e, n) \<Rightarrow>
          if int (length (buffer s)) < max_events \<and> buffer_bytes s + n \<le> max_bytes then
            (case offer_protected_event fr fromiso now oid e n max_events max_bytes s of
               None \<Rightarrow> None
             | Some (False, s') \<Rightarrow> Some s'
             | Some (True, s') \<Rightarrow> Some (s'\<lparr>pressure_drops := max 0 (pressure_drops s' - pressure_count),
                 last_pressure_report_at := started\<rparr>))
          else Some s)"

definition flush_take ::
  "(rat \<Rightarrow> string) \<Rightarrow> (string \<Rightarrow> rat option) \<Rightarrow> clock \<Rightarrow> rat \<Rightarrow> int \<Rightarrow> int \<Rightarrow> nat \<Rightarrow> (nat \<times> pydict \<times> int) list \<Rightarrow>
   (nat \<times> pydict \<times> int) option \<Rightarrow> int \<Rightarrow> sdk \<Rightarrow> ((nat \<times> pydict) list option \<times> sdk) option" where
  "flush_take fr fromiso now started max_events max_bytes gen aggregates pressure pressure_count s =
     (if gen \<noteq> generation s then Some (None, reschedule now (s\<lparr>sending := False, inflight_count := 0\<rparr>))
      else (case offer_all fr fromiso now max_events max_bytes aggregates s of
          None \<Rightarrow> None
        | Some s1 \<Rightarrow>
            (case offer_pressure fr fromiso now started max_events max_bytes pressure_count pressure s1 of
               None \<Rightarrow> None
             | Some s2 \<Rightarrow>
                 if buffer s2 = [] then Some (None, schedule_pressure_report now (s2\<lparr>sending := False\<rparr>))
                 else Some (Some (buffer s2),
                   s2\<lparr>inflight_count := int (length (buffer s2)), pending_low_priority := 0\<rparr>))))"

subsection \<open>Finalizing the batch\<close>

definition replacement_allowed :: "(string \<Rightarrow> bool) \<Rightarrow> sdk \<Rightarrow> pydict \<Rightarrow> bool option" where
  "replacement_allowed br s e =
     (let payload = payload_of e in
      if is_type ''log_event'' e then
        (case dgetn payload ''level'' of
           PStr level \<Rightarrow> log_level_eligible (enabled s) (log_level s) (policy s) level | _ \<Rightarrow> None)
      else if is_type ''request_event'' e then
        should_capture_request_event br (policy s) (Some payload) (Some payload)
      else if is_type ''probe_event'' e then
        Some (capture_probe_events (policy s) = ''standalone_when_activated'')
      else if is_type ''diagnostic_context'' e then Some (is_recovery payload \<and> allows_recovery s)
      else Some True)"

text \<open>
  What is sent in place of an event, outside the lock: \<open>hooked\<close> is what the hook and the protection made
  of it; every exception withholds it.
\<close>

definition finalize_candidate :: "(rat \<Rightarrow> string) \<Rightarrow> bool \<Rightarrow> pydict option \<Rightarrow> (pydict \<times> int) option" where
  "finalize_candidate fr over_http hooked =
     (case (if over_http then (case fit_event fr hooked of Inr (Some (PDict r)) \<Rightarrow> Some r | _ \<Rightarrow> None) else hooked) of
        None \<Rightarrow> None
      | Some r \<Rightarrow> map_option (\<lambda>n. (r, int n)) (json_bytes True True fr (PDict r)))"

text \<open>
  One turn of the loop of \<open>finalize_batch\<close> under the lock: the new retained index, the event that stands
  in the batch now and the new state.
\<close>

definition finalize_one ::
  "(rat \<Rightarrow> string) \<Rightarrow> (string \<Rightarrow> rat option) \<Rightarrow> (string \<Rightarrow> bool) \<Rightarrow> clock \<Rightarrow> int \<Rightarrow> nat \<Rightarrow> nat \<times> pydict \<Rightarrow>
   (nat \<times> pydict \<times> int) option \<Rightarrow> sdk \<Rightarrow> (nat \<times> (nat \<times> pydict) option \<times> sdk) option" where
  "finalize_one fr fromiso br now max_bytes retained original replacement s =
     (case map_of (buffer_sizes s) (fst original) of
        None \<Rightarrow> None
      | Some original_bytes \<Rightarrow>
          (case (case replacement of None \<Rightarrow> Some False | Some (_, r, _) \<Rightarrow> replacement_allowed br s r) of
             None \<Rightarrow> None
           | Some allowed \<Rightarrow>
               let replacement_bytes = (case replacement of None \<Rightarrow> 0 | Some (_, _, n) \<Rightarrow> n);
                   fits = buffer_bytes s - original_bytes + replacement_bytes \<le> max_bytes;
                   (agreed, s1) = (if allowed \<and> fits
                     then reconcile_diagnostic fr fromiso now (Some (snd original))
                            (map_option (\<lambda>(_, r, _). r) replacement) s
                     else (allowed, s))
               in if length (buffer s1) \<le> retained then None
                  else (case (agreed \<and> fits, replacement) of
                     (True, Some (oid, r, n)) \<Rightarrow>
                       let bypass = (if fst original \<in> set (hook_bypass s1) then oid # hook_bypass s1 else hook_bypass s1)
                       in Some (Suc retained, Some (oid, r),
                         s1\<lparr>buffer := (buffer s1)[retained := (oid, r)],
                            buffer_sizes := AList.update oid n (AList.delete (fst original) (buffer_sizes s1)),
                            buffer_bytes := buffer_bytes s1 + (n - original_bytes),
                            hook_bypass := removeAll (fst original) bypass\<rparr>)
                   | _ \<Rightarrow>
                       let s2 = snd (reconcile_diagnostic fr fromiso now (Some (snd original)) None s1);
                           s3 = (if agreed \<and> \<not> fits then s2\<lparr>pressure_drops := pressure_drops s2 + 1\<rparr> else s2)
                       in Some (retained, None,
                         s3\<lparr>buffer := delete_nth retained (buffer s3),
                            buffer_sizes := AList.delete (fst original) (buffer_sizes s3),
                            buffer_bytes := buffer_bytes s3 - original_bytes,
                            hook_bypass := removeAll (fst original) (hook_bypass s3),
                            inflight_count := inflight_count s3 - 1\<rparr>))))"

subsection \<open>Splitting off the wire batch\<close>

definition wire_batch :: "(rat \<Rightarrow> string) \<Rightarrow> bool \<Rightarrow> (nat \<times> pydict) list \<Rightarrow> (nat \<times> pydict) list option" where
  "wire_batch fr over_http finalized =
     (if over_http then (case wire_prefix fr (map (\<lambda>(_, e). PDict e) finalized) of
          Inl _ \<Rightarrow> None | Inr selected \<Rightarrow> Some (take (length selected) finalized))
      else Some finalized)"

text \<open>\<open>finalized\<close> is None when the finalizing loop met a new generation.\<close>

definition flush_split ::
  "(rat \<Rightarrow> string) \<Rightarrow> clock \<Rightarrow> nat \<Rightarrow> (nat \<times> pydict) list option \<Rightarrow> sdk \<Rightarrow>
   ((nat \<times> pydict) list option \<times> sdk) option" where
  "flush_split fr now gen finalized s =
     (case (case finalized of None \<Rightarrow> Some [] | Some f \<Rightarrow> wire_batch fr (http s) f) of
        None \<Rightarrow> None
      | Some batch \<Rightarrow>
          if gen \<noteq> generation s \<or> finalized = None
          then Some (None, reschedule now (s\<lparr>sending := False, inflight_count := 0\<rparr>))
          else
            let s1 = s\<lparr>hook_bypass := map fst (drop (length batch) (the finalized)) @ hook_bypass s,
                       inflight_count := int (length batch)\<rparr>
            in if batch = [] then Some (None, reschedule now (s1\<lparr>sending := False\<rparr>)) else Some (Some batch, s1))"

subsection \<open>The answer\<close>

fun downgrade_rejections ::
  "(rat \<Rightarrow> string) \<Rightarrow> (nat \<Rightarrow> nat) \<Rightarrow> (nat \<times> pydict) list \<Rightarrow> (int \<times> string) list \<Rightarrow> sdk \<Rightarrow>
   ((nat \<times> pydict) list \<times> sdk) option" where
  "downgrade_rejections fr new_id batch [] s = Some ([], s)"
| "downgrade_rejections fr new_id batch ((index, reason) # errors) s =
     (if index < 0 \<or> int (length batch) \<le> index then None
      else
        let (oid, original) = batch ! nat index in
        if reason \<noteq> ''invalid_event''
           \<or> \<not> (is_type ''backend_exception'' original \<or> is_type ''frontend_exception'' original)
        then downgrade_rejections fr new_id batch errors s
        else (case filter_evidence s original of
            None \<Rightarrow> downgrade_rejections fr new_id batch errors s
          | Some reduced \<Rightarrow>
              if reduced = original then downgrade_rejections fr new_id batch errors s
              else (case map_of (buffer_sizes s) oid of
                  None \<Rightarrow> None
                | Some n \<Rightarrow>
                    let m = sdk_event_bytes fr reduced;
                        s1 = s\<lparr>buffer_bytes := buffer_bytes s + (m - n),
                               buffer_sizes := AList.update (new_id (nat index)) m (AList.delete oid (buffer_sizes s)),
                               hook_bypass := new_id (nat index) # hook_bypass s\<rparr>
                    in map_option (\<lambda>(rs, s'). ((new_id (nat index), reduced) # rs, s'))
                         (downgrade_rejections fr new_id batch errors s1))))"

definition back_off :: "clock \<Rightarrow> TransportResponse \<Rightarrow> sdk \<Rightarrow> sdk" where
  "back_off now response s =
     (let ms = of_int (bounded_retry_after_ms (retry_after_ms response) 1000) in
      schedule_flush now (Some (ms / 1000)) (s\<lparr>retry_after := wall now + ms / 1000\<rparr>))"

definition fail_once :: "sdk \<Rightarrow> sdk" where
  "fail_once s = s\<lparr>consecutive_failures := consecutive_failures s + 1\<rparr>"

definition acknowledge ::
  "(rat \<Rightarrow> string) \<Rightarrow> (nat \<Rightarrow> nat) \<Rightarrow> clock \<Rightarrow> (nat \<times> pydict) list \<Rightarrow> TransportResponse \<Rightarrow> bool \<Rightarrow> sdk \<Rightarrow>
   decision \<Rightarrow> sdk option" where
  "acknowledge fr new_id now batch response lost s answer =
     (case answer of
        ProtocolFailure _ \<Rightarrow> Some (back_off now response (fail_once s))
      | Legacy \<Rightarrow> Some (s\<lparr>buffer := drop (length batch) (buffer s), retry_after := 0,
          last_event_at := Some (wall now * 1000), consecutive_failures := 0\<rparr>)
      | Acknowledged accepted retryable terminal \<Rightarrow>
          (case (if lost then downgrade_rejections fr new_id batch terminal s else Some ([], s)) of
             None \<Rightarrow> None
           | Some (downgraded, s1) \<Rightarrow>
               let s2 = s1\<lparr>buffer := map (\<lambda>i. batch ! nat i) (filter (\<lambda>i. 0 \<le> i \<and> i < int (length batch)) retryable)
                     @ downgraded @ drop (length batch) (buffer s)\<rparr>;
                   s3 = (if 0 < accepted then s2\<lparr>last_event_at := Some (wall now * 1000)\<rparr> else s2)
               in Some (if retryable \<noteq> [] \<or> downgraded \<noteq> [] then back_off now response (fail_once s3)
                  else s3\<lparr>retry_after := 0, consecutive_failures := (if 0 < accepted then 0 else 3)\<rparr>)))"

definition handle_response ::
  "(rat \<Rightarrow> string) \<Rightarrow> (nat \<Rightarrow> nat) \<Rightarrow> clock \<Rightarrow> (nat \<times> pydict) list \<Rightarrow> TransportResponse option \<Rightarrow> sdk \<Rightarrow> sdk option" where
  "handle_response fr new_id now batch response s =
     (case response of
        None \<Rightarrow> Some (schedule_flush now None (fail_once s))
      | Some r \<Rightarrow>
          if 200 \<le> status_code r \<and> status_code r < 300 then
            (let answer = decide_acknowledgement (body r) (int (length batch)) (http s);
                 (lost, s1) = observe_evidence (body r) (http s)
                   (case answer of Acknowledged _ _ _ \<Rightarrow> True | _ \<Rightarrow> False) s
             in acknowledge fr new_id now batch r lost s1 answer)
          else
            let s1 = fail_once s in
            if status_code r = 429 \<or> (500 \<le> status_code r \<and> retry_after_ms r \<noteq> PNone)
            then Some (back_off now r s1)
            else if 400 \<le> status_code r \<and> status_code r < 500
            then Some (s1\<lparr>buffer := drop (length batch) (buffer s1), retry_after := 0\<rparr>)
            else Some (schedule_flush now None s1))"

text \<open>The \<open>finally\<close> block: the books are made up again from the buffer.\<close>

definition settle :: "(rat \<Rightarrow> string) \<Rightarrow> clock \<Rightarrow> bool \<Rightarrow> sdk \<Rightarrow> sdk option" where
  "settle fr now delivered s =
     (if \<not> (\<forall>x \<in> set (buffer s). map_of (buffer_sizes s) (fst x) \<noteq> None) then None
      else
        let ids = map fst (buffer s);
            sizes = map (\<lambda>i. (i, the (map_of (buffer_sizes s) i))) (remdups ids);
            s1 = s\<lparr>hook_bypass := filter (\<lambda>i. i \<in> set ids) (hook_bypass s),
                   diagnostics := retain fr
                     (map (\<lambda>x. event_id_of (snd x)) (filter (\<lambda>x. is_type ''diagnostic_context'' (snd x)) (buffer s)))
                     (diagnostics s),
                   buffer_sizes := sizes, buffer_bytes := total (\<lambda>n. n) sizes,
                   pending_low_priority := int (length (filter (\<lambda>x. \<not> high_priority_event (snd x)) (buffer s)))\<rparr>
        in Some (if buffer s1 \<noteq> [] \<and> timer s1 = None \<and> retry_after s1 \<le> wall now
            then schedule_flush now (if http s1 \<and> delivered \<and> consecutive_failures s1 = 0 then Some 0 else None) s1
            else if buffer s1 = [] \<and> timer s1 = None then schedule_pressure_report now s1
            else s1))"

definition flush_respond ::
  "(rat \<Rightarrow> string) \<Rightarrow> (nat \<Rightarrow> nat) \<Rightarrow> clock \<Rightarrow> nat \<Rightarrow> (nat \<times> pydict) list \<Rightarrow> TransportResponse option \<Rightarrow> sdk \<Rightarrow>
   sdk option" where
  "flush_respond fr new_id now gen batch response s =
     (let s1 = s\<lparr>sending := False, inflight_count := 0\<rparr> in
      if gen \<noteq> generation s1 then Some (reschedule now s1)
      else (case handle_response fr new_id now batch response s1 of
          None \<Rightarrow> None
        | Some s2 \<Rightarrow> settle fr now (case response of None \<Rightarrow> False
            | Some r \<Rightarrow> 200 \<le> status_code r \<and> status_code r < 300) s2))"

subsection \<open>Reset and configuration\<close>

record init_options =
  opt_project_token :: string
  opt_wanted :: bool
  opt_batch :: int
  opt_interval :: rat
  opt_level :: string
  opt_fetches :: bool
  opt_evidence_capabilities :: pyval
  opt_exception_evidence :: pyval
  opt_recovery_observations :: pyval

text \<open>The queue part of \<open>core.dispose\<close>: the buffer stays, nothing is left to send it.\<close>

definition dispose_queue :: "sdk \<Rightarrow> sdk" where
  "dispose_queue s = s\<lparr>features := parse_features PNone, diagnostics := empty_budget, hook_bypass := [], timer := None\<rparr>"

text \<open>
  The queue part of \<open>core.init\<close>: a new generation with an empty queue. A flush under way goes on, and
  so \<open>sending\<close> and \<open>inflight_count\<close> stay. Without a transport of the application's own (\<open>http\<close>) a
  disabled SDK gets no transport.
\<close>

definition init_queue :: "init_options \<Rightarrow> sdk \<Rightarrow> sdk" where
  "init_queue opt s =
     (let on = (opt_wanted opt \<and> str_strip (opt_project_token opt) \<noteq> []) in
      (dispose_queue s)\<lparr>enabled := on, batch_size := max 1 (opt_batch opt), flush_interval := max (1 / 10) (opt_interval opt),
        log_level := normalize_level (opt_level opt), buffer := [], buffer_sizes := [], buffer_bytes := 0,
        pending_low_priority := 0, generation := generation s + 1,
        features := parse_features (opt_evidence_capabilities opt),
        capture_exception_evidence := (opt_exception_evidence opt = PBool True),
        capture_recovery_observations := (opt_recovery_observations opt = PBool True),
        diagnostics := empty_budget, hook_bypass := [], suppression := [], retry_after := 0, last_event_at := None,
        consecutive_failures := 0,
        policy := (if opt_fetches opt then MINIMAL_CAPTURE_POLICY else BALANCED_CAPTURE_POLICY),
        has_transport := \<not> http s \<or> on\<rparr>)"

definition status :: "clock \<Rightarrow> sdk \<Rightarrow> string" where
  "status now s =
     (if \<not> enabled s then ''disconnected''
      else if 3 \<le> consecutive_failures s then ''disconnected''
      else if 0 < retry_after s \<and> wall now < retry_after s then ''degraded''
      else ''healthy'')"

end
