(* ===== verification/Budget_Facts.thy ===== *)
theory Budget_Facts
  imports Diagnostic_Budget
begin

text \<open>
  Correctness of the diagnostic budget: the books balance after every operation, and no sequence of
  operations takes the account over its limits. The running totals are ledgers: the costs of the
  pending entries, the costs of the windows, and the number of pending entries of one window.
\<close>

interpretation costs: ledger map_of AList.update AList.delete dict_ok p_cost "total p_cost"
  by (rule alist_ledger)

interpretation charges: ledger map_of AList.update AList.delete dict_ok w_cost "total w_cost"
  by (rule alist_ledger)

definition waiting :: "string \<Rightarrow> (string \<times> Pending) list \<Rightarrow> int" where
  "waiting k d = total (\<lambda>e. if p_scope e = k then 1 else 0) d"

interpretation waiting: ledger map_of AList.update AList.delete dict_ok
  "\<lambda>e. if p_scope e = k then 1 else 0" "waiting k" for k
  unfolding waiting_def by (rule alist_ledger)

subsection \<open>The size of a window's record\<close>

lemma json_strings: "\<exists>ts. json_list True True fr (map PStr xs) = Some ts"
  by (induction xs) auto

lemma cost_shape:
  "cost_of fr key (w\<lparr>w_pending := n, ambiguous := a\<rparr>) =
     cost_of fr key (w\<lparr>w_pending := 0, ambiguous := True\<rparr>) - 5 + (if a then 4 else 5) + int (length (dec_int n))"
proof -
  obtain ts where ts: "json_list True True fr (map PStr (sort (attempts w))) = Some ts"
    using json_strings by blast
  have "length (dec_int 0) = 1" by (simp add: dec_int_def dec_nat.simps)
  with ts show ?thesis
    by (cases "failure_at w"; cases "failure_id w") (simp_all add: cost_of_def dumps_def opt_val_def)
qed

lemma cost_mono:
  assumes "0 \<le> n" "n \<le> w_pending w" "ambiguous w \<longrightarrow> a"
  shows "cost_of fr key (w\<lparr>w_pending := n, ambiguous := a\<rparr>) \<le> cost_of fr key w"
proof -
  have "int (length (dec_int n)) \<le> int (length (dec_int (w_pending w)))"
    using length_dec_int_mono [OF assms(1,2)] by simp
  then show ?thesis
    using cost_shape [where fr = fr and key = key and w = w and n = n and a = a]
      cost_shape [where fr = fr and key = key and w = w and n = "w_pending w" and a = "ambiguous w"] assms(3)
    by (auto split: if_splits)
qed

lemma cost_of_nonneg: "0 \<le> cost_of fr key w"
  by (simp add: cost_of_def)

text \<open>Reading a window's own cost field does not change what it costs.\<close>

lemma cost_of_recost [simp]: "cost_of fr key (w\<lparr>w_cost := c\<rparr>) = cost_of fr key w"
  by (simp add: cost_of_def)

lemma recost_simps [simp]:
  "w_cost (recost fr k w) = cost_of fr k w" "w_pending (recost fr k w) = w_pending w"
  "observations (recost fr k w) = observations w" "attempts (recost fr k w) = attempts w"
  "ambiguous (recost fr k w) = ambiguous w" "cost_of fr k (recost fr k w) = cost_of fr k w"
  "failure_id (recost fr k w) = failure_id w" "failure_at (recost fr k w) = failure_at w"
  "starts (recost fr k w) = starts w" "resource (recost fr k w) = resource w"
  by (simp_all add: recost_def)

subsection \<open>The invariant\<close>

definition window_ok :: "(rat \<Rightarrow> string) \<Rightarrow> string \<Rightarrow> Window \<Rightarrow> bool" where
  "window_ok fr k w \<longleftrightarrow> w_cost w = cost_of fr k w \<and> observations w \<le> 20 \<and>
     distinct (attempts w) \<and> length (attempts w) \<le> 5"

definition entry_ok :: "string \<Rightarrow> Pending \<Rightarrow> bool" where
  "entry_ok i e \<longleftrightarrow> 0 \<le> p_size e \<and>
     p_cost e = p_size e + int (length i) + int (length (p_scope e)) + 64"

definition books :: "(rat \<Rightarrow> string) \<Rightarrow> budget \<Rightarrow> bool" where
  "books fr b \<longleftrightarrow> dict_ok (windows b) \<and> dict_ok (pending b) \<and> held b = total p_cost (pending b) \<and>
     (\<forall>k w. map_of (windows b) k = Some w \<longrightarrow> window_ok fr k w \<and> w_pending w = waiting k (pending b)) \<and>
     (\<forall>i e. map_of (pending b) i = Some e \<longrightarrow> entry_ok i e \<and> map_of (windows b) (p_scope e) \<noteq> None)"

definition limits :: "budget \<Rightarrow> bool" where
  "limits b \<longleftrightarrow> accounted_bytes b \<le> 65536 \<and> length (windows b) \<le> 50"

definition budget_ok :: "(rat \<Rightarrow> string) \<Rightarrow> budget \<Rightarrow> bool" where
  "budget_ok fr b \<longleftrightarrow> books fr b \<and> limits b"

lemma booksD:
  assumes "books fr b"
  shows "dict_ok (windows b)" "dict_ok (pending b)" "held b = total p_cost (pending b)"
    "map_of (windows b) k = Some w \<Longrightarrow> window_ok fr k w"
    "map_of (windows b) k = Some w \<Longrightarrow> w_pending w = waiting k (pending b)"
    "map_of (pending b) i = Some e \<Longrightarrow> entry_ok i e"
    "map_of (pending b) i = Some e \<Longrightarrow> \<exists>w. map_of (windows b) (p_scope e) = Some w"
  using assms by (auto simp: books_def)

lemma waiting_nonneg: "0 \<le> waiting k d"
  unfolding waiting_def by (rule total_nonneg) auto

lemma waiting_none:
  assumes "books fr b" "map_of (windows b) k = None"
  shows "waiting k (pending b) = 0"
proof -
  have "\<forall>(i, e) \<in> set (pending b). p_scope e \<noteq> k"
    using assms booksD(2,7) [OF assms(1)] by fastforce
  then have "(if p_scope e = k then 1 else 0) = (0::int)" if "e \<in> snd ` set (pending b)" for e
    using that by auto
  then show ?thesis unfolding waiting_def by (rule total_zero)
qed

lemma waiting_pos:
  assumes "dict_ok d" "map_of d i = Some e"
  shows "0 < waiting (p_scope e) d"
proof -
  have "waiting (p_scope e) (AList.delete i d) = waiting (p_scope e) d - 1"
    using waiting.sum_drop_old [OF assms, of "p_scope e"] by simp
  with waiting_nonneg [of "p_scope e" "AList.delete i d"] show ?thesis by simp
qed

subsection \<open>Single changes\<close>

lemma put_window_simps [simp]:
  "windows (put_window k w b) = AList.update k w (windows b)" "pending (put_window k w b) = pending b"
  "held (put_window k w b) = held b"
  by (simp_all add: put_window_def)

lemma accounted_put_window:
  "dict_ok (windows b) \<Longrightarrow>
   accounted_bytes (put_window k w b) = accounted_bytes b - cost_before (map_of (windows b) k) + w_cost w"
  by (auto simp: accounted_bytes_def cost_before_def charges.sum_put split: option.splits)

lemma length_put_window:
  "length (windows (put_window k w b)) =
     (if map_of (windows b) k = None then Suc (length (windows b)) else length (windows b))"
  by (auto simp: length_update map_of_eq_None_iff)

lemma books_put_window:
  assumes "books fr b" "window_ok fr k w" "w_pending w = waiting k (pending b)"
  shows "books fr (put_window k w b)"
  using assms unfolding books_def by (auto simp: update_conv' distinct_update)

lemma budget_ok_put_window:
  assumes "budget_ok fr b" "window_ok fr k w" "w_pending w = waiting k (pending b)"
    and "accounted_bytes b - cost_before (map_of (windows b) k) + w_cost w \<le> 65536"
    and "map_of (windows b) k = None \<Longrightarrow> length (windows b) < 50"
  shows "budget_ok fr (put_window k w b)"
proof -
  have "books fr b" "length (windows b) \<le> 50" using assms(1) by (auto simp: budget_ok_def limits_def)
  then show ?thesis
    unfolding budget_ok_def limits_def length_put_window
    using assms(2-) books_put_window [of fr b k w] accounted_put_window [OF booksD(1), of fr b k w] by auto
qed

lemma map_of_filter_Some:
  "dict_ok d \<Longrightarrow> map_of (filter P d) k = Some v \<longleftrightarrow> map_of d k = Some v \<and> P (k, v)"
  using map_of_eq_Some_iff [of d] map_of_eq_Some_iff [of "filter P d"] dict_ok_filter [of d P] by auto

lemma prune_ok:
  assumes "budget_ok fr b"
  shows "budget_ok fr (prune now b)"
proof -
  let ?P = "\<lambda>(k, w). w_pending w \<noteq> 0 \<or> now < starts w + 300000"
  have bk: "books fr b" and lim: "limits b" using assms by (auto simp: budget_ok_def)
  have w: "map_of (filter ?P (windows b)) k = Some w \<longleftrightarrow> map_of (windows b) k = Some w \<and> ?P (k, w)" for k w
    by (rule map_of_filter_Some [OF booksD(1) [OF bk]])
  have "\<exists>w. map_of (filter ?P (windows b)) (p_scope e) = Some w" if e: "map_of (pending b) i = Some e" for i e
  proof -
    from booksD(7) [OF bk e] obtain w where w': "map_of (windows b) (p_scope e) = Some w" by blast
    have "w_pending w = waiting (p_scope e) (pending b)" using booksD(5) [OF bk w'] .
    then have "0 < w_pending w" using waiting_pos [OF booksD(2) [OF bk] e] by simp
    then show ?thesis using w w' by auto
  qed
  then have "books fr (prune now b)"
    using bk unfolding books_def prune_def by (auto simp: w dict_ok_filter simp del: not_None_eq split: prod.splits)
  moreover have "total w_cost (filter ?P (windows b)) \<le> total w_cost (windows b)"
  proof (rule total_filter_le)
    fix w assume "w \<in> snd ` set (windows b)"
    then obtain k where "map_of (windows b) k = Some w" using booksD(1) [OF bk] by (force simp: map_of_eq_Some_iff)
    then have "w_cost w = cost_of fr k w" using booksD(4) [OF bk] by (auto simp: window_ok_def)
    then show "0 \<le> w_cost w" using cost_of_nonneg by simp
  qed
  moreover have "length (filter ?P (windows b)) \<le> length (windows b)" by simp
  ultimately show ?thesis using lim
    by (simp add: budget_ok_def limits_def accounted_bytes_def prune_def del: length_filter_le)
qed

subsection \<open>The operations\<close>

lemma window_ok_waiting:
  assumes "books fr b" "map_of (windows b) k = Some w"
  shows "0 \<le> w_pending w" "w_cost w = cost_of fr k w" "cost_before (map_of (windows b) k) = cost_of fr k w"
  using assms booksD(4,5) [OF assms] waiting_nonneg by (auto simp: window_ok_def cost_before_def)

lemma mark_ambiguous_ok:
  assumes "budget_ok fr b" "map_of (windows b) k = Some p"
  shows "budget_ok fr (put_window k (recost fr k (p\<lparr>ambiguous := True\<rparr>)) b)"
proof (rule budget_ok_put_window [OF assms(1)])
  have bk: "books fr b" using assms(1) by (simp add: budget_ok_def)
  show "window_ok fr k (recost fr k (p\<lparr>ambiguous := True\<rparr>))"
    using booksD(4) [OF bk assms(2)] by (simp add: window_ok_def)
  show "w_pending (recost fr k (p\<lparr>ambiguous := True\<rparr>)) = waiting k (pending b)"
    using booksD(5) [OF bk assms(2)] by simp
  have "cost_of fr k (p\<lparr>w_pending := w_pending p, ambiguous := True\<rparr>) \<le> cost_of fr k p"
    by (rule cost_mono) (simp_all add: window_ok_waiting [OF bk assms(2)])
  then show "accounted_bytes b - cost_before (map_of (windows b) k) + w_cost (recost fr k (p\<lparr>ambiguous := True\<rparr>)) \<le> 65536"
    using assms(1) by (simp add: window_ok_waiting(3) [OF bk assms(2)] budget_ok_def limits_def)
qed (use assms(2) in simp)

definition window_or_new :: "rat \<Rightarrow> Window option \<Rightarrow> Window" where
  "window_or_new now w = (case w of None \<Rightarrow> new_window now | Some p \<Rightarrow> p)"

lemma window_or_new_ok:
  assumes "books fr b"
  shows "w_pending (window_or_new now (map_of (windows b) k)) = waiting k (pending b)"
    "observations (window_or_new now (map_of (windows b) k)) \<le> 20"
    "distinct (attempts (window_or_new now (map_of (windows b) k)))"
    "length (attempts (window_or_new now (map_of (windows b) k))) \<le> 5"
  using booksD(4,5) [OF assms, of k] waiting_none [OF assms, of k]
  by (auto simp: window_or_new_def new_window_def window_ok_def split: option.splits)

lemma register_failure_ok:
  assumes "budget_ok fr b"
  shows "budget_ok fr (snd (register_failure fr payload event_id clock b))"
proof (cases clock)
  case (Fin now)
  let ?b = "prune now b" and ?k = "key_of fr payload"
  let ?prev = "map_of (windows ?b) ?k"
  have ok: "budget_ok fr ?b" using assms by (rule prune_ok)
  then have bk: "books fr ?b" by (simp add: budget_ok_def)
  note new = window_or_new_ok [OF bk, of now ?k]
  have "budget_ok fr (put_window ?k w ?b)"
    if w: "w = recost fr ?k ((window_or_new now ?prev)\<lparr>failure_id := i, failure_at := t\<rparr>)"
      and room: "accounted_bytes ?b - cost_before ?prev + w_cost w \<le> 65536" "?prev = None \<longrightarrow> length (windows ?b) < 50"
    for w i t
    by (rule budget_ok_put_window [OF ok]) (use new room w in \<open>simp_all add: window_ok_def\<close>)
  then show ?thesis
    using Fin ok mark_ambiguous_ok [OF ok]
    by (auto simp: register_failure_def Let_def window_or_new_def split: option.splits)
qed (use assms in \<open>simp_all add: register_failure_def\<close>)

lemma admit_ok:
  assumes "admit payload now v = Some w" "observations v \<le> 20" "distinct (attempts v)" "length (attempts v) \<le> 5"
  shows "w_pending w = w_pending v + 1" "observations w \<le> 20" "distinct (attempts w)" "length (attempts w) \<le> 5"
  using assms by (auto simp: admit_def Let_def List.insert_def split: if_splits pyval.splits)

lemma books_add:
  assumes "books fr b" "map_of (pending b) i = None" "window_ok fr k w" "w_pending w = waiting k (pending b) + 1"
    "entry_ok i e" "p_scope e = k"
  shows "books fr ((put_window k w b)\<lparr>pending := AList.update i e (pending b), held := held b + p_cost e\<rparr>)"
proof -
  have "waiting k' (AList.update i e (pending b)) = waiting k' (pending b) + (if k = k' then 1 else 0)" for k'
    using waiting.sum_put_new [OF booksD(2) [OF assms(1)] assms(2)] assms(6) by simp
  moreover have "total p_cost (AList.update i e (pending b)) = total p_cost (pending b) + p_cost e"
    using costs.sum_put_new [OF booksD(2) [OF assms(1)] assms(2)] .
  ultimately show ?thesis using assms unfolding books_def by (auto simp: update_conv' distinct_update)
qed

lemma reserve_ok:
  assumes "budget_ok fr b"
  shows "budget_ok fr (snd (reserve fr event_id payload bytes clock b))"
proof (cases "\<exists>now. clock = Fin now \<and> size_ok bytes \<and> map_of (pending b) event_id = None")
  case True
  then obtain now where c: "clock = Fin now" "size_ok bytes" "map_of (pending b) event_id = None" by blast
  let ?b = "prune now b" and ?k = "key_of fr payload"
  let ?prev = "map_of (windows ?b) ?k"
  have ok: "budget_ok fr ?b" using assms by (rule prune_ok)
  then have bk: "books fr ?b" by (simp add: budget_ok_def)
  have pend: "pending ?b = pending b" by (simp add: prune_def)
  note new = window_or_new_ok [OF bk, of now ?k]
  have "budget_ok fr ((put_window ?k (recost fr ?k v) ?b)\<lparr>pending := AList.update event_id e (pending ?b), held := held ?b + p_cost e\<rparr>)"
    if v: "admit payload now (window_or_new now ?prev) = Some v"
      and e: "p_scope e = ?k" "p_size e = bytes" "p_cost e = bytes + int (length event_id) + int (length ?k) + 64"
      and room: "accounted_bytes ?b - cost_before ?prev + cost_of fr ?k v + p_cost e \<le> 65536"
        "?prev = None \<longrightarrow> length (windows ?b) < 50"
    for v e
  proof -
    note a = admit_ok [OF v new(2-4)]
    have "books fr ((put_window ?k (recost fr ?k v) ?b)\<lparr>pending := AList.update event_id e (pending ?b), held := held ?b + p_cost e\<rparr>)"
      by (rule books_add [OF bk]) (use a c e new(1) pend in \<open>simp_all add: window_ok_def entry_ok_def size_ok_def\<close>)
    moreover have "accounted_bytes ((put_window ?k (recost fr ?k v) ?b)\<lparr>pending := AList.update event_id e (pending ?b), held := held ?b + p_cost e\<rparr>)
        = accounted_bytes (put_window ?k (recost fr ?k v) ?b) + p_cost e"
      by (simp add: accounted_bytes_def)
    ultimately show ?thesis
      using room ok accounted_put_window [OF booksD(1) [OF bk], of ?k "recost fr ?k v"] length_put_window [of ?k "recost fr ?k v" ?b]
      by (auto simp: budget_ok_def limits_def simp del: put_window_simps)
  qed
  then show ?thesis
    using c ok by (auto simp: reserve_def Let_def window_or_new_def split: option.splits)
qed (use assms in \<open>auto simp: reserve_def split: pyfloat.splits\<close>)

lemma release_one_ok:
  assumes "books fr b"
  shows "books fr (release_one fr i b)" "length (windows (release_one fr i b)) = length (windows b)"
    "pending (release_one fr i b) = AList.delete i (pending b)"
    "accounted_bytes (release_one fr i b) \<le> accounted_bytes b - (case map_of (pending b) i of None \<Rightarrow> 0 | Some e \<Rightarrow> p_cost e)"
proof -
  have "books fr (release_one fr i b) \<and> length (windows (release_one fr i b)) = length (windows b) \<and>
    pending (release_one fr i b) = AList.delete i (pending b) \<and>
    accounted_bytes (release_one fr i b) \<le> accounted_bytes b - (case map_of (pending b) i of None \<Rightarrow> 0 | Some e \<Rightarrow> p_cost e)"
  proof (cases "map_of (pending b) i")
    case None
    with assms show ?thesis by (simp add: release_one_def delete_absent)
  next
    case (Some e)
    let ?k = "p_scope e"
    obtain w where w: "map_of (windows b) ?k = Some w" using booksD(7) [OF assms Some] by blast
    let ?w = "w\<lparr>w_pending := w_pending w - 1\<rparr>"
    have "0 < waiting ?k (pending b)" using waiting_pos [OF booksD(2) [OF assms] Some] .
    then have pos: "0 < w_pending w" using booksD(5) [OF assms w] by simp
    have "cost_of fr ?k (w\<lparr>w_pending := w_pending w - 1, ambiguous := ambiguous w\<rparr>) \<le> cost_of fr ?k w"
      by (rule cost_mono) (use pos in auto)
    then have cost: "cost_of fr ?k ?w \<le> w_cost w" using booksD(4) [OF assms w] by (simp add: window_ok_def)
    have wait: "waiting k (AList.delete i (pending b)) = waiting k (pending b) - (if ?k = k then 1 else 0)" for k
      using waiting.sum_drop_old [OF booksD(2) [OF assms] Some] .
    have eq: "release_one fr i b =
        (put_window ?k (recost fr ?k ?w) b)\<lparr>pending := AList.delete i (pending b), held := held b - p_cost e\<rparr>"
      using Some w pos by (simp add: release_one_def Let_def put_window_def)
    have "books fr (release_one fr i b)"
      using assms w booksD(4,5) [OF assms w] costs.sum_drop_old [OF booksD(2) [OF assms] Some] wait
      unfolding books_def eq by (auto simp: update_conv' distinct_update delete_conv' distinct_delete window_ok_def)
    moreover have "accounted_bytes (release_one fr i b) = accounted_bytes (put_window ?k (recost fr ?k ?w) b) - p_cost e"
      by (simp add: eq accounted_bytes_def)
    moreover have "length (windows (release_one fr i b)) = length (windows b)"
      using w map_of_key [OF w] by (simp add: eq length_update)
    ultimately show ?thesis
      using Some w cost accounted_put_window [OF booksD(1) [OF assms], of ?k "recost fr ?k ?w"]
      by (simp add: cost_before_def) (simp add: eq)
  qed
  then show "books fr (release_one fr i b)" "length (windows (release_one fr i b)) = length (windows b)"
    "pending (release_one fr i b) = AList.delete i (pending b)"
    "accounted_bytes (release_one fr i b) \<le> accounted_bytes b - (case map_of (pending b) i of None \<Rightarrow> 0 | Some e \<Rightarrow> p_cost e)"
    by auto
qed

lemma entry_cost_nonneg: "books fr b \<Longrightarrow> map_of (pending b) i = Some e \<Longrightarrow> 0 \<le> p_cost e"
  by (drule (1) booksD(6)) (simp add: entry_ok_def)

lemma release_one_budget_ok: "budget_ok fr b \<Longrightarrow> budget_ok fr (release_one fr i b)"
  using release_one_ok [of fr b i] entry_cost_nonneg [of fr b i]
  by (auto simp: budget_ok_def limits_def split: option.splits)

lemma release_ok: "budget_ok fr b \<Longrightarrow> budget_ok fr (release fr ids b)"
  by (induction ids arbitrary: b) (auto intro: release_one_budget_ok)

lemma retain_ok: "budget_ok fr b \<Longrightarrow> budget_ok fr (retain fr ids b)"
  by (simp add: retain_def release_ok)

lemma books_set_entry:
  assumes "books fr b" "map_of (pending b) i = Some e" "p_scope e' = p_scope e" "entry_ok i e'"
  shows "books fr (b\<lparr>held := held b + (p_cost e' - p_cost e), pending := AList.update i e' (pending b)\<rparr>)"
proof -
  have "waiting k (AList.update i e' (pending b)) = waiting k (pending b)" for k
    using waiting.sum_put_old [OF booksD(2) [OF assms(1)] assms(2)] assms(3) by simp
  then show ?thesis
    using assms costs.sum_put_old [OF booksD(2) [OF assms(1)] assms(2)] booksD(7) [OF assms(1,2)]
    unfolding books_def by (auto simp: update_conv' distinct_update)
qed

lemma adjust_ok:
  assumes "books fr b"
  shows "books fr (snd (adjust i n b))" "windows (snd (adjust i n b)) = windows b"
    "fst (adjust i n b) \<Longrightarrow> accounted_bytes (snd (adjust i n b)) \<le> 65536"
    "\<not> fst (adjust i n b) \<Longrightarrow> snd (adjust i n b) = b"
proof -
  show "books fr (snd (adjust i n b))"
  proof (cases "map_of (pending b) i")
    case (Some e)
    have "entry_ok i e" using booksD(6) [OF assms Some] .
    with books_set_entry [OF assms Some, of "e\<lparr>p_cost := p_cost e + (n - p_size e), p_size := n\<rparr>"] assms Some
    show ?thesis by (simp add: adjust_def entry_ok_def size_ok_def)
  qed (use assms in \<open>simp add: adjust_def\<close>)
qed (auto simp: adjust_def accounted_bytes_def split: option.splits)

lemma rename_ok:
  assumes "books fr b" "map_of (pending b) old = Some e" "map_of (pending b) new = None" "new \<noteq> old"
  defines "delta \<equiv> int (length new) - int (length old)"
  shows "books fr (rename_entry old new b)" "windows (rename_entry old new b) = windows b"
    "accounted_bytes (rename_entry old new b) = accounted_bytes b + delta"
    "map_of (pending (rename_entry old new b)) new = Some (e\<lparr>p_cost := p_cost e + delta\<rparr>)"
proof -
  let ?e = "e\<lparr>p_cost := p_cost e + delta\<rparr>"
  have eq: "rename_entry old new b = b\<lparr>pending := AList.update new ?e (AList.delete old (pending b)), held := held b + delta\<rparr>"
    using assms(1-4) by (simp add: rename_entry_def delta_def Let_def)
  have d: "dict_ok (pending b)" using booksD(2) [OF assms(1)] .
  have "waiting k (AList.update new ?e (AList.delete old (pending b))) = waiting k (pending b)" for k
    using waiting.rename_total [OF d assms(2,3)] assms(4) by simp
  moreover have "total p_cost (AList.update new ?e (AList.delete old (pending b))) = total p_cost (pending b) + delta"
    using costs.rename_total [OF d assms(2,3)] assms(4) by simp
  moreover have "entry_ok new ?e" using booksD(6) [OF assms(1,2)] by (simp add: entry_ok_def delta_def)
  ultimately show "books fr (rename_entry old new b)"
    using assms(1-4) booksD(7) [OF assms(1,2)] unfolding books_def eq
    by (auto simp: update_conv' delete_conv' distinct_update distinct_delete)
qed (use assms in \<open>simp_all add: rename_entry_def accounted_bytes_def Let_def update_conv'\<close>)

lemma adjust_budget_ok: "budget_ok fr b \<Longrightarrow> budget_ok fr (snd (adjust i n b))"
  using adjust_ok [of fr b i n] by (cases "fst (adjust i n b)") (auto simp: budget_ok_def limits_def)

text \<open>Releasing an entry whose id was lengthened gives back at least what the longer id had taken.\<close>

lemma release_renamed_ok:
  assumes "budget_ok fr b" "map_of (pending b) old = Some e" "map_of (pending b) new = None" "new \<noteq> old"
  shows "budget_ok fr (release_one fr new (rename_entry old new b))"
proof -
  have bk: "books fr b" and lim: "limits b" using assms(1) by (auto simp: budget_ok_def)
  note r = rename_ok [OF bk assms(2-4)]
  have "0 \<le> p_cost e" using entry_cost_nonneg [OF bk assms(2)] .
  then show ?thesis
    using release_one_ok [OF r(1), of new] r(2-4) lim by (auto simp: budget_ok_def limits_def)
qed

lemma adjusted_ok:
  assumes "books fr b" "length (windows b) \<le> 50" "budget_ok fr (release_one fr i b)"
  shows "budget_ok fr (snd (let (ok, b2) = adjust i n b in
    if \<not> ok \<or> \<not> eligible fr i payload b2 then (False, release fr [i] b2) else (True, b2)))"
proof (cases "fst (adjust i n b)")
  case True
  then have "budget_ok fr (snd (adjust i n b))"
    using adjust_ok [OF assms(1), of i n] assms(2) by (simp add: budget_ok_def limits_def)
  then show ?thesis using release_one_budget_ok [of fr "snd (adjust i n b)" i] by (simp add: split_beta Let_def)
next
  case False
  with adjust_ok(4) [OF assms(1) False] assms(3) show ?thesis by (simp add: split_beta Let_def)
qed

lemma replace_entry_ok:
  assumes "budget_ok fr b"
  shows "budget_ok fr (snd (replace_entry fr original_id event_id payload bytes clock b))"
proof (cases "map_of (pending b) original_id")
  case None
  then show ?thesis
    using reserve_ok [OF release_ok [OF assms, of "[original_id]"], of event_id payload bytes clock]
    by (simp add: replace_entry_def)
next
  case (Some e)
  have bk: "books fr b" "length (windows b) \<le> 50" using assms by (auto simp: budget_ok_def limits_def)
  have same: "budget_ok fr (snd (let (ok, b2) = adjust event_id bytes b in
      if \<not> ok \<or> \<not> eligible fr event_id payload b2 then (False, release fr [event_id] b2) else (True, b2)))"
    by (rule adjusted_ok [OF bk]) (rule release_one_budget_ok [OF assms])
  have moved: "budget_ok fr (snd (let (ok, b2) = adjust event_id bytes (rename_entry original_id event_id b) in
      if \<not> ok \<or> \<not> eligible fr event_id payload b2 then (False, release fr [event_id] b2) else (True, b2)))"
    if "map_of (pending b) event_id = None" "event_id \<noteq> original_id"
    by (rule adjusted_ok) (use rename_ok [OF bk(1) Some that] bk(2) release_renamed_ok [OF assms Some that] in auto)
  show ?thesis
    using Some release_ok [OF assms, of "[original_id]"] same moved
      reserve_ok [OF release_ok [OF assms, of "[original_id]"], of event_id payload bytes clock]
    unfolding replace_entry_def by (cases "event_id = original_id") (simp_all add: Let_def del: release.simps)
qed

subsection \<open>Every run of the budget\<close>

datatype budget_op =
    RegisterFailure pydict string pyfloat
  | Reserve string pydict int pyfloat
  | Replace string string pydict int pyfloat
  | Adjust string int
  | Release "string list"
  | Retain "string list"
  | Clear

fun budget_step :: "(rat \<Rightarrow> string) \<Rightarrow> budget_op \<Rightarrow> budget \<Rightarrow> budget" where
  "budget_step fr (RegisterFailure p i t) b = snd (register_failure fr p i t b)"
| "budget_step fr (Reserve i p n t) b = snd (reserve fr i p n t b)"
| "budget_step fr (Replace o_id i p n t) b = snd (replace_entry fr o_id i p n t b)"
| "budget_step fr (Adjust i n) b = snd (adjust i n b)"
| "budget_step fr (Release ids) b = release fr ids b"
| "budget_step fr (Retain ids) b = retain fr ids b"
| "budget_step fr Clear b = empty_budget"

lemma empty_budget_ok: "budget_ok fr empty_budget"
  by (simp add: budget_ok_def books_def limits_def empty_budget_def accounted_bytes_def)

interpretation budget: preserved "budget_step fr" "budget_ok fr" for fr
proof
  fix b x assume "budget_ok fr b"
  then show "budget_ok fr (budget_step fr x b)"
    by (cases x) (simp_all add: register_failure_ok reserve_ok replace_entry_ok adjust_budget_ok release_ok
        retain_ok empty_budget_ok)
qed

text \<open>
  C20: Whatever sequence of failures, reservations, replacements and releases a destination sees, the
  diagnostic budget never accounts for more than 65536 bytes or 50 windows, and its books balance: the
  held bytes are the costs of the pending entries, each window's record size and pending count are
  those of its contents, no window takes more than 20 observations or 5 recovery attempts.
\<close>

theorem budget_run_ok: "budget_ok fr (run (budget_step fr) ops empty_budget)"
  by (rule budget.run_inv [OF empty_budget_ok])

subsection \<open>What an answer means\<close>

lemma delete_update_new: "map_of d k = None \<Longrightarrow> AList.delete k (AList.update k v d) = d"
  by (induction d) (auto simp: delete_Cons split: if_splits)

text \<open>
  A granted reservation charges exactly the payload, the two ids and 64 bytes, and releasing it gives
  back exactly that: the pending entries and the held bytes are those from before.
\<close>

theorem reserve_release:
  assumes "reserve fr i payload n clock b = (True, b')"
  shows "pending (release fr [i] b') = pending b \<and> held (release fr [i] b') = held b \<and>
    held b' = held b + n + int (length i) + int (length (key_of fr payload)) + 64"
proof -
  from assms obtain now v e where new: "map_of (pending b) i = None"
    and b': "b' = (put_window (key_of fr payload) v (prune now b))\<lparr>
        pending := AList.update i e (pending b), held := held b + p_cost e\<rparr>"
    and e: "p_cost e = n + int (length i) + int (length (key_of fr payload)) + 64"
    by (auto simp: reserve_def Let_def prune_def split: pyfloat.splits if_splits option.splits)
  have "pending (release_one fr i b') = pending b"
    using new by (simp add: b' release_one_def Let_def update_conv' delete_update_new split: option.splits)
  moreover have "held (release_one fr i b') = held b"
    using new by (simp add: b' release_one_def Let_def update_conv' split: option.splits)
  ultimately show ?thesis by (simp add: b' e)
qed

definition sample_recovery :: pydict where
  "sample_recovery = [(PStr ''version'', PInt 1), (PStr ''failure_ref'', PStr ''f''),
     (PStr ''scope'', PDict [(PStr ''kind'', PStr ''operation''), (PStr ''operation_id'', PStr ''o'')]),
     (PStr ''kind'', PStr ''recovery''), (PStr ''attempt_id'', PStr ''a'')]"

lemma sample_reserved: "fst (reserve (\<lambda>q. ''0.0'') ''e1'' sample_recovery 100 (Fin 5) empty_budget)"
  by code_simp

theorem reserve_release_witness:
  "held (release (\<lambda>q. ''0.0'') [''e1'']
     (snd (reserve (\<lambda>q. ''0.0'') ''e1'' sample_recovery 100 (Fin 5) empty_budget))) = 0"
  using reserve_release [of "\<lambda>q. ''0.0''" "''e1''" sample_recovery 100 "Fin 5" empty_budget
      "snd (reserve (\<lambda>q. ''0.0'') ''e1'' sample_recovery 100 (Fin 5) empty_budget)"] sample_reserved
  by (simp add: prod_eq_iff) (simp add: empty_budget_def)

text \<open>
  A failure that is registered for a window under another event id makes the window ambiguous:
  until it has been pruned no diagnostic of its scope is eligible and none can be reserved.
\<close>

theorem conflicting_failure_blocks:
  assumes "dict_ok (windows b)" and "map_of (windows b) (key_of fr payload) = Some w"
    and "failure_id w = Some other" and "other \<noteq> event_id" and "t < starts w + 300000"
    and "key_of fr diag = key_of fr payload" and "u < starts w + 300000"
  shows "\<exists>b'. register_failure fr payload event_id (Fin t) b = (False, b') \<and> \<not> eligible fr i diag b' \<and>
    \<not> fst (reserve fr i diag n (Fin u) b')"
proof -
  let ?k = "key_of fr payload"
  have w: "map_of (windows (prune t b)) ?k = Some w"
    using assms(1,2,5) by (simp add: prune_def map_of_filter_Some)
  let ?b = "put_window ?k (recost fr ?k (w\<lparr>ambiguous := True\<rparr>)) (prune t b)"
  have reg: "register_failure fr payload event_id (Fin t) b = (False, ?b)"
    using w assms(3,4) by (simp add: register_failure_def Let_def)
  have "dict_ok (windows ?b)" using assms(1) by (simp add: prune_def dict_ok_filter distinct_update)
  then have "map_of (windows (prune u ?b)) ?k = Some (recost fr ?k (w\<lparr>ambiguous := True\<rparr>))"
    using assms(7) by (simp add: prune_def map_of_filter_Some update_conv')
  then have "\<not> fst (reserve fr i diag n (Fin u) ?b)"
    using assms(6) by (simp add: reserve_def Let_def)
  moreover have "\<not> eligible fr i diag ?b"
    using assms(6) by (simp add: eligible_def update_conv' split: option.splits)
  ultimately show ?thesis using reg by blast
qed

theorem conflicting_failure_blocks_witness:
  "\<not> fst (reserve (\<lambda>q. ''0.0'') ''e'' sample_recovery 10 (Fin 2)
      (snd (register_failure (\<lambda>q. ''0.0'') sample_recovery ''second'' (Fin 1)
        (snd (register_failure (\<lambda>q. ''0.0'') sample_recovery ''first'' (Fin 0) empty_budget)))))"
proof -
  let ?fr = "\<lambda>q::rat. ''0.0''"
  let ?b = "snd (register_failure ?fr sample_recovery ''first'' (Fin 0) empty_budget)"
  have d: "dict_ok (windows ?b)" by code_simp
  have m: "map_option (\<lambda>w. (failure_id w, starts w)) (map_of (windows ?b) (key_of ?fr sample_recovery)) = Some (Some ''first'', 0)"
    by code_simp
  from m obtain w where w: "map_of (windows ?b) (key_of ?fr sample_recovery) = Some w"
    "failure_id w = Some ''first''" "starts w = 0" by auto
  show ?thesis
    using conflicting_failure_blocks [OF d w(1,2), of "''second''" 1 sample_recovery 2 "''e''" 10] w(3) by auto
qed

end
