(* ===== verification/Queue_Facts.thy ===== *)
theory Queue_Facts
  imports Queue Budget_Facts
begin

text \<open>
  Correctness of admission: the books of the queue (identities, sizes, bytes, bounds, hook bypass,
  diagnostic budget) balance after every operation, the in-flight front of the queue is never touched,
  and no event disappears without being counted.
\<close>

interpretation sizes: ledger map_of AList.update AList.delete dict_ok "\<lambda>n :: int. n" "total (\<lambda>n. n)"
  by (rule alist_ledger)

abbreviation ids :: "sdk \<Rightarrow> nat list" where
  "ids s \<equiv> map fst (buffer s)"

definition queue_ok :: "(rat \<Rightarrow> string) \<Rightarrow> int \<Rightarrow> int \<Rightarrow> sdk \<Rightarrow> bool" where
  "queue_ok fr max_events max_bytes s \<longleftrightarrow>
     distinct (ids s) \<and> dict_ok (buffer_sizes s) \<and> fst ` set (buffer_sizes s) = set (ids s) \<and>
     buffer_bytes s = total (\<lambda>n. n) (buffer_sizes s) \<and>
     (\<forall>x \<in> set (buffer s). map_of (buffer_sizes s) (fst x) = Some (sdk_event_bytes fr (snd x))) \<and>
     int (length (buffer s)) \<le> max_events \<and> buffer_bytes s \<le> max_bytes \<and>
     set (hook_bypass s) \<subseteq> set (ids s) \<and> budget_ok fr (diagnostics s) \<and> 0 \<le> inflight_count s"

lemma queue_okD:
  assumes "queue_ok fr me mb s"
  shows "distinct (ids s)" "dict_ok (buffer_sizes s)" "fst ` set (buffer_sizes s) = set (ids s)"
    "buffer_bytes s = total (\<lambda>n. n) (buffer_sizes s)"
    "\<forall>x \<in> set (buffer s). map_of (buffer_sizes s) (fst x) = Some (sdk_event_bytes fr (snd x))"
    "int (length (buffer s)) \<le> me" "buffer_bytes s \<le> mb" "set (hook_bypass s) \<subseteq> set (ids s)"
    "budget_ok fr (diagnostics s)" "0 \<le> inflight_count s"
  using assms by (auto simp: queue_ok_def)

lemma sdk_event_bytes_nonneg [simp]: "0 \<le> sdk_event_bytes fr e"
  by (simp add: sdk_event_bytes_def split: option.splits)

lemma size_of_event:
  "queue_ok fr me mb s \<Longrightarrow> (oid, e) \<in> set (buffer s) \<Longrightarrow> map_of (buffer_sizes s) oid = Some (sdk_event_bytes fr e)"
  using queue_okD(5) [of fr me mb s] by fastforce

text \<open>What an operation leaves alone: the flush in progress, the generation and the in-flight front.\<close>

definition undisturbed :: "sdk \<Rightarrow> sdk \<Rightarrow> bool" where
  "undisturbed s s' \<longleftrightarrow> sending s' = sending s \<and> inflight_count s' = inflight_count s \<and> generation s' = generation s \<and>
     http s' = http s \<and> (timer s \<noteq> None \<longrightarrow> timer s' \<noteq> None) \<and> (sending s \<longrightarrow> timer s' = timer s) \<and>
     (nat (inflight_count s) \<le> length (buffer s) \<longrightarrow> nat (inflight_count s) \<le> length (buffer s') \<and>
        take (nat (inflight_count s)) (buffer s') = take (nat (inflight_count s)) (buffer s))"

lemma undisturbed_refl: "undisturbed s s"
  by (simp add: undisturbed_def)

lemma undisturbed_trans: "undisturbed s t \<Longrightarrow> undisturbed t u \<Longrightarrow> undisturbed s u"
  unfolding undisturbed_def by (elim conjE) (intro conjI impI; simp)

subsection \<open>Operations that do not touch the buffer\<close>

lemma schedule_flush_frame:
  "buffer (schedule_flush now d s) = buffer s" "buffer_sizes (schedule_flush now d s) = buffer_sizes s"
  "buffer_bytes (schedule_flush now d s) = buffer_bytes s" "hook_bypass (schedule_flush now d s) = hook_bypass s"
  "diagnostics (schedule_flush now d s) = diagnostics s" "inflight_count (schedule_flush now d s) = inflight_count s"
  "sending (schedule_flush now d s) = sending s" "generation (schedule_flush now d s) = generation s"
  "http (schedule_flush now d s) = http s" "pressure_drops (schedule_flush now d s) = pressure_drops s"
  "retry_after (schedule_flush now d s) = retry_after s" "suppression (schedule_flush now d s) = suppression s"
  "pending_low_priority (schedule_flush now d s) = pending_low_priority s"
  "consecutive_failures (schedule_flush now d s) = consecutive_failures s"
  by (simp_all add: schedule_flush_def Let_def split: option.splits)

lemma schedule_flush_timer:
  "timer s \<noteq> None \<Longrightarrow> timer (schedule_flush now d s) \<noteq> None"
  "\<not> sending s \<Longrightarrow> timer (schedule_flush now d s) \<noteq> None"
  "sending s \<Longrightarrow> timer (schedule_flush now d s) = timer s"
  by (auto simp: schedule_flush_def Let_def split: option.splits)

declare schedule_flush_frame [simp]

lemma queue_ok_schedule [simp]: "queue_ok fr me mb (schedule_flush now d s) = queue_ok fr me mb s"
  by (simp add: queue_ok_def)

lemma undisturbed_schedule: "undisturbed s (schedule_flush now d s)"
  by (simp add: undisturbed_def schedule_flush_timer)

lemma release_diagnostic_frame:
  "\<exists>d. release_diagnostic fr e s = s\<lparr>diagnostics := d\<rparr> \<and> (budget_ok fr (diagnostics s) \<longrightarrow> budget_ok fr d)"
  by (rule exI [of _ "diagnostics (release_diagnostic fr e s)"])
    (simp add: release_diagnostic_def release_one_budget_ok split: option.splits)

lemma register_replacement_frame:
  "\<exists>d. register_replacement fr fromiso r sel s = s\<lparr>diagnostics := d\<rparr> \<and> (budget_ok fr (diagnostics s) \<longrightarrow> budget_ok fr d)"
  by (auto simp: register_replacement_def register_failure_ok split: pyval.splits option.splits
      intro: exI [of _ "diagnostics s"])

lemma reconcile_frame:
  "\<exists>d. snd (reconcile_diagnostic fr fromiso now original replacement s) = s\<lparr>diagnostics := d\<rparr> \<and>
     (budget_ok fr (diagnostics s) \<longrightarrow> budget_ok fr d)"
proof -
  obtain d where d: "release_diagnostic fr original s = s\<lparr>diagnostics := d\<rparr>" "budget_ok fr (diagnostics s) \<longrightarrow> budget_ok fr d"
    using release_diagnostic_frame by blast
  show ?thesis
  proof (cases replacement)
    case None
    with d show ?thesis by (auto simp: reconcile_diagnostic_def)
  next
    case (Some r)
    show ?thesis
    proof (cases "is_type ''diagnostic_context'' r")
      case True
      with Some d show ?thesis
        by (auto simp: reconcile_diagnostic_def Let_def split_beta reserve_ok replace_entry_ok split: option.splits)
    next
      case False
      have "\<exists>d'. register_replacement fr fromiso r sel (release_diagnostic fr original s) = s\<lparr>diagnostics := d'\<rparr> \<and>
          (budget_ok fr (diagnostics s) \<longrightarrow> budget_ok fr d')" for sel
        using register_replacement_frame [of fr fromiso r sel "release_diagnostic fr original s"] d by auto
      with Some False d show ?thesis
        by (auto simp: reconcile_diagnostic_def Let_def split: pyval.splits option.splits)
    qed
  qed
qed

lemma queue_ok_diagnostics: "queue_ok fr me mb s \<Longrightarrow> budget_ok fr d \<Longrightarrow> queue_ok fr me mb (s\<lparr>diagnostics := d\<rparr>)"
  by (simp add: queue_ok_def)

lemma undisturbed_diagnostics: "undisturbed s (s\<lparr>diagnostics := d\<rparr>)"
  by (simp add: undisturbed_def)

lemma queue_ok_drops [simp]: "queue_ok fr me mb (s\<lparr>pressure_drops := n\<rparr>) = queue_ok fr me mb s"
  by (simp add: queue_ok_def)

lemma undisturbed_drops: "undisturbed s t \<Longrightarrow> undisturbed s (t\<lparr>pressure_drops := n\<rparr>)"
  by (simp add: undisturbed_def)

lemma reconcile_queue_ok:
  assumes "queue_ok fr me mb s" "reconcile_diagnostic fr fromiso now original replacement s = (ok, s')"
  shows "queue_ok fr me mb s'" "undisturbed s s'" "buffer s' = buffer s" "buffer_sizes s' = buffer_sizes s"
    "buffer_bytes s' = buffer_bytes s" "pressure_drops s' = pressure_drops s" "timer s' = timer s" "hook_bypass s' = hook_bypass s"
    "batch_size s' = batch_size s"
  using reconcile_frame [of fr fromiso now original replacement s] assms queue_okD(9) [OF assms(1)]
  by (auto intro: queue_ok_diagnostics undisturbed_diagnostics)

subsection \<open>Eviction\<close>

text \<open>
  An eviction takes one low-priority event from behind the in-flight front, with its size and its
  identity, and counts it.
\<close>

lemma evict_ok:
  assumes ok: "queue_ok fr me mb s"
  shows "\<exists>b s'. evict_low_priority fr s = Some (b, s') \<and> queue_ok fr me mb s' \<and> undisturbed s s' \<and>
    batch_size s' = batch_size s \<and>
    (if b then (\<exists>i oid e. nat (inflight_count s) \<le> i \<and> i < length (buffer s) \<and> buffer s ! i = (oid, e) \<and> \<not> high_priority_event e \<and>
         buffer s' = delete_nth i (buffer s) \<and> pressure_drops s' = min (2 ^ 63 - 1) (pressure_drops s + 1) \<and>
         buffer_bytes s' \<le> buffer_bytes s)
     else s' = s \<and> (\<forall>x \<in> set (drop (nat (inflight_count s)) (buffer s)). high_priority_event (snd x)))"
proof (cases "evict_index s")
  case None
  then have "\<forall>i. nat (inflight_count s) \<le> i \<and> i < length (buffer s) \<longrightarrow> high_priority_event (snd (buffer s ! i))"
    by (auto simp: evict_index_def find_None_iff)
  then have "\<forall>x \<in> set (drop (nat (inflight_count s)) (buffer s)). high_priority_event (snd x)"
    by (auto simp: in_set_conv_nth) (metis add.commute le_add1 less_diff_conv snd_conv)
  with None ok show ?thesis by (intro exI [of _ False]) (simp add: evict_low_priority_def undisturbed_refl)
next
  case (Some i)
  obtain oid e where x: "buffer s ! i = (oid, e)" by (cases "buffer s ! i")
  note i = evict_index_less [OF Some]
  have mem: "(oid, e) \<in> set (buffer s)" using i x nth_mem [of i "buffer s"] by force
  obtain n where n: "map_of (buffer_sizes s) oid = Some n" "0 \<le> n" using size_of_event [OF ok mem] by simp
  let ?t = "s\<lparr>buffer := delete_nth i (buffer s), hook_bypass := removeAll oid (hook_bypass s)\<rparr>"
  obtain d where d: "release_diagnostic fr (Some e) ?t = ?t\<lparr>diagnostics := d\<rparr>" "budget_ok fr (diagnostics s) \<longrightarrow> budget_ok fr d"
    using release_diagnostic_frame [of fr "Some e" ?t] by auto
  let ?s = "count_drop (?t\<lparr>diagnostics := d, buffer_bytes := buffer_bytes s - n,
    buffer_sizes := AList.delete oid (buffer_sizes s), pending_low_priority := pending_low_priority s - 1\<rparr>)"
  have ev: "evict_low_priority fr s = Some (True, ?s)"
    using Some x n d by (simp add: evict_low_priority_def Let_def delete_nth_def)
  have nth: "ids s ! i = oid" using i x by simp
  have ids': "set (map fst (delete_nth i (buffer s))) = set (ids s) - {oid}"
    using set_delete_nth [OF queue_okD(1) [OF ok], of i] i nth by (simp add: map_delete_nth)
  have "distinct (map fst (delete_nth i (buffer s)))"
    using distinct_delete_nth [OF queue_okD(1) [OF ok]] by (simp add: map_delete_nth)
  moreover have "total (\<lambda>n. n) (AList.delete oid (buffer_sizes s)) = total (\<lambda>n. n) (buffer_sizes s) - n"
    using sizes.sum_drop_old [OF queue_okD(2) [OF ok] n(1)] .
  moreover have "fst ` set (AList.delete oid (buffer_sizes s)) = set (ids s) - {oid}"
    using queue_okD(3) [OF ok] AList.delete_keys [of oid "buffer_sizes s"] by (metis set_map set_removeAll)
  moreover have "\<forall>x \<in> set (delete_nth i (buffer s)).
      map_of (AList.delete oid (buffer_sizes s)) (fst x) = Some (sdk_event_bytes fr (snd x))"
  proof
    fix x assume x: "x \<in> set (delete_nth i (buffer s))"
    then have "fst x \<noteq> oid" using ids' by auto
    moreover have "x \<in> set (buffer s)" using x insert_delete_nth [of i "buffer s"] i by blast
    ultimately show "map_of (AList.delete oid (buffer_sizes s)) (fst x) = Some (sdk_event_bytes fr (snd x))"
      using queue_okD(5) [OF ok] by (simp add: delete_conv')
  qed
  moreover have "length (delete_nth i (buffer s)) \<le> length (buffer s)" by (simp add: delete_nth_def)
  ultimately have "queue_ok fr me mb ?s"
    using ids' ok d(2) n(2) by (auto simp: queue_ok_def count_drop_def distinct_delete)
  moreover have "undisturbed s ?s"
    using i by (auto simp: undisturbed_def count_drop_def delete_nth_def min_def)
  ultimately show ?thesis using ev i x n(2) by (auto simp: count_drop_def)
qed

lemma delete_nth_length: "i < length xs \<Longrightarrow> length (delete_nth i xs) < length xs"
  by (simp add: delete_nth_def)

text \<open>
  Making room: a low-priority event never evicts, a high-priority one evicts low-priority events until
  it fits or none is left. Every eviction and a refusal are counted, up to the ceiling of the counter.
\<close>

lemma make_room_ok:
  assumes "queue_ok fr me mb s"
  shows "\<exists>b s'. make_room fr n me mb high s = Some (b, s') \<and> queue_ok fr me mb s' \<and> undisturbed s s' \<and>
    batch_size s' = batch_size s \<and> set (buffer s') \<subseteq> set (buffer s) \<and>
    (\<forall>x \<in> set (buffer s) - set (buffer s'). \<not> high_priority_event (snd x)) \<and>
    (pressure_drops s + int (length (buffer s)) < 2 ^ 63 - 1 \<longrightarrow>
       int (length (buffer s')) + pressure_drops s' = int (length (buffer s)) + pressure_drops s + (if b then 0 else 1)) \<and>
    (high \<or> buffer s' = buffer s) \<and> (b \<longrightarrow> \<not> too_full n me mb s')"
  using assms
proof (induction fr n me mb high s rule: make_room.induct)
  case (1 fr n me mb high s)
  show ?case
  proof (cases "too_full n me mb s \<and> high")
    case False
    then show ?thesis using "1.prems" by (subst make_room.simps) (auto simp: undisturbed_refl undisturbed_drops)
  next
    case True
    from evict_ok [OF "1.prems"(1)] obtain b t where ev: "evict_low_priority fr s = Some (b, t)"
      and t: "queue_ok fr me mb t" "undisturbed s t" "batch_size t = batch_size s" by blast
    show ?thesis
    proof (cases b)
      case False
      with evict_ok [OF "1.prems"(1)] ev have "t = s" by auto
      with True False ev t show ?thesis by (intro exI [of _ False], subst make_room.simps) (simp add: undisturbed_drops)
    next
      case b: True
      with evict_ok [OF "1.prems"(1)] ev obtain i oid e where i: "i < length (buffer s)" "buffer s ! i = (oid, e)"
        "\<not> high_priority_event e" "buffer t = delete_nth i (buffer s)"
        "pressure_drops t = min (2 ^ 63 - 1) (pressure_drops s + 1)" by auto
      have len: "length (buffer s) = Suc (length (buffer t))" using i(1,4) by (simp add: delete_nth_def)
      have drops: "pressure_drops s + int (length (buffer s)) < 2 ^ 63 - 1 \<longrightarrow> pressure_drops t = pressure_drops s + 1"
        using i(5) by auto
      have sub: "insert (oid, e) (set (buffer t)) = set (buffer s)"
        using insert_delete_nth [OF i(1)] i(2,4) by simp
      have "too_full n me mb s" "\<not> \<not> high" using True by auto
      from "1.IH" [OF _ _ ev, of True t] this b t(1) obtain c u where
        u: "make_room fr n me mb high t = Some (c, u)" "queue_ok fr me mb u" "undisturbed t u"
        "batch_size u = batch_size t" "set (buffer u) \<subseteq> set (buffer t)"
        "\<forall>x \<in> set (buffer t) - set (buffer u). \<not> high_priority_event (snd x)"
        "pressure_drops t + int (length (buffer t)) < 2 ^ 63 - 1 \<longrightarrow>
           int (length (buffer u)) + pressure_drops u = int (length (buffer t)) + pressure_drops t + (if c then 0 else 1)"
        "c \<longrightarrow> \<not> too_full n me mb u"
        by auto
      have "make_room fr n me mb high s = Some (c, u)"
        using True ev b u(1) by (subst make_room.simps) simp
      moreover have "pressure_drops s + int (length (buffer s)) < 2 ^ 63 - 1 \<longrightarrow>
          int (length (buffer u)) + pressure_drops u = int (length (buffer s)) + pressure_drops s + (if c then 0 else 1)"
        using u(7) drops len by auto
      moreover have "\<forall>x \<in> set (buffer s) - set (buffer u). \<not> high_priority_event (snd x)"
      proof
        fix x assume x: "x \<in> set (buffer s) - set (buffer u)"
        then have "x = (oid, e) \<or> x \<in> set (buffer t) - set (buffer u)" using sub by blast
        then show "\<not> high_priority_event (snd x)" using u(6) i(3) by auto
      qed
      ultimately show ?thesis
        using u t True sub drops undisturbed_trans [OF t(2) u(3)] by auto
    qed
  qed
qed

subsection \<open>Offering an event\<close>

lemma set_insert_at: "set (insert_at i x xs) = insert x (set xs)"
proof -
  have "set xs = set (take i xs) \<union> set (drop i xs)" by (metis append_take_drop_id set_append)
  then show ?thesis by (auto simp: insert_at_def)
qed

lemma distinct_insert_at: "distinct xs \<Longrightarrow> x \<notin> set xs \<Longrightarrow> distinct (insert_at i x xs)"
  unfolding insert_at_def using distinct_append [of "take i xs" "drop i xs"] by (auto dest: in_set_takeD in_set_dropD)

lemma map_insert_at: "map f (insert_at i x xs) = insert_at i (f x) (map f xs)"
  by (simp add: insert_at_def take_map drop_map)

lemma length_insert_at [simp]: "length (insert_at i x xs) = Suc (length xs)"
  by (simp add: insert_at_def)

lemma take_insert_at: "k \<le> i \<Longrightarrow> k \<le> length xs \<Longrightarrow> take k (insert_at i x xs) = take k xs"
  by (simp add: insert_at_def min_def)

lemma place_event_cases:
  "\<exists>i p. (nat (inflight_count s) \<le> i \<or> i = length (buffer s)) \<and>
     place_event oid e up s = s\<lparr>buffer := insert_at i (oid, e) (buffer s), pending_low_priority := p\<rparr>"
proof (cases "high_priority_event e \<and> (\<not> is_type ''request_event'' e \<or> up)")
  case True
  then show ?thesis
    by (intro exI [of _ "nat (inflight_count s) + length (takeWhile (\<lambda>x. high_priority_event (snd x))
        (drop (nat (inflight_count s)) (buffer s)))"] exI [of _ "pending_low_priority s"])
      (simp add: place_event_def Let_def)
next
  case False
  then show ?thesis
    by (intro exI [of _ "length (buffer s)"] exI [of _ "pending_low_priority s + 1"])
      (auto simp: place_event_def insert_at_def)
qed

lemma place_event_facts:
  assumes "queue_ok fr me mb s" "oid \<notin> set (ids s)"
  shows "set (buffer (place_event oid e up s)) = insert (oid, e) (set (buffer s))"
    "distinct (ids (place_event oid e up s))" "length (buffer (place_event oid e up s)) = Suc (length (buffer s))"
    "undisturbed s (place_event oid e up s)" "buffer_sizes (place_event oid e up s) = buffer_sizes s"
    "buffer_bytes (place_event oid e up s) = buffer_bytes s" "hook_bypass (place_event oid e up s) = hook_bypass s"
    "diagnostics (place_event oid e up s) = diagnostics s" "pressure_drops (place_event oid e up s) = pressure_drops s"
    "inflight_count (place_event oid e up s) = inflight_count s" "sending (place_event oid e up s) = sending s"
  using place_event_cases [of s oid e up] assms queue_okD(1) [OF assms(1)]
  by (auto simp: set_insert_at map_insert_at distinct_insert_at undisturbed_def take_insert_at)

lemma queue_ok_add:
  assumes "queue_ok fr me mb s" "oid \<notin> set (ids s)" "n = sdk_event_bytes fr e" "\<not> too_full n me mb s"
  shows "queue_ok fr me mb ((place_event oid e up s)\<lparr>buffer_bytes := buffer_bytes s + n,
    buffer_sizes := AList.update oid n (buffer_sizes s)\<rparr>)"
proof -
  have new: "map_of (buffer_sizes s) oid = None"
    using assms(2) queue_okD(3) [OF assms(1)] by (simp add: map_of_eq_None_iff)
  have "total (\<lambda>n. n) (AList.update oid n (buffer_sizes s)) = total (\<lambda>n. n) (buffer_sizes s) + n"
    using sizes.sum_put_new [OF queue_okD(2) [OF assms(1)] new] .
  moreover have "fst ` set (AList.update oid n (buffer_sizes s)) = insert oid (set (ids s))"
    using queue_okD(3) [OF assms(1)] by (simp add: update_conv' flip: dom_map_of_conv_image_fst)
  moreover have "\<forall>x \<in> set (buffer (place_event oid e up s)).
      map_of (AList.update oid n (buffer_sizes s)) (fst x) = Some (sdk_event_bytes fr (snd x))"
    using place_event_facts(1) [OF assms(1,2), of e up] assms(2,3) queue_okD(5) [OF assms(1)]
    by (force simp: update_conv')
  moreover have "fst ` set (buffer (place_event oid e up s)) = insert oid (set (ids s))"
    by (simp add: place_event_facts(1) [OF assms(1,2)])
  ultimately show ?thesis
    using assms queue_okD [OF assms(1)] place_event_facts [OF assms(1,2), of e up]
    unfolding queue_ok_def too_full_def by (simp add: distinct_update subset_insertI2 del: not_None_eq)
qed

text \<open>What an offer does, in every state and for every event.\<close>

lemma offer_ok:
  assumes ok: "queue_ok fr me mb s" and new: "oid \<notin> set (ids s)" and n: "n = sdk_event_bytes fr e"
  shows "\<exists>b s'. offer_protected_event fr fromiso now oid e n me mb s = Some (b, s') \<and> queue_ok fr me mb s' \<and>
    undisturbed s s' \<and> (b \<longrightarrow> (oid, e) \<in> set (buffer s') \<and> (sending s \<or> timer s' \<noteq> None)) \<and>
    set (buffer s') \<subseteq> insert (oid, e) (set (buffer s)) \<and> (\<not> b \<longrightarrow> set (buffer s') \<subseteq> set (buffer s)) \<and>
    (\<forall>x \<in> set (buffer s) - set (buffer s'). \<not> high_priority_event (snd x) \<and> high_priority_event e) \<and>
    (\<not> is_type ''diagnostic_context'' e \<and> pressure_drops s + int (length (buffer s)) < 2 ^ 63 - 1 \<longrightarrow>
       int (length (buffer s')) + pressure_drops s' = int (length (buffer s)) + pressure_drops s + 1)"
proof (cases "mb < n")
  case True
  then show ?thesis using ok by (auto simp: offer_protected_event_def intro: undisturbed_drops undisturbed_refl)
next
  case False
  let ?high = "high_priority_event e"
  from make_room_ok [OF ok, of n ?high] obtain b s1 where
    room: "make_room fr n me mb ?high s = Some (b, s1)" and s1: "queue_ok fr me mb s1" "undisturbed s s1"
      "set (buffer s1) \<subseteq> set (buffer s)" "\<forall>x \<in> set (buffer s) - set (buffer s1). \<not> high_priority_event (snd x)"
      "pressure_drops s + int (length (buffer s)) < 2 ^ 63 - 1 \<longrightarrow>
         int (length (buffer s1)) + pressure_drops s1 = int (length (buffer s)) + pressure_drops s + (if b then 0 else 1)"
      "?high \<or> buffer s1 = buffer s" "b \<longrightarrow> \<not> too_full n me mb s1" by blast
  have gone: "\<forall>x \<in> set (buffer s) - set (buffer s1). \<not> high_priority_event (snd x) \<and> ?high"
    using s1(4,6) by auto
  show ?thesis
  proof (cases b)
    case b: False
    with room False s1 gone show ?thesis by (auto simp: offer_protected_event_def)
  next
    case b: True
    obtain ok2 s2 where rec: "reconcile_diagnostic fr fromiso now None (Some e) s1 = (ok2, s2)" by (metis surj_pair)
    note s2 = reconcile_queue_ok [OF s1(1) rec]
    have s2': "undisturbed s s2" using undisturbed_trans [OF s1(2) s2(2)] .
    show ?thesis
    proof (cases ok2)
      case ok2: False
      have "is_type ''diagnostic_context'' e"
        using rec ok2 by (auto simp: reconcile_diagnostic_def Let_def split: if_splits)
      with room False b rec ok2 s1 s2 s2' gone show ?thesis by (auto simp: offer_protected_event_def)
    next
      case ok2: True
      let ?up = "too_full n me mb s"
      let ?s3 = "place_event oid e ?up s2"
      let ?s4 = "?s3\<lparr>buffer_bytes := buffer_bytes s2 + n, buffer_sizes := AList.update oid n (buffer_sizes s2)\<rparr>"
      have new2: "oid \<notin> set (ids s2)" using new s1(3) s2(3) by auto
      note s3 = place_event_facts [OF s2(1) new2, of e ?up]
      have full2: "\<not> too_full n me mb s2" using b s1(7) s2(3,5) by (simp add: too_full_def)
      have ok4: "queue_ok fr me mb ?s4" by (rule queue_ok_add [OF s2(1) new2 n full2])
      obtain d where res: "offer_protected_event fr fromiso now oid e n me mb s = Some (True, schedule_flush now d ?s4)"
        using False room b rec ok2 s3(5,6) by (simp add: offer_protected_event_def Let_def)
      have "undisturbed s ?s4" using undisturbed_trans [OF s2' s3(4)] by (simp add: undisturbed_def)
      then have und: "undisturbed s (schedule_flush now d ?s4)" by (rule undisturbed_trans) (rule undisturbed_schedule)
      have "sending s \<or> timer (schedule_flush now d ?s4) \<noteq> None"
        using schedule_flush_timer(2) [of ?s4 now d] s2' s3(11) by (auto simp: undisturbed_def)
      then show ?thesis
        using res ok4 und s1 s2 s3 b gone by (auto simp del: not_None_eq)
    qed
  qed
qed


definition sample_sdk :: sdk where
  "sample_sdk = \<lparr>enabled = True, has_transport = True, http = True, batch_size = 25, flush_interval = 5,
     log_level = ''warning'', policy = BALANCED_CAPTURE_POLICY, features = [], capture_exception_evidence = True,
     capture_recovery_observations = False, buffer = [], buffer_sizes = [], buffer_bytes = 0,
     pending_low_priority = 0, sending = False, inflight_count = 0, timer = None, generation = 1,
     pressure_drops = 0, last_pressure_report_at = 0, retry_after = 0, last_event_at = None,
     consecutive_failures = 0, hook_bypass = [], diagnostics = empty_budget, suppression = []\<rparr>"

lemma sample_sdk_ok: "queue_ok fr 1000 8388608 sample_sdk"
  by (simp add: queue_ok_def sample_sdk_def empty_budget_ok)

definition server_error_request :: pydict where
  "server_error_request = [(PStr ''event_type'', PStr ''request_event''),
     (PStr ''payload'', PDict [(PStr ''response_status'', PInt 503)])]"


text \<open>
  A high-priority request event that meets no pressure is placed at the end and counted as evictable,
  although \<open>evict_low_priority\<close> never takes it: the counter then promises room there is not.
\<close>

lemma server_error_request_counted_low:
  "high_priority_event server_error_request \<and>
   pending_low_priority (place_event 7 server_error_request False sample_sdk) = 1 \<and>
   evict_index (place_event 7 server_error_request False sample_sdk) = None"
  by (simp add: high_priority_event_def is_type_def server_error_request_def dgetn_def place_event_def sample_sdk_def
      evict_index_def)

end
