(* ===== verification/Strip_Size.thy ===== *)
theory Strip_Size
  imports Evidence_Facts Queue
begin

text \<open>
  Stripping evidence never makes an event larger: the JSON text of a value shrinks when dictionary
  entries go or are replaced by smaller ones.
\<close>

definition smaller :: "(rat \<Rightarrow> string) \<Rightarrow> pyval \<Rightarrow> pyval \<Rightarrow> bool" where
  "smaller fr v w \<longleftrightarrow> (\<forall>n. json_bytes True True fr w = Some n \<longrightarrow> (\<exists>m. json_bytes True True fr v = Some m \<and> m \<le> n))"

lemma smaller_refl: "smaller fr v v"
  by (simp add: smaller_def)

lemma smaller_trans: "smaller fr u v \<Longrightarrow> smaller fr v w \<Longrightarrow> smaller fr u w"
  by (fastforce simp: smaller_def intro: order_trans)

lemma items_filter:
  "json_items True True fr d = Some ts \<Longrightarrow>
   \<exists>us. json_items True True fr (filter P d) = Some us \<and> sum_list (map utf8_len us) \<le> sum_list (map utf8_len ts) \<and>
     length us \<le> length ts"
proof (induction d arbitrary: ts)
  case (Cons x d)
  obtain k v where x: "x = (k, v)" by (cases x)
  from Cons.prems x obtain a b rest where a: "json_key True True fr k = Some a" "json_val True True fr v = Some b"
    "json_items True True fr d = Some rest" "ts = (a @ CHR '':'' # b) # rest" by (auto split: option.splits)
  from Cons.IH [OF a(3)] obtain us where us: "json_items True True fr (filter P d) = Some us"
    "sum_list (map utf8_len us) \<le> sum_list (map utf8_len rest)" "length us \<le> length rest" by blast
  then show ?case using x a by (cases "P (k, v)") auto
qed simp

lemma items_update:
  "json_items True True fr d = Some ts \<Longrightarrow> dget d k = Some w \<Longrightarrow> smaller fr v w \<Longrightarrow>
   \<exists>us. json_items True True fr (dput k v d) = Some us \<and> sum_list (map utf8_len us) \<le> sum_list (map utf8_len ts) \<and>
     length us = length ts"
  unfolding dput_def
proof (induction d arbitrary: ts)
  case (Cons x d)
  obtain q u where x: "x = (q, u)" by (cases x)
  from Cons.prems x obtain a b rest where a: "json_key True True fr q = Some a" "json_val True True fr u = Some b"
    "json_items True True fr d = Some rest" "ts = (a @ CHR '':'' # b) # rest" by (auto split: option.splits)
  show ?case
  proof (cases "q = PStr k")
    case True
    with Cons.prems(2,3) x a(2) obtain c where "json_val True True fr v = Some c" "utf8_len c \<le> utf8_len b"
      by (auto simp: smaller_def json_bytes_def)
    with True x a show ?thesis by auto
  next
    case False
    with Cons.prems(2) x have "dget d k = Some w" by simp
    from Cons.IH [OF a(3) this Cons.prems(3)] obtain us where
      "json_items True True fr (AList.update (PStr k) v d) = Some us"
      "sum_list (map utf8_len us) \<le> sum_list (map utf8_len rest)" "length us = length rest" by blast
    with False x a show ?thesis by auto
  qed
qed simp

lemma smaller_items:
  assumes "\<And>ts. json_items True True fr e = Some ts \<Longrightarrow>
    \<exists>us. json_items True True fr d = Some us \<and> sum_list (map utf8_len us) \<le> sum_list (map utf8_len ts) \<and> length us \<le> length ts"
  shows "smaller fr (PDict d) (PDict e)"
  unfolding smaller_def
proof (intro allI impI)
  fix n assume "json_bytes True True fr (PDict e) = Some n"
  then obtain ts where ts: "json_items True True fr e = Some ts"
    "n = 2 + (sum_list (map utf8_len ts) + (length ts - 1))"
    by (auto simp: json_bytes_def utf8_len_join)
  from assms [OF ts(1)] obtain us where "json_items True True fr d = Some us"
    "sum_list (map utf8_len us) \<le> sum_list (map utf8_len ts)" "length us \<le> length ts" by blast
  with ts(2) show "\<exists>m. json_bytes True True fr (PDict d) = Some m \<and> m \<le> n"
    by (auto simp: json_bytes_def utf8_len_join)
qed

lemma smaller_filter: "smaller fr (PDict (filter P d)) (PDict d)"
  by (rule smaller_items) (rule items_filter)

lemma smaller_dput: "dget d k = Some w \<Longrightarrow> smaller fr v w \<Longrightarrow> smaller fr (PDict (dput k v d)) (PDict d)"
  by (rule smaller_items) (drule (2) items_update, fastforce)

lemma smaller_ddel: "smaller fr (PDict (ddel k d)) (PDict d)"
  by (simp add: ddel_def AList.delete_eq smaller_filter)

lemma smaller_stripped_payload: "smaller fr (PDict (stripped_payload fs p)) (PDict p)"
  unfolding stripped_payload_def Let_def
  by (auto intro: smaller_refl smaller_ddel smaller_trans [OF smaller_ddel])

lemma smaller_stripped_context:
  assumes "dget c ''context'' = dget e ''context''"
  shows "smaller fr (PDict (stripped_context fs e c)) (PDict c)"
proof (cases "dgetn e ''context''")
  case (PDict x)
  then have "dget c ''context'' = Some (PDict x)" using assms by (auto dest: dgetn_not_none)
  then have "smaller fr (PDict (dput ''context'' (PDict (without_keys [''evidence_reference''] x)) c)) (PDict c)"
    by (rule smaller_dput) (simp add: without_keys_def smaller_filter)
  then show ?thesis using PDict by (simp add: stripped_context_def smaller_refl)
qed (simp_all add: stripped_context_def smaller_refl)

lemma smaller_strip:
  assumes "strip_unsupported v fs = Some w"
  shows "smaller fr w v"
  using assms
proof (cases rule: strip_unsupported_cases)
  case (1 e p)
  then show ?thesis by (simp add: smaller_refl)
next
  case (2 e p)
  let ?c = "dput ''payload'' (PDict (stripped_payload fs p)) e"
  have "dget e ''payload'' = Some (PDict p)" using 2(2) by (auto dest: dgetn_not_none)
  then have "smaller fr (PDict ?c) (PDict e)" by (rule smaller_dput) (rule smaller_stripped_payload)
  moreover have "smaller fr (PDict (stripped_context fs e ?c)) (PDict ?c)"
    by (rule smaller_stripped_context) simp
  ultimately show ?thesis using 2 by (auto intro: smaller_trans)
qed

lemma filter_evidence_smaller:
  assumes "filter_evidence s e = Some r" "json_bytes True True fr (PDict e) \<noteq> None"
  shows "sdk_event_bytes fr r \<le> sdk_event_bytes fr e \<and> json_bytes True True fr (PDict r) \<noteq> None"
proof -
  from assms(1) obtain fs where "strip_unsupported (PDict e) fs = Some (PDict r)"
    unfolding filter_evidence_def by (auto split: option.splits pyval.splits)
  from smaller_strip [OF this, of fr] assms(2) show ?thesis
    by (auto simp: smaller_def sdk_event_bytes_def)
qed

end
