(* ===== verification/Ingestion_Facts.thy ===== *)
theory Ingestion_Facts
  imports Ingestion_Wire
begin

text \<open>
  Correctness of the wire sizing: batches are divided without loss, every body is within one byte of
  the limit (and that byte is the difference between the 12 the code counts and the 13 of the empty
  body), fitted events are within the event limit, and retry hints are bounded.
\<close>

subsection \<open>The size of a body\<close>

definition sizes :: "(rat \<Rightarrow> string) \<Rightarrow> pyval list \<Rightarrow> nat" where
  "sizes fr events = sum_list (map (\<lambda>e. the (json_bytes False False fr e)) events)"

lemma encode_body_length:
  assumes "\<forall>e \<in> set events. json_bytes False False fr e \<noteq> None"
  shows "\<exists>body. encode_body fr events = Inr body \<and> utf8_len body = 13 + sizes fr events + (length events - 1)"
proof -
  have s: "json_str False ''events'' = CHR 0x22 # ''events'' @ [CHR 0x22]"
    by (simp add: json_str_def json_char_def)
  from json_bytes_list [OF assms] obtain t where "json_val False False fr (PList events) = Some t"
    "utf8_len t = 2 + sizes fr events + (length events - 1)"
    by (auto simp: json_bytes_def sizes_def)
  then show ?thesis by (auto simp: encode_body_def s)
qed

lemma prefix_loop_spec:
  "prefix_loop fr events index bytes = Inr n \<Longrightarrow>
   \<exists>k. n = index + k \<and> k \<le> length events \<and>
     (\<forall>e \<in> set (take k events). json_bytes False False fr e \<noteq> None \<and> the (json_bytes False False fr e) \<le> MAX_EVENT_BYTES) \<and>
     (k \<noteq> 0 \<longrightarrow> bytes + sizes fr (take k events) + k - (if index = 0 then 1 else 0) \<le> MAX_BODY_BYTES)"
proof (induction fr events index bytes rule: prefix_loop.induct)
  case (2 fr e es index bytes)
  from "2.prems" obtain m where m: "json_bytes False False fr e = Some m"
    by (auto simp: event_bytes_def split: option.splits)
  let ?cost = "m + (if index \<noteq> 0 then 1 else 0)"
  have em: "event_bytes fr e = Inr m" using m by (simp add: event_bytes_def)
  show ?case
  proof (cases "MAX_BODY_BYTES < bytes + ?cost")
    case True
    with "2.prems" em show ?thesis by (auto simp: Let_def split: if_splits intro!: exI [of _ 0])
  next
    case False
    with "2.prems" em have small: "m \<le> MAX_EVENT_BYTES" and rest: "prefix_loop fr es (Suc index) (bytes + ?cost) = Inr n"
      by (auto simp: Let_def split: if_splits)
    from "2.IH" [OF em refl _ _ rest] small False obtain k where k: "n = Suc index + k" "k \<le> length es"
      "\<forall>e \<in> set (take k es). json_bytes False False fr e \<noteq> None \<and> the (json_bytes False False fr e) \<le> MAX_EVENT_BYTES"
      "k \<noteq> 0 \<longrightarrow> bytes + ?cost + sizes fr (take k es) + k \<le> MAX_BODY_BYTES"
      by auto
    show ?thesis
      by (rule exI [of _ "Suc k"]) (use k m small False in \<open>auto simp: sizes_def\<close>)
  qed
qed auto

lemma prefix_loop_defined:
  "\<forall>e \<in> set events. \<exists>m. json_bytes False False fr e = Some m \<and> m \<le> MAX_EVENT_BYTES \<Longrightarrow>
   \<exists>n. prefix_loop fr events index bytes = Inr n"
  by (induction fr events index bytes rule: prefix_loop.induct) (fastforce simp: event_bytes_def Let_def split: if_splits)+

lemma prefix_loop_first:
  assumes "json_bytes False False fr e = Some m" "m \<le> MAX_EVENT_BYTES"
    and "prefix_loop fr (e # es) 0 12 = Inr n"
  shows "n \<noteq> 0"
proof -
  have "12 + m \<le> MAX_BODY_BYTES" using assms(2) by (simp add: MAX_EVENT_BYTES_def MAX_BODY_BYTES_def)
  with assms have "prefix_loop fr es (Suc 0) (12 + m) = Inr n" by (simp add: event_bytes_def Let_def)
  from prefix_loop_spec [OF this] show ?thesis by auto
qed

text \<open>
  The part of a batch that \<open>prefix\<close> takes is a front piece whose events are each within the event
  limit, and its body is at most one byte longer than the body limit.
\<close>

theorem prefix_body_size:
  assumes "wire_prefix fr events = Inr selected"
  shows "(\<exists>k. selected = take k events) \<and>
    (\<forall>e \<in> set selected. \<exists>n. json_bytes False False fr e = Some n \<and> n \<le> MAX_EVENT_BYTES) \<and>
    (\<exists>body. encode_body fr selected = Inr body \<and> utf8_len body \<le> MAX_BODY_BYTES + 1)"
proof -
  from assms obtain n where n: "prefix_loop fr events 0 12 = Inr n" "selected = take n events"
    by (auto simp: wire_prefix_def split: sum.splits)
  from prefix_loop_spec [OF n(1)] have k: "n \<le> length events"
    "\<forall>e \<in> set selected. json_bytes False False fr e \<noteq> None \<and> the (json_bytes False False fr e) \<le> MAX_EVENT_BYTES"
    "n \<noteq> 0 \<longrightarrow> 12 + sizes fr selected + n - 1 \<le> MAX_BODY_BYTES"
    using n(2) by auto
  have ser: "\<forall>e \<in> set selected. json_bytes False False fr e \<noteq> None" using k(2) by blast
  from encode_body_length [OF ser] obtain body where t: "encode_body fr selected = Inr body"
    "utf8_len body = 13 + sizes fr selected + (length selected - 1)" by blast
  have "utf8_len body \<le> MAX_BODY_BYTES + 1"
    using t(2) k(1,3) n(2) by (cases n) (auto simp: sizes_def MAX_BODY_BYTES_def)
  with t(1) k(2) n(2) show ?thesis by fastforce
qed

lemma chunks_ok:
  assumes "\<forall>e \<in> set events. \<exists>n. json_bytes False False fr e = Some n \<and> n \<le> MAX_EVENT_BYTES"
  shows "\<exists>cs. chunks fr events = Inr cs \<and> concat cs = events \<and> [] \<notin> set cs"
  using assms
proof (induction "length events" arbitrary: events rule: less_induct)
  case less
  show ?case
  proof (cases events)
    case Nil
    then show ?thesis by (simp add: chunks.simps)
  next
    case (Cons e es)
    obtain n where n: "prefix_loop fr events 0 12 = Inr n" using prefix_loop_defined less.prems by blast
    with Cons less.prems have "n \<noteq> 0" using prefix_loop_first [of fr e _ es n] by fastforce
    moreover have "n \<le> length events" using prefix_loop_spec [OF n] by auto
    ultimately have sel: "wire_prefix fr events = Inr (take n events)" "take n events \<noteq> []"
      "length (take n events) = n" "length (drop n events) < length events"
      using n Cons by (auto simp: wire_prefix_def)
    have "\<forall>e \<in> set (drop n events). \<exists>n. json_bytes False False fr e = Some n \<and> n \<le> MAX_EVENT_BYTES"
      using less.prems by (auto dest: in_set_dropD)
    from less.hyps [OF sel(4) this] obtain cs where
      "chunks fr (drop n events) = Inr cs" "concat cs = drop n events" "[] \<notin> set cs" by blast
    with sel Cons show ?thesis by (subst chunks.simps) auto
  qed
qed

text \<open>
  A batch whose events are each within the event limit is always divided: the pieces are non-empty,
  in order, and together are the batch.
\<close>

theorem chunks_total:
  assumes "\<forall>e \<in> set events. \<exists>n. json_bytes False False fr e = Some n \<and> n \<le> MAX_EVENT_BYTES"
  shows "\<exists>cs. chunks fr events = Inr cs \<and> concat cs = events \<and> [] \<notin> set cs"
  by (rule chunks_ok [OF assms])

definition small_event :: "nat \<Rightarrow> pyval" where
  "small_event n = PDict [(PStr ''k'', PStr (replicate n CHR ''a''))]"

lemma json_a: "concat (map (json_char ea) (replicate n CHR ''a'')) = replicate n CHR ''a''"
  by (induction n) (simp_all add: json_char_def)

lemma small_event_bytes: "json_bytes False False fr (small_event n) = Some (n + 8)"
  by (simp add: small_event_def json_bytes_def json_str_def json_a utf8_len_replicate json_char_def)

theorem chunks_total_witness:
  "\<exists>cs. chunks (\<lambda>q. []) [small_event 3, small_event 5] = Inr cs \<and> concat cs = [small_event 3, small_event 5]"
  using chunks_total [of "[small_event 3, small_event 5]" "\<lambda>q. []"]
  by (auto simp: small_event_bytes MAX_EVENT_BYTES_def MAX_BODY_BYTES_def)

theorem prefix_body_size_witness:
  "\<exists>body. encode_body (\<lambda>q. []) [small_event 3] = Inr body \<and> utf8_len body \<le> MAX_BODY_BYTES + 1"
proof -
  have "wire_prefix (\<lambda>q. []) [small_event 3] = Inr [small_event 3]"
    by (simp add: wire_prefix_def event_bytes_def small_event_bytes Let_def MAX_EVENT_BYTES_def MAX_BODY_BYTES_def)
  from prefix_body_size [OF this] show ?thesis by blast
qed

text \<open>
  The extra byte is real: two events within the event limit make a prefix that the transport then
  refuses as too large, whatever the deadline and the network.
\<close>

theorem prefix_overflows_transport:
  fixes fr now deadline
  defines "events \<equiv> [small_event 131058, small_event 131057]"
  shows "wire_prefix fr events = Inr events \<and>
    (now < deadline \<longrightarrow> send_until fr seconds network now deadline events = Inl BodyTooLarge)"
proof -
  have b: "json_bytes False False fr (small_event 131058) = Some 131066"
    "json_bytes False False fr (small_event 131057) = Some 131065"
    by (simp_all add: small_event_bytes)
  have "wire_prefix fr events = Inr events"
    by (simp add: events_def wire_prefix_def event_bytes_def b Let_def MAX_EVENT_BYTES_def MAX_BODY_BYTES_def)
  moreover from encode_body_length [of events fr] obtain body where
    "encode_body fr events = Inr body" "utf8_len body = MAX_BODY_BYTES + 1"
    by (auto simp: events_def b sizes_def MAX_BODY_BYTES_def)
  ultimately show ?thesis by (simp add: send_until_def Let_def min_def)
qed

theorem prefix_overflows_transport_witness:
  "send_until (\<lambda>q. []) (\<lambda>s. None) (\<lambda>t r. Inl Unserialisable) 0 5
     [small_event 131058, small_event 131057] = Inl BodyTooLarge"
  using prefix_overflows_transport [of "\<lambda>q. []" 0 5 "\<lambda>s. None" "\<lambda>t r. Inl Unserialisable"] by simp

subsection \<open>Fitting an event\<close>

lemma without_optional_eq:
  assumes "without_optional (PDict e) = Some v"
  shows "v = PDict (dput ''payload'' (PDict (without_keys optional_fields (payload_of e))) e)"
  using assms by (auto simp: payload_of_def split: pyval.splits if_splits)

definition same_identity :: "pydict \<Rightarrow> pydict \<Rightarrow> bool" where
  "same_identity e e' \<longleftrightarrow> (\<forall>k. k \<notin> {''payload'', ''context''} \<longrightarrow> dget e' k = dget e k) \<and>
     (\<forall>k. k \<notin> set optional_fields \<longrightarrow> dget (payload_of e') k = dget (payload_of e) k)"

lemma same_identity_refl: "same_identity e e"
  by (simp add: same_identity_def)

lemma same_identity_context: "same_identity e e' \<Longrightarrow> same_identity e (dput ''context'' c e')"
  by (auto simp: same_identity_def payload_of_def)

lemma same_identity_reduced:
  "same_identity e (dput ''payload'' (PDict (without_keys optional_fields (payload_of e))) e)"
  by (auto simp: same_identity_def payload_of_def)

definition fitted :: "(rat \<Rightarrow> string) \<Rightarrow> pydict \<Rightarrow> pyval \<Rightarrow> bool" where
  "fitted fr e out \<longleftrightarrow> (\<exists>n. json_bytes False False fr out = Some n \<and> n \<le> MAX_EVENT_BYTES) \<and>
     (\<exists>e'. out = PDict e' \<and> same_identity e e')"

lemma fit_without_reference_fitted:
  "fit_without_reference fr r = Inr (Some out) \<Longrightarrow> same_identity e r \<Longrightarrow> fitted fr e out"
  by (auto simp: fit_without_reference_def fitted_def event_bytes_def Let_def same_identity_context
      split: pyval.splits if_splits sum.splits option.splits)

lemma fit_reduced_fitted:
  "fit_reduced fr e r = Inr (Some out) \<Longrightarrow> same_identity e r \<Longrightarrow> fitted fr e out"
  by (auto simp: fit_reduced_def Let_def event_bytes_def same_identity_context fitted_def
      split: pyval.splits if_splits sum.splits option.splits dest: fit_without_reference_fitted [unfolded fitted_def])

lemma fit_facts:
  assumes "fit_event fr (Some e) = Inr (Some out)"
  shows "fitted fr e out \<and>
    (\<forall>n. json_bytes False False fr (PDict e) = Some n \<longrightarrow> n \<le> MAX_EVENT_BYTES \<longrightarrow> out = PDict e)"
proof -
  from assms obtain n where n: "json_bytes False False fr (PDict e) = Some n"
    by (auto simp: fit_event_def event_bytes_def split: sum.splits option.splits)
  show ?thesis
  proof (cases "n \<le> MAX_EVENT_BYTES")
    case True
    with assms n show ?thesis by (auto simp: fit_event_def event_bytes_def fitted_def same_identity_refl)
  next
    case False
    show ?thesis
    proof (cases "without_optional (PDict e)")
      case None
      with assms n False have "fit_without_reference fr e = Inr (Some out)"
        by (simp add: fit_event_def event_bytes_def del: without_optional.simps)
      with fit_without_reference_fitted [OF this same_identity_refl] n False show ?thesis by simp
    next
      case (Some v)
      from without_optional_eq [OF Some] assms n False Some
      have "fit_reduced fr e (dput ''payload'' (PDict (without_keys optional_fields (payload_of e))) e) = Inr (Some out)"
        by (simp add: fit_event_def event_bytes_def del: without_optional.simps)
      with fit_reduced_fitted [OF this same_identity_reduced] n False show ?thesis by simp
    qed
  qed
qed

text \<open>
  Fitting returns an event within the event limit or none, never touches an event that is already
  within it, and keeps the event's identity: every field other than the payload and the context, and
  every payload field other than the optional evidence.
\<close>

theorem fit_event_sound:
  assumes "fit_event fr (Some e) = Inr (Some out)"
  shows "fitted fr e out \<and>
    (\<forall>n. json_bytes False False fr (PDict e) = Some n \<longrightarrow> n \<le> MAX_EVENT_BYTES \<longrightarrow> out = PDict e)"
  by (rule fit_facts [OF assms])

definition big_event :: pydict where
  "big_event = [(PStr ''event_type'', PStr ''backend_exception''),
     (PStr ''payload'', PDict [(PStr ''message'', PStr ''boom''), (PStr ''execution'', small_event 262144)])]"

theorem fit_event_sound_witness:
  "\<exists>out. fit_event (\<lambda>q. []) (Some big_event) = Inr (Some out) \<and> fitted (\<lambda>q. []) big_event out"
proof -
  let ?fr = "\<lambda>q::rat. []::string"
  have b: "json_bytes False False ?fr (PDict big_event) = Some (262152 + 76)"
    by (simp add: big_event_def small_event_def json_bytes_def json_str_def json_char_def json_a utf8_len_replicate)
  have w: "without_optional (PDict big_event) = Some (PDict (dput ''payload'' (PDict [(PStr ''message'', PStr ''boom'')]) big_event))"
    by (simp add: big_event_def dgetn_def has_key_def optional_fields_def without_keys_def str_keys_def)
  let ?r = "dput ''payload'' (PDict [(PStr ''message'', PStr ''boom'')]) big_event"
  have "fit_event ?fr (Some big_event) = fit_reduced ?fr big_event ?r"
    using b w by (simp add: fit_event_def event_bytes_def MAX_EVENT_BYTES_def MAX_BODY_BYTES_def del: without_optional.simps)
  moreover have "\<exists>out. fit_reduced ?fr big_event ?r = Inr (Some out)"
    by (simp add: fit_reduced_def event_bytes_def MAX_EVENT_BYTES_def MAX_BODY_BYTES_def dget_or_def Let_def
        big_event_def limits_note_def payload_of_def dgetn_def has_key_def optional_fields_def dput_def json_bytes_def
        json_str_def json_char_def)
  ultimately have "\<exists>out. fit_event ?fr (Some big_event) = Inr (Some out)" by simp
  then show ?thesis using fit_event_sound by blast
qed

subsection \<open>Retry hints\<close>

text \<open>
  Every delay the transport reads from a response, in the body or in a header, lies between 0 and
  five minutes, and the delay of a numeric hint inside that range is the hint itself, rounded down.
\<close>

theorem retry_after_bounded:
  "(0 \<le> dflt \<and> dflt \<le> 300000 \<longrightarrow> 0 \<le> bounded_retry_after_ms v dflt \<and> bounded_retry_after_ms v dflt \<le> 300000) \<and>
   (\<forall>ms. parse_retry_after seconds header = Some ms \<longrightarrow> 0 \<le> ms \<and> ms \<le> 300000) \<and>
   (\<forall>q. 0 \<le> q \<and> q \<le> 300000 \<longrightarrow> bounded_retry_after_ms (PFloat (Fin q)) dflt = \<lfloor>q\<rfloor>)"
proof (intro conjI impI allI)
  have fl: "0 \<le> \<lfloor>min (300000::rat) (max 0 q)\<rfloor> \<and> \<lfloor>min (300000::rat) (max 0 q)\<rfloor> \<le> 300000" for q
    by (simp add: floor_le_iff)
  show "0 \<le> bounded_retry_after_ms v dflt" "bounded_retry_after_ms v dflt \<le> 300000" if "0 \<le> dflt \<and> dflt \<le> 300000"
    using that fl by (auto simp: bounded_retry_after_ms_def MAX_RETRY_AFTER_MS_def split: pyval.splits pyfloat.splits)
  show "0 \<le> ms" "ms \<le> 300000" if "parse_retry_after seconds header = Some ms" for ms
    using that fl by (auto simp: parse_retry_after_def bounded_retry_after_ms_def MAX_RETRY_AFTER_MS_def
        split: option.splits pyfloat.splits)
  show "bounded_retry_after_ms (PFloat (Fin q)) dflt = \<lfloor>q\<rfloor>" if "0 \<le> q \<and> q \<le> 300000" for q
    using that by (simp add: bounded_retry_after_ms_def MAX_RETRY_AFTER_MS_def)
qed

theorem retry_after_bounded_witness:
  "bounded_retry_after_ms (PInt 999999) 1000 \<le> 300000 \<and> bounded_retry_after_ms (PFloat (Fin 1500)) 1000 = 1500"
  using retry_after_bounded [of 1000 "PInt 999999" "\<lambda>s. None" None] retry_after_bounded [of 1000 PNone "\<lambda>s. None" None]
  by auto

end
