(* ===== verification/Flush_Facts.thy ===== *)
theory Flush_Facts
  imports Flush Queue_Facts Strip_Size Ingestion_Facts
begin

text \<open>
  The sections of a flush keep the books of the queue and hand the in-flight front from one to the
  next: what a section is given stands at the front of the buffer, and what it returns does so too.
\<close>

definition front :: "sdk \<Rightarrow> (nat \<times> pydict) list \<Rightarrow> bool" where
  "front s xs \<longleftrightarrow> inflight_count s = int (length xs) \<and> (\<exists>tail. buffer s = xs @ tail)"

text \<open>No event waits without a flush under way or a timer set, and no timer is set
  during a flush; \<open>dp\<close> says that the SDK may have been disposed of, which leaves its queue alone.\<close>

definition live :: "bool \<Rightarrow> sdk \<Rightarrow> bool" where
  "live dp s \<longleftrightarrow> (if sending s then timer s = None else dp \<or> buffer s = [] \<or> timer s \<noteq> None)"

text \<open>Every event of the queue can be written as JSON.\<close>

definition writable :: "(rat \<Rightarrow> string) \<Rightarrow> (nat \<times> pydict) list \<Rightarrow> bool" where
  "writable fr xs \<longleftrightarrow> (\<forall>x \<in> set xs. json_bytes True True fr (PDict (snd x)) \<noteq> None)"

lemma front_undisturbed:
  assumes "undisturbed s s'" "front s xs"
  shows "front s' xs"
proof -
  from assms(2) have n: "nat (inflight_count s) = length xs" "length xs \<le> length (buffer s)"
    "take (length xs) (buffer s) = xs" by (auto simp: front_def)
  with assms(1) have "take (length xs) (buffer s') = xs" "inflight_count s' = int (length xs)"
    using assms(2) by (auto simp: undisturbed_def front_def)
  then show ?thesis by (metis front_def append_take_drop_id)
qed

lemma front_schedule [simp]: "front (schedule_flush now d s) xs = front s xs"
  by (simp add: front_def)

lemma live_schedule: "live dp s \<Longrightarrow> live dp (schedule_flush now d s)"
  by (auto simp: live_def schedule_flush_timer)

lemma live_schedule_idle: "\<not> sending s \<Longrightarrow> live dp (schedule_flush now d s)"
  by (simp add: live_def schedule_flush_timer(2))

lemma queue_ok_sending [simp]:
  "queue_ok fr me mb (s\<lparr>sending := b\<rparr>) = queue_ok fr me mb s"
  "queue_ok fr me mb (s\<lparr>timer := t\<rparr>) = queue_ok fr me mb s"
  "queue_ok fr me mb (s\<lparr>suppression := st\<rparr>) = queue_ok fr me mb s"
  "queue_ok fr me mb (s\<lparr>last_pressure_report_at := r\<rparr>) = queue_ok fr me mb s"
  "queue_ok fr me mb (s\<lparr>pending_low_priority := k\<rparr>) = queue_ok fr me mb s"
  "queue_ok fr me mb (s\<lparr>retry_after := r\<rparr>) = queue_ok fr me mb s"
  "queue_ok fr me mb (s\<lparr>last_event_at := l\<rparr>) = queue_ok fr me mb s"
  "queue_ok fr me mb (s\<lparr>consecutive_failures := f\<rparr>) = queue_ok fr me mb s"
  "queue_ok fr me mb (s\<lparr>features := fs\<rparr>) = queue_ok fr me mb s"
  by (simp_all add: queue_ok_def)

lemma queue_ok_inflight: "queue_ok fr me mb s \<Longrightarrow> 0 \<le> n \<Longrightarrow> queue_ok fr me mb (s\<lparr>inflight_count := n\<rparr>)"
  by (simp add: queue_ok_def)

lemma reschedule_ok:
  assumes "queue_ok fr me mb s" "\<not> sending s"
  shows "queue_ok fr me mb (reschedule now s)" "live dp (reschedule now s)" "\<not> sending (reschedule now s)"
    "inflight_count (reschedule now s) = inflight_count s" "buffer (reschedule now s) = buffer s"
    "generation (reschedule now s) = generation s"
  using assms live_schedule_idle [OF assms(2)] by (auto simp: reschedule_def live_def)

lemma pressure_report_ok:
  "queue_ok fr me mb s \<Longrightarrow> queue_ok fr me mb (schedule_pressure_report now s)"
  "live dp s \<Longrightarrow> live dp (schedule_pressure_report now s)"
  "sending (schedule_pressure_report now s) = sending s"
  "buffer (schedule_pressure_report now s) = buffer s"
  "inflight_count (schedule_pressure_report now s) = inflight_count s"
  "generation (schedule_pressure_report now s) = generation s"
  "pending_low_priority (schedule_pressure_report now s) = pending_low_priority s"
  by (simp_all add: schedule_pressure_report_def live_schedule)

subsection \<open>Start\<close>

lemma flush_start_ok:
  assumes "queue_ok fr me mb s" "live dp s" "flush_start to_iso m now s = (r, s')"
  shows "queue_ok fr me mb s'" "live dp s'" "buffer s' = buffer s" "generation s' = generation s"
    "inflight_count s' = inflight_count s" "http s' = http s"
    "r = None \<Longrightarrow> sending s' = sending s"
    "r = Some (g, a, c) \<Longrightarrow> \<not> sending s \<and> sending s' \<and> g = generation s"
  using assms
  by (auto simp: flush_start_def Let_def split_beta live_def schedule_flush_timer split: if_splits)

subsection \<open>Taking the batch\<close>

definition offers_ok :: "(rat \<Rightarrow> string) \<Rightarrow> (nat \<times> pydict \<times> int) list \<Rightarrow> sdk \<Rightarrow> bool" where
  "offers_ok fr offers s \<longleftrightarrow> distinct (map fst offers) \<and>
     (\<forall>(oid, e, n) \<in> set offers. oid \<notin> set (ids s) \<and> n = sdk_event_bytes fr e \<and> json_bytes True True fr (PDict e) \<noteq> None)"

lemma offers_ok_mono:
  assumes "offers_ok fr offers s" "set (ids t) \<subseteq> set (ids s) \<union> X" "X \<inter> set (map fst offers) = {}"
  shows "offers_ok fr offers t"
  unfolding offers_ok_def
proof (intro conjI ballI)
  show "distinct (map fst offers)" using assms(1) by (simp add: offers_ok_def)
  fix x assume x: "x \<in> set offers"
  obtain oid e n where xe: "x = (oid, e, n)" by (cases x) auto
  with assms(1) x have "oid \<notin> set (ids s)" "n = sdk_event_bytes fr e" "json_bytes True True fr (PDict e) \<noteq> None"
    by (auto simp: offers_ok_def)
  moreover have "oid \<in> set (map fst offers)" using x xe by force
  ultimately show "case x of (oid, e, n) \<Rightarrow> oid \<notin> set (ids t) \<and> n = sdk_event_bytes fr e \<and>
      json_bytes True True fr (PDict e) \<noteq> None"
    using assms(2,3) xe by blast
qed

lemma offers_ok_Cons:
  "offers_ok fr (x # offers) s \<Longrightarrow> offers_ok fr offers s \<and> {fst x} \<inter> set (map fst offers) = {}"
  by (auto simp: offers_ok_def)

lemma offers_ok_append:
  "offers_ok fr (xs @ ys) s \<Longrightarrow> offers_ok fr ys s \<and> set (map fst xs) \<inter> set (map fst ys) = {}"
  by (auto simp: offers_ok_def)

lemma writable_subset: "writable fr xs \<Longrightarrow> set ys \<subseteq> set xs \<Longrightarrow> writable fr ys"
  by (auto simp: writable_def)

lemma writable_insert: "writable fr xs \<Longrightarrow> json_bytes True True fr (PDict e) \<noteq> None \<Longrightarrow>
   set ys \<subseteq> insert (i, e) (set xs) \<Longrightarrow> writable fr ys"
  by (auto simp: writable_def simp del: not_None_eq)

lemma offer_all_ok:
  "queue_ok fr me mb s \<Longrightarrow> writable fr (buffer s) \<Longrightarrow> offers_ok fr offers s \<Longrightarrow>
   \<exists>s'. offer_all fr fromiso now me mb offers s = Some s' \<and> queue_ok fr me mb s' \<and> writable fr (buffer s') \<and>
     undisturbed s s' \<and> set (ids s') \<subseteq> set (ids s) \<union> set (map fst offers)"
proof (induction offers arbitrary: s)
  case Nil
  then show ?case by (simp add: undisturbed_refl)
next
  case (Cons x offers)
  obtain oid e n where x: "x = (oid, e, n)" by (cases x) auto
  from Cons.prems(3) x have new: "oid \<notin> set (ids s)" "n = sdk_event_bytes fr e" "json_bytes True True fr (PDict e) \<noteq> None"
    by (auto simp: offers_ok_def)
  from offer_ok [OF Cons.prems(1) new(1,2), of fromiso now] obtain b t where
    t: "offer_protected_event fr fromiso now oid e n me mb s = Some (b, t)" "queue_ok fr me mb t" "undisturbed s t"
      "set (buffer t) \<subseteq> insert (oid, e) (set (buffer s))" by blast
  have idt: "set (ids t) \<subseteq> insert oid (set (ids s))" using t(4) by auto
  have "writable fr (buffer t)" using writable_insert [OF Cons.prems(2) new(3) t(4)] .
  moreover have "offers_ok fr offers t"
    using offers_ok_Cons [OF Cons.prems(3)] idt x by (intro offers_ok_mono [of fr offers s t "{oid}"]) auto
  ultimately obtain s' where s': "offer_all fr fromiso now me mb offers t = Some s'" "queue_ok fr me mb s'"
    "writable fr (buffer s')" "undisturbed t s'" "set (ids s') \<subseteq> set (ids t) \<union> set (map fst offers)"
    using Cons.IH [OF t(2)] by blast
  moreover from s'(5) idt x have "set (ids s') \<subseteq> set (ids s) \<union> set (map fst (x # offers))"
    by (simp only: list.map set_simps fst_conv) blast
  ultimately show ?case using x t undisturbed_trans [OF t(3) s'(4)] by simp
qed

lemma offer_pressure_ok:
  assumes "queue_ok fr me mb s" "writable fr (buffer s)" "offers_ok fr (case pressure of None \<Rightarrow> [] | Some p \<Rightarrow> [p]) s"
  shows "\<exists>s'. offer_pressure fr fromiso now t0 me mb c pressure s = Some s' \<and> queue_ok fr me mb s' \<and>
    writable fr (buffer s') \<and> undisturbed s s'"
proof (cases pressure)
  case None
  with assms show ?thesis by (simp add: offer_pressure_def undisturbed_refl)
next
  case (Some p)
  obtain oid e n where p: "p = (oid, e, n)" by (cases p) auto
  with assms(3) Some have new: "oid \<notin> set (ids s)" "n = sdk_event_bytes fr e" "json_bytes True True fr (PDict e) \<noteq> None"
    by (auto simp: offers_ok_def)
  from offer_ok [OF assms(1) new(1,2), of fromiso now] obtain b t where
    t: "offer_protected_event fr fromiso now oid e n me mb s = Some (b, t)" "queue_ok fr me mb t" "undisturbed s t"
      "set (buffer t) \<subseteq> insert (oid, e) (set (buffer s))" by blast
  have "writable fr (buffer t)" using writable_insert [OF assms(2) new(3) t(4)] .
  with Some p t assms show ?thesis
    by (cases b) (auto simp: offer_pressure_def undisturbed_refl undisturbed_def)
qed

lemma flush_take_ok:
  assumes ok: "queue_ok fr me mb s" and w: "writable fr (buffer s)" and send: "sending s" "timer s = None"
    and o: "offers_ok fr (aggregates @ (case pressure of None \<Rightarrow> [] | Some p \<Rightarrow> [p])) s"
    and idle: "gen = generation s \<longrightarrow> inflight_count s = 0"
  shows "\<exists>r s'. flush_take fr fromiso now t0 me mb gen aggregates pressure c s = Some (r, s') \<and>
    queue_ok fr me mb s' \<and> writable fr (buffer s') \<and> live dp s' \<and> generation s' = generation s \<and>
    (case r of None \<Rightarrow> \<not> sending s' \<and> inflight_count s' = 0
     | Some batch \<Rightarrow> sending s' \<and> gen = generation s \<and> front s' batch \<and> batch \<noteq> [])"
proof (cases "gen = generation s")
  case False
  let ?s = "s\<lparr>sending := False, inflight_count := 0\<rparr>"
  have "queue_ok fr me mb ?s" using ok by (simp add: queue_ok_inflight)
  from reschedule_ok [OF this, where now = now] w False show ?thesis by (simp add: flush_take_def)
next
  case True
  from o have o1: "offers_ok fr aggregates s" by (auto simp: offers_ok_def)
  from offer_all_ok [OF ok w o1, of fromiso now] obtain s1 where
    s1: "offer_all fr fromiso now me mb aggregates s = Some s1" "queue_ok fr me mb s1" "writable fr (buffer s1)"
      "undisturbed s s1" "set (ids s1) \<subseteq> set (ids s) \<union> set (map fst aggregates)" by blast
  have o2: "offers_ok fr (case pressure of None \<Rightarrow> [] | Some p \<Rightarrow> [p]) s1"
    using offers_ok_append [OF o] s1(5) by (intro offers_ok_mono [OF _ s1(5)]) auto
  from offer_pressure_ok [OF s1(2,3) o2, of fromiso now t0 c] obtain s2 where
    s2: "offer_pressure fr fromiso now t0 me mb c pressure s1 = Some s2" "queue_ok fr me mb s2"
      "writable fr (buffer s2)" "undisturbed s1 s2" by blast
  have u: "undisturbed s s2" using undisturbed_trans [OF s1(4) s2(4)] .
  then have same: "sending s2" "timer s2 = None" "generation s2 = generation s" "inflight_count s2 = 0"
    using send idle True by (auto simp: undisturbed_def)
  show ?thesis
  proof (cases "buffer s2 = []")
    case True
    have "live dp (s2\<lparr>sending := False\<rparr>)" using True by (simp add: live_def)
    then show ?thesis using True \<open>gen = generation s\<close> s1(1) s2 same
      by (simp add: flush_take_def pressure_report_ok)
  next
    case False
    have "queue_ok fr me mb (s2\<lparr>inflight_count := int (length (buffer s2)), pending_low_priority := 0\<rparr>)"
      using queue_ok_inflight [OF s2(2)] by simp
    with False \<open>gen = generation s\<close> s1(1) s2 same show ?thesis
      by (simp add: flush_take_def front_def live_def)
  qed
qed

subsection \<open>Finalizing one event\<close>

definition opt_list :: "'a option \<Rightarrow> 'a list" where
  "opt_list x = (case x of None \<Rightarrow> [] | Some y \<Rightarrow> [y])"

text \<open>Replacing the event at one position: a new identity with its own size.\<close>

lemma queue_ok_replace:
  assumes ok: "queue_ok fr me mb s" and buf: "buffer s = done @ (oid, e) # rest"
    and new: "new \<notin> set (ids s)" and fits: "buffer_bytes s - sdk_event_bytes fr e + sdk_event_bytes fr r \<le> mb"
  shows "queue_ok fr me mb (s\<lparr>buffer := done @ (new, r) # rest,
    buffer_sizes := AList.update new (sdk_event_bytes fr r) (AList.delete oid (buffer_sizes s)),
    buffer_bytes := buffer_bytes s + (sdk_event_bytes fr r - sdk_event_bytes fr e),
    hook_bypass := removeAll oid (if oid \<in> set (hook_bypass s) then new # hook_bypass s else hook_bypass s)\<rparr>)"
proof -
  have old: "map_of (buffer_sizes s) oid = Some (sdk_event_bytes fr e)"
    using size_of_event [OF ok, of oid e] buf by simp
  have none: "map_of (buffer_sizes s) new = None"
    using new queue_okD(3) [OF ok] by (simp add: map_of_eq_None_iff)
  have neq: "new \<noteq> oid" using new buf by auto
  have "total (\<lambda>n. n) (AList.update new (sdk_event_bytes fr r) (AList.delete oid (buffer_sizes s))) =
      total (\<lambda>n. n) (buffer_sizes s) - sdk_event_bytes fr e + sdk_event_bytes fr r"
    using sizes.rename_total [OF queue_okD(2) [OF ok] old none neq [symmetric]] .
  moreover have keys: "dom (map_of (AList.update new (sdk_event_bytes fr r) (AList.delete oid (buffer_sizes s)))) =
      insert new (dom (map_of (buffer_sizes s)) - {oid})"
    by (simp add: update_conv' delete_conv')
  moreover have dist: "distinct (map fst done @ oid # map fst rest)" using queue_okD(1) [OF ok] buf by simp
  moreover have "set (ids s) = set (map fst done @ oid # map fst rest)" using buf by simp
  note prior = calculation
  have others: "y \<in> set (buffer s) \<and> fst y \<noteq> oid \<and> fst y \<noteq> new" if "y \<in> set done \<union> set rest" for y
    using that dist buf new by (force simp: image_iff)
  have "\<forall>x \<in> set (done @ (new, r) # rest).
      map_of (AList.update new (sdk_event_bytes fr r) (AList.delete oid (buffer_sizes s))) (fst x) =
      Some (sdk_event_bytes fr (snd x))"
    using others queue_okD(5) [OF ok] by (auto simp: update_conv' delete_conv')
  with prior dist \<open>set (ids s) = _\<close> show ?thesis
    using ok new fits neq buf queue_okD(8) [OF ok] unfolding queue_ok_def dom_map_of_conv_image_fst [symmetric]
    by (auto simp: distinct_update distinct_delete)
qed

lemma queue_ok_remove:
  assumes ok: "queue_ok fr me mb s" and buf: "buffer s = done @ (oid, e) # rest" and pos: "0 < inflight_count s"
  shows "queue_ok fr me mb (s\<lparr>buffer := done @ rest, buffer_sizes := AList.delete oid (buffer_sizes s),
    buffer_bytes := buffer_bytes s - sdk_event_bytes fr e, hook_bypass := removeAll oid (hook_bypass s),
    inflight_count := inflight_count s - 1\<rparr>)"
proof -
  have old: "map_of (buffer_sizes s) oid = Some (sdk_event_bytes fr e)"
    using size_of_event [OF ok, of oid e] buf by simp
  have "total (\<lambda>n. n) (AList.delete oid (buffer_sizes s)) = total (\<lambda>n. n) (buffer_sizes s) - sdk_event_bytes fr e"
    using sizes.sum_drop_old [OF queue_okD(2) [OF ok] old] .
  moreover have "dom (map_of (AList.delete oid (buffer_sizes s))) = dom (map_of (buffer_sizes s)) - {oid}"
    by (simp add: delete_conv')
  moreover have dist: "distinct (map fst done @ oid # map fst rest)" using queue_okD(1) [OF ok] buf by simp
  moreover have "\<forall>x \<in> set (done @ rest). map_of (AList.delete oid (buffer_sizes s)) (fst x) = Some (sdk_event_bytes fr (snd x))"
    using dist buf queue_okD(5) [OF ok] by (auto simp: delete_conv' image_iff)
  moreover have "buffer_bytes s - sdk_event_bytes fr e \<le> mb"
    using queue_okD(7) [OF ok] sdk_event_bytes_nonneg [of fr e] by linarith
  ultimately show ?thesis
    using ok pos buf queue_okD(8) [OF ok] unfolding queue_ok_def dom_map_of_conv_image_fst [symmetric]
    by (auto simp: distinct_delete)
qed

definition replacement_ok ::
  "(rat \<Rightarrow> string) \<Rightarrow> (string \<Rightarrow> bool) \<Rightarrow> sdk \<Rightarrow> (nat \<times> pydict \<times> int) option \<Rightarrow> bool" where
  "replacement_ok fr br s replacement \<longleftrightarrow> (case replacement of None \<Rightarrow> True
     | Some (oid, r, n) \<Rightarrow> oid \<notin> set (ids s) \<and> n = sdk_event_bytes fr r \<and>
         json_bytes True True fr (PDict r) \<noteq> None \<and> replacement_allowed br s r \<noteq> None)"

lemma finalize_one_ok:
  assumes ok: "queue_ok fr me mb s" and w: "writable fr (buffer s)" and f: "front s (done @ x # todo)"
    and rep: "replacement_ok fr br s replacement"
  shows "\<exists>r s'. finalize_one fr fromiso br now mb (length done) x replacement s = Some (length (done @ opt_list r), r, s') \<and>
    queue_ok fr me mb s' \<and> writable fr (buffer s') \<and> front s' (done @ opt_list r @ todo) \<and>
    sending s' = sending s \<and> generation s' = generation s \<and> http s' = http s \<and> timer s' = timer s \<and>
    (\<forall>y. r = Some y \<longrightarrow> (\<exists>n. replacement = Some (fst y, snd y, n)))"
proof -
  obtain oid e where x: "x = (oid, e)" by (cases x)
  obtain tail where buf: "buffer s = done @ (oid, e) # todo @ tail"
    and inf: "inflight_count s = int (length done + Suc (length todo))" using f x by (auto simp: front_def)
  have old: "map_of (buffer_sizes s) oid = Some (sdk_event_bytes fr e)"
    using size_of_event [OF ok, of oid e] buf by simp
  let ?allowed = "case replacement of None \<Rightarrow> Some False | Some (_, r, _) \<Rightarrow> replacement_allowed br s r"
  obtain a where a: "?allowed = Some a" using rep by (auto simp: replacement_ok_def split: option.splits prod.splits)
  let ?n = "case replacement of None \<Rightarrow> 0 | Some (_, _, n) \<Rightarrow> n"
  let ?fits = "buffer_bytes s - sdk_event_bytes fr e + ?n \<le> mb"
  let ?rec = "if a \<and> ?fits then reconcile_diagnostic fr fromiso now (Some e) (map_option (\<lambda>(_, r, _). r) replacement) s
    else (a, s)"
  obtain g s1 where rec: "?rec = (g, s1)" by (cases ?rec)
  obtain d where s1: "s1 = s\<lparr>diagnostics := d\<rparr>" "budget_ok fr d"
  proof (cases "a \<and> ?fits")
    case True
    with rec reconcile_frame [of fr fromiso now "Some e" "map_option (\<lambda>(_, r, _). r) replacement" s] queue_okD(9) [OF ok] that
    show ?thesis by auto
  next
    case False
    with rec queue_okD(9) [OF ok] that [of "diagnostics s"] show ?thesis by auto
  qed
  have ok1: "queue_ok fr me mb s1" unfolding s1(1) by (rule queue_ok_diagnostics [OF ok s1(2)])
  have buf1: "buffer s1 = done @ (oid, e) # todo @ tail" "\<not> length (buffer s1) \<le> length done" using s1 buf by auto
  show ?thesis
  proof (cases "g \<and> ?fits")
    case True
    with rec a have "a" by (auto split: if_splits)
    with a obtain new r n where r: "replacement = Some (new, r, n)" by (cases replacement) auto
    with rep have new: "new \<notin> set (ids s)" "n = sdk_event_bytes fr r" "json_bytes True True fr (PDict r) \<noteq> None"
      by (auto simp: replacement_ok_def)
    let ?s = "s1\<lparr>buffer := done @ (new, r) # todo @ tail,
      buffer_sizes := AList.update new (sdk_event_bytes fr r) (AList.delete oid (buffer_sizes s1)),
      buffer_bytes := buffer_bytes s1 + (sdk_event_bytes fr r - sdk_event_bytes fr e),
      hook_bypass := removeAll oid (if oid \<in> set (hook_bypass s1) then new # hook_bypass s1 else hook_bypass s1)\<rparr>"
    have "replacement_allowed br s r = Some True" "reconcile_diagnostic fr fromiso now (Some e) (Some r) s = (g, s1)"
      using a rec r True \<open>a\<close> by auto
    then have "finalize_one fr fromiso br now mb (length done) x replacement s = Some (Suc (length done), Some (new, r), ?s)"
      using True r new(2) old x buf1 by (simp add: finalize_one_def Let_def)
    moreover have "queue_ok fr me mb ?s"
      by (rule queue_ok_replace [OF ok1 buf1(1)]) (use new True r s1 in auto)
    moreover have "writable fr (buffer ?s)" using w buf new(3) by (auto simp: writable_def simp del: not_None_eq)
    moreover have "front ?s (done @ opt_list (Some (new, r)) @ todo)" using inf s1 by (simp add: front_def opt_list_def)
    ultimately show ?thesis using s1 r
      by (intro exI [of _ "Some (new, r)"] exI [of _ ?s]) (simp add: opt_list_def)
  next
    case False
    obtain d2 where d2: "snd (reconcile_diagnostic fr fromiso now (Some e) None s1) = s1\<lparr>diagnostics := d2\<rparr>" "budget_ok fr d2"
      using reconcile_frame [of fr fromiso now "Some e" None s1] s1 by auto
    let ?s2 = "s1\<lparr>diagnostics := d2\<rparr>"
    let ?s3 = "if g \<and> \<not> ?fits then ?s2\<lparr>pressure_drops := pressure_drops ?s2 + 1\<rparr> else ?s2"
    let ?s = "?s3\<lparr>buffer := done @ todo @ tail, buffer_sizes := AList.delete oid (buffer_sizes ?s3),
      buffer_bytes := buffer_bytes ?s3 - sdk_event_bytes fr e, hook_bypass := removeAll oid (hook_bypass ?s3),
      inflight_count := inflight_count ?s3 - 1\<rparr>"
    have ok3: "queue_ok fr me mb ?s3" using queue_ok_diagnostics [OF ok1 d2(2)] by simp
    have buf3: "buffer ?s3 = done @ (oid, e) # todo @ tail" using buf1 by simp
    have "finalize_one fr fromiso br now mb (length done) x replacement s = Some (length done, None, ?s)"
      unfolding finalize_one_def x fst_conv snd_conv old option.case a Let_def rec prod.case
      using False buf1 d2(1) by (auto simp: delete_nth_def split: option.split bool.split)
    moreover have "queue_ok fr me mb ?s"
      by (rule queue_ok_remove [OF ok3 buf3]) (use inf s1 in simp)
    moreover have "writable fr (buffer ?s)" using w buf by (auto simp: writable_def)
    moreover have "front ?s (done @ opt_list None @ todo)" using inf s1 by (simp add: front_def opt_list_def)
    ultimately show ?thesis using s1
      by (intro exI [of _ None] exI [of _ ?s]) (simp add: opt_list_def)
  qed
qed

subsection \<open>Splitting\<close>

definition fits_wire :: "(rat \<Rightarrow> string) \<Rightarrow> (nat \<times> pydict) list \<Rightarrow> bool" where
  "fits_wire fr xs \<longleftrightarrow> (\<forall>x \<in> set xs. \<exists>n. json_bytes False False fr (PDict (snd x)) = Some n \<and> n \<le> MAX_EVENT_BYTES)"

lemma wire_batch_ok:
  assumes "over_http \<longrightarrow> fits_wire fr xs"
  shows "\<exists>k. wire_batch fr over_http xs = Some (take k xs)"
proof (cases over_http)
  case True
  let ?es = "map (\<lambda>(_, e). PDict e) xs"
  have "\<forall>e \<in> set ?es. \<exists>m. json_bytes False False fr e = Some m \<and> m \<le> MAX_EVENT_BYTES"
    using assms True by (auto simp: fits_wire_def)
  from prefix_loop_defined [OF this] obtain n where "prefix_loop fr ?es 0 12 = Inr n" by blast
  then show ?thesis using True by (auto simp: wire_batch_def wire_prefix_def)
qed (auto simp: wire_batch_def intro: exI [of _ "length xs"])

lemma flush_split_ok:
  assumes ok: "queue_ok fr me mb s" and send: "sending s" "timer s = None"
    and fin: "\<forall>xs. finalized = Some xs \<longrightarrow> (http s \<longrightarrow> fits_wire fr xs) \<and> (gen = generation s \<longrightarrow> front s xs)"
  shows "\<exists>r s'. flush_split fr now gen finalized s = Some (r, s') \<and> queue_ok fr me mb s' \<and> live dp s' \<and>
    buffer s' = buffer s \<and> generation s' = generation s \<and> http s' = http s \<and>
    (case r of None \<Rightarrow> \<not> sending s' \<and> inflight_count s' = 0
     | Some batch \<Rightarrow> sending s' \<and> gen = generation s \<and> front s' batch \<and> batch \<noteq> [])"
proof -
  obtain batch where b: "(case finalized of None \<Rightarrow> Some [] | Some f \<Rightarrow> wire_batch fr (http s) f) = Some batch"
    "\<forall>xs. finalized = Some xs \<longrightarrow> (\<exists>k. batch = take k xs)"
    using fin wire_batch_ok [of "http s" fr] by (cases finalized) fastforce+
  show ?thesis
  proof (cases "gen \<noteq> generation s \<or> finalized = None")
    case True
    have "queue_ok fr me mb (s\<lparr>sending := False, inflight_count := 0\<rparr>)" using ok by (simp add: queue_ok_inflight)
    from reschedule_ok [OF this, where now = now] True b(1) show ?thesis by (simp add: flush_split_def reschedule_def)
  next
    case False
    then obtain xs where xs: "finalized = Some xs" "front s xs" using fin by auto
    then obtain k tail where k: "batch = take k xs" and tail: "buffer s = xs @ tail" using b(2) by (auto simp: front_def)
    let ?s = "s\<lparr>hook_bypass := map fst (drop (length batch) xs) @ hook_bypass s, inflight_count := int (length batch)\<rparr>"
    have "set (map fst (drop (length batch) xs)) \<subseteq> set (ids s)" using tail by (auto dest: in_set_dropD)
    then have q: "queue_ok fr me mb ?s" using ok by (auto simp: queue_ok_def)
    have "front ?s batch" using tail k by (auto simp: front_def) (metis append_take_drop_id append.assoc)
    moreover have "queue_ok fr me mb (?s\<lparr>sending := False\<rparr>)" using q by (simp only: queue_ok_sending)
    ultimately show ?thesis
      using False xs b(1) q send reschedule_ok [where fr = fr and me = me and mb = mb and s = "?s\<lparr>sending := False\<rparr>" and now = now]
      by (cases "batch = []") (simp_all add: flush_split_def Let_def live_def reschedule_def)
  qed
qed

subsection \<open>Downgrading\<close>

abbreviation bytes_of :: "(rat \<Rightarrow> string) \<Rightarrow> (nat \<times> pydict) \<Rightarrow> int" where
  "bytes_of fr x \<equiv> sdk_event_bytes fr (snd x)"

definition downgraded ::
  "(rat \<Rightarrow> string) \<Rightarrow> (nat \<Rightarrow> nat) \<Rightarrow> (nat \<times> pydict) list \<Rightarrow> nat set \<Rightarrow> (nat \<times> pydict) list \<Rightarrow> bool" where
  "downgraded fr new_id batch is rs \<longleftrightarrow> (\<exists>js. map fst rs = map new_id js \<and> distinct js \<and> set js \<subseteq> is \<and>
     list_all2 (\<lambda>j r. bytes_of fr r \<le> bytes_of fr (batch ! j) \<and> json_bytes True True fr (PDict (snd r)) \<noteq> None) js rs)"

definition same_but_sizes :: "sdk \<Rightarrow> sdk \<Rightarrow> bool" where
  "same_but_sizes s s' \<longleftrightarrow> (\<exists>n m h. s' = s\<lparr>buffer_bytes := n, buffer_sizes := m, hook_bypass := h\<rparr>)"

lemma filter_evidence_sizes [simp]:
  "filter_evidence (s\<lparr>buffer_bytes := n, buffer_sizes := m, hook_bypass := h\<rparr>) e = filter_evidence s e"
  by (simp add: filter_evidence_def del: strip_unsupported.simps)

lemma same_but_sizes_refl: "same_but_sizes s s"
  unfolding same_but_sizes_def
  by (rule exI [of _ "buffer_bytes s"], rule exI [of _ "buffer_sizes s"], rule exI [of _ "hook_bypass s"]) simp

lemma downgraded_Nil: "downgraded fr new_id batch js []"
  by (simp add: downgraded_def)

lemma downgrade_ok:
  assumes "\<forall>(i, r) \<in> set errors. 0 \<le> i \<and> i < int (length batch)" "distinct (map fst errors)"
    and "\<forall>(i, r) \<in> set errors. map_of (buffer_sizes s) (fst (batch ! nat i)) = Some (bytes_of fr (batch ! nat i))"
    and "distinct (map fst batch)" "writable fr batch"
    and "inj_on new_id {..<length batch}" "new_id ` {..<length batch} \<inter> set (map fst batch) = {}"
  shows "\<exists>rs s'. downgrade_rejections fr new_id batch errors s = Some (rs, s') \<and> same_but_sizes s s' \<and>
    downgraded fr new_id batch ((\<lambda>(i, _). nat i) ` set errors) rs \<and>
    (\<forall>r \<in> set rs. map_of (buffer_sizes s') (fst r) = Some (bytes_of fr r)) \<and>
    (\<forall>k. k \<notin> (\<lambda>(i, _). new_id (nat i)) ` set errors \<and> k \<notin> (\<lambda>(i, _). fst (batch ! nat i)) ` set errors \<longrightarrow>
       map_of (buffer_sizes s') k = map_of (buffer_sizes s) k)"
  using assms
proof (induction errors arbitrary: s)
  case Nil
  then show ?case by (simp add: same_but_sizes_refl downgraded_Nil)
next
  case (Cons err errors)
  obtain i reason where err: "err = (i, reason)" by (cases err)
  have i: "0 \<le> i" "nat i < length batch" "\<not> int (length batch) \<le> i" "i \<notin> set (map fst errors)"
    using Cons.prems(1,2) err by auto
  have "batch ! nat i = (fst (batch ! nat i), snd (batch ! nat i))" by simp
  then obtain oid e where x: "batch ! nat i = (oid, e)" by blast
  note rest = Cons.prems(1,2,3) [unfolded err]
  have rest': "\<forall>(i, r) \<in> set errors. 0 \<le> i \<and> i < int (length batch)" "distinct (map fst errors)" using rest by auto
  have nth_neq: "nat j \<noteq> nat i \<and> nat j < length batch" if "(j, r) \<in> set errors" for j r
    using that i rest'(1) by (force simp: nat_eq_iff)
  have oid_neq: "fst (batch ! nat j) \<noteq> oid" if "(j, r) \<in> set errors" for j r
    using nth_neq [OF that] i(2) Cons.prems(4) x nth_eq_iff_index_eq [of "map fst batch" "nat j" "nat i"] by auto
  have new_neq: "new_id (nat j) \<noteq> new_id (nat i)" if "(j, r) \<in> set errors" for j r
    using nth_neq [OF that] i(2) Cons.prems(6) by (auto simp: inj_on_def)
  have new_old: "new_id n \<noteq> fst (batch ! m)" if "n < length batch" "m < length batch" for n m
    using Cons.prems(7) that nth_mem [of m batch] by (metis IntI empty_iff imageI in_set_conv_nth length_map lessThan_iff nth_map)
  have skip: ?case if "downgrade_rejections fr new_id batch (err # errors) s = downgrade_rejections fr new_id batch errors s"
  proof -
    from Cons.IH [OF rest' _ Cons.prems(4-7), of s] rest(3) obtain rs s' where
      r: "downgrade_rejections fr new_id batch errors s = Some (rs, s')" "same_but_sizes s s'"
        "downgraded fr new_id batch ((\<lambda>(i, _). nat i) ` set errors) rs"
        "\<forall>r \<in> set rs. map_of (buffer_sizes s') (fst r) = Some (bytes_of fr r)"
        "\<forall>k. k \<notin> (\<lambda>(i, _). new_id (nat i)) ` set errors \<and> k \<notin> (\<lambda>(i, _). fst (batch ! nat i)) ` set errors \<longrightarrow>
          map_of (buffer_sizes s') k = map_of (buffer_sizes s) k" by auto
    have "downgraded fr new_id batch ((\<lambda>(i, _). nat i) ` set (err # errors)) rs"
      using r(3) by (auto simp: downgraded_def)
    with r that show ?thesis by auto
  qed
  show ?case
  proof (cases "reason \<noteq> ''invalid_event'' \<or> \<not> (is_type ''backend_exception'' e \<or> is_type ''frontend_exception'' e)
      \<or> filter_evidence s e = None \<or> filter_evidence s e = Some e")
    case True
    then have "downgrade_rejections fr new_id batch (err # errors) s = downgrade_rejections fr new_id batch errors s"
      using i err x by (auto simp: Let_def)
    then show ?thesis by (rule skip)
  next
    case False
    then obtain reduced where red: "filter_evidence s e = Some reduced" "reduced \<noteq> e" by auto
    let ?new = "new_id (nat i)" and ?m = "sdk_event_bytes fr reduced"
    have old: "map_of (buffer_sizes s) oid = Some (sdk_event_bytes fr e)" using rest(3) x by auto
    let ?s = "s\<lparr>buffer_bytes := buffer_bytes s + (?m - sdk_event_bytes fr e),
      buffer_sizes := AList.update ?new ?m (AList.delete oid (buffer_sizes s)), hook_bypass := ?new # hook_bypass s\<rparr>"
    have e: "json_bytes True True fr (PDict e) \<noteq> None"
      using Cons.prems(5) i(2) x nth_mem [of "nat i" batch] by (auto simp: writable_def simp del: not_None_eq)
    note small = filter_evidence_smaller [OF red(1) e]
    have look: "map_of (buffer_sizes ?s) (fst (batch ! nat j)) = Some (bytes_of fr (batch ! nat j))" if "(j, r) \<in> set errors" for j r
      using that oid_neq [OF that] new_old [OF i(2), of "nat j"] nth_neq [OF that] rest(3)
      by (auto simp: update_conv' delete_conv')
    from Cons.IH [OF rest' _ Cons.prems(4-7), of ?s] look obtain rs s' where
      r: "downgrade_rejections fr new_id batch errors ?s = Some (rs, s')" "same_but_sizes ?s s'"
        "downgraded fr new_id batch ((\<lambda>(i, _). nat i) ` set errors) rs"
        "\<forall>r \<in> set rs. map_of (buffer_sizes s') (fst r) = Some (bytes_of fr r)"
        "\<forall>k. k \<notin> (\<lambda>(i, _). new_id (nat i)) ` set errors \<and> k \<notin> (\<lambda>(i, _). fst (batch ! nat i)) ` set errors \<longrightarrow>
          map_of (buffer_sizes s') k = map_of (buffer_sizes ?s) k" by blast
    have d: "downgrade_rejections fr new_id batch (err # errors) s = Some ((?new, reduced) # rs, s')"
      using False red old r(1) i x err by (auto simp: Let_def)
    have "?new \<notin> (\<lambda>(i, _). new_id (nat i)) ` set errors"
    proof
      assume "?new \<in> (\<lambda>(i, _). new_id (nat i)) ` set errors"
      then obtain j r where "(j, r) \<in> set errors" "new_id (nat j) = ?new" by force
      with new_neq show False by blast
    qed
    moreover have "?new \<notin> (\<lambda>(i, _). fst (batch ! nat i)) ` set errors"
    proof
      assume "?new \<in> (\<lambda>(i, _). fst (batch ! nat i)) ` set errors"
      then obtain j r where "(j, r) \<in> set errors" "fst (batch ! nat j) = ?new" by force
      with nth_neq new_old [OF i(2), of "nat j"] show False by metis
    qed
    ultimately have new_kept: "map_of (buffer_sizes s') ?new = Some ?m"
      using r(5) by (simp add: update_conv')
    from r(3) obtain js where js: "map fst rs = map new_id js" "distinct js" "set js \<subseteq> (\<lambda>(i, _). nat i) ` set errors"
      "list_all2 (\<lambda>j r. bytes_of fr r \<le> bytes_of fr (batch ! j) \<and> json_bytes True True fr (PDict (snd r)) \<noteq> None) js rs"
      by (auto simp: downgraded_def)
    have "nat i \<notin> set js"
    proof
      assume "nat i \<in> set js"
      then obtain j r where "(j, r) \<in> set errors" "nat j = nat i" using js(3) by force
      with nth_neq show False by blast
    qed
    then have "downgraded fr new_id batch ((\<lambda>(i, _). nat i) ` set (err # errors)) ((?new, reduced) # rs)"
      unfolding downgraded_def using js small x err by (intro exI [of _ "nat i # js"]) auto
    moreover have "same_but_sizes s s'" using r(2) by (auto simp: same_but_sizes_def)
    moreover have "\<forall>k. k \<notin> (\<lambda>(i, _). new_id (nat i)) ` set (err # errors) \<and>
        k \<notin> (\<lambda>(i, _). fst (batch ! nat i)) ` set (err # errors) \<longrightarrow>
        map_of (buffer_sizes s') k = map_of (buffer_sizes s) k"
      using r(5) err x by (auto simp: update_conv' delete_conv')
    ultimately show ?thesis using d r(4) new_kept by auto
  qed
qed

subsection \<open>Settling\<close>

lemma total_sizes:
  "dict_ok d \<Longrightarrow> total (\<lambda>n. n) d = (\<Sum>k \<in> fst ` set d. the (map_of d k))"
proof (induction d)
  case (Cons x d)
  obtain k v where x: "x = (k, v)" by (cases x)
  with Cons.prems have "k \<notin> fst ` set d" by simp
  then have "(\<Sum>q \<in> fst ` set d. the (map_of ((k, v) # d) q)) = (\<Sum>q \<in> fst ` set d. the (map_of d q))"
    by (intro sum.cong) auto
  with Cons x show ?case by simp
qed simp

lemma queue_bytes:
  assumes "queue_ok fr me mb s"
  shows "buffer_bytes s = sum_list (map (bytes_of fr) (buffer s))"
proof -
  have "buffer_bytes s = (\<Sum>k \<in> set (ids s). the (map_of (buffer_sizes s) k))"
    using queue_okD(2-4) [OF assms] by (simp add: total_sizes)
  also have "\<dots> = sum_list (map (\<lambda>k. the (map_of (buffer_sizes s) k)) (ids s))"
    by (rule sum_list_distinct_conv_sum_set [OF queue_okD(1) [OF assms], symmetric])
  also have "map (\<lambda>k. the (map_of (buffer_sizes s) k)) (ids s) = map (bytes_of fr) (buffer s)"
    using queue_okD(5) [OF assms] by (simp add: comp_def)
  finally show ?thesis .
qed

definition resized :: "(rat \<Rightarrow> string) \<Rightarrow> int \<Rightarrow> int \<Rightarrow> sdk \<Rightarrow> bool" where
  "resized fr me mb s \<longleftrightarrow> distinct (ids s) \<and>
     (\<forall>x \<in> set (buffer s). map_of (buffer_sizes s) (fst x) = Some (bytes_of fr x)) \<and>
     int (length (buffer s)) \<le> me \<and> sum_list (map (bytes_of fr) (buffer s)) \<le> mb \<and>
     budget_ok fr (diagnostics s) \<and> inflight_count s = 0"

lemma queue_ok_resized: "queue_ok fr me mb s \<Longrightarrow> inflight_count s = 0 \<Longrightarrow> resized fr me mb s"
  using queue_bytes [of fr me mb s] queue_okD [of fr me mb s] by (metis resized_def)

lemma map_of_pairs: "k \<in> set ks \<Longrightarrow> map_of (map (\<lambda>i. (i, f i)) ks) k = Some (f k)"
  by (simp add: map_of_map_restrict)

lemma settle_ok:
  assumes r: "resized fr me mb s" and idle: "\<not> sending s" and due: "timer s \<noteq> None \<or> retry_after s \<le> wall now"
  shows "\<exists>s'. settle fr now d s = Some s' \<and> queue_ok fr me mb s' \<and> live dp s' \<and> \<not> sending s' \<and> buffer s' = buffer s \<and>
    inflight_count s' = 0 \<and> generation s' = generation s \<and>
    pending_low_priority s' = int (length (filter (\<lambda>x. \<not> high_priority_event (snd x)) (buffer s)))"
proof -
  let ?sizes = "map (\<lambda>i. (i, the (map_of (buffer_sizes s) i))) (ids s)"
  have look: "\<forall>x \<in> set (buffer s). map_of (buffer_sizes s) (fst x) = Some (bytes_of fr x)" and dist: "distinct (ids s)"
    using r by (auto simp: resized_def)
  let ?s = "s\<lparr>hook_bypass := filter (\<lambda>i. i \<in> set (ids s)) (hook_bypass s),
    diagnostics := retain fr
      (map (\<lambda>x. event_id_of (snd x)) (filter (\<lambda>x. is_type ''diagnostic_context'' (snd x)) (buffer s))) (diagnostics s),
    buffer_sizes := ?sizes, buffer_bytes := total (\<lambda>n. n) ?sizes,
    pending_low_priority := int (length (filter (\<lambda>x. \<not> high_priority_event (snd x)) (buffer s)))\<rparr>"
  have sum: "total (\<lambda>n. n) ?sizes = sum_list (map (bytes_of fr) (buffer s))"
    using look by (auto simp: total_def comp_def intro!: arg_cong [of _ _ sum_list])
  have "map fst ?sizes = ids s" by (simp add: comp_def)
  then have keys: "dict_ok ?sizes" "fst ` set ?sizes = set (ids s)" using dist by (metis, metis set_map)
  have "\<forall>x \<in> set (buffer s). map_of ?sizes (fst x) = Some (bytes_of fr x)"
  proof
    fix x assume x: "x \<in> set (buffer s)"
    then have "fst x \<in> set (ids s)" by simp
    from map_of_pairs [OF this, of "\<lambda>i. the (map_of (buffer_sizes s) i)"] look x
    show "map_of ?sizes (fst x) = Some (bytes_of fr x)" by simp
  qed
  then have q: "queue_ok fr me mb ?s"
    using r keys dist sum by (simp add: queue_ok_def resized_def retain_ok) auto
  have all: "\<forall>x \<in> set (buffer s). map_of (buffer_sizes s) (fst x) \<noteq> None" using look by simp
  have ids: "remdups (ids s) = ids s" using dist by simp
  show ?thesis
    using all q idle due r live_schedule_idle [of ?s dp now]
    unfolding settle_def Let_def ids
    by (auto simp: live_def resized_def pressure_report_ok)
qed

subsection \<open>The answer\<close>

text \<open>Events kept from distinct positions of a batch, some of them smaller, are no more and no larger.\<close>

lemma picked_bounds:
  assumes "distinct ks" "distinct js" "set ks \<inter> set js = {}" "set ks \<union> set js \<subseteq> {..<n}" "\<And>j. 0 \<le> (w j :: int)"
  shows "length ks + length js \<le> n" "sum_list (map w ks) + sum_list (map w js) \<le> (\<Sum>j<n. w j)"
proof -
  have "card (set ks \<union> set js) \<le> n" using card_mono [OF _ assms(4)] by simp
  then show "length ks + length js \<le> n"
    using assms(1-3) by (simp add: card_Un_disjoint distinct_card)
  have "sum w (set ks \<union> set js) \<le> (\<Sum>j<n. w j)" using assms(4,5) by (intro sum_mono2) auto
  then show "sum_list (map w ks) + sum_list (map w js) \<le> (\<Sum>j<n. w j)"
    using assms(1-3) by (simp add: sum.union_disjoint sum_list_distinct_conv_sum_set)
qed

lemma sum_list_le:
  "list_all2 (\<lambda>j r. f r \<le> (w j :: int)) js rs \<Longrightarrow> sum_list (map f rs) \<le> sum_list (map w js)"
  by (induction rule: list_all2_induct) auto

definition fresh_ids :: "(nat \<Rightarrow> nat) \<Rightarrow> (nat \<times> pydict) list \<Rightarrow> sdk \<Rightarrow> bool" where
  "fresh_ids new_id batch s \<longleftrightarrow> inj_on new_id {..<length batch} \<and> new_id ` {..<length batch} \<inter> set (ids s) = {}"

text \<open>The queue after an acknowledgement: retried events, downgraded ones and those that came later.\<close>

lemma acknowledged_queue:
  assumes ok: "queue_ok fr me mb s" and w: "writable fr (buffer s)" and buf: "buffer s = batch @ tail"
    and idle: "inflight_count s = 0" and fresh: "fresh_ids new_id batch s"
    and answer: "decide_acknowledgement b (int (length batch)) req = Acknowledged a retryable terminal"
  shows "\<exists>rs s1. (if lost then downgrade_rejections fr new_id batch terminal s else Some ([], s)) = Some (rs, s1) \<and>
    same_but_sizes s s1 \<and> downgraded fr new_id batch ((\<lambda>(i, _). nat i) ` set terminal) rs \<and>
    resized fr me mb (s1\<lparr>buffer := map (\<lambda>i. batch ! nat i) retryable @ rs @ tail\<rparr>) \<and>
    writable fr (map (\<lambda>i. batch ! nat i) retryable @ rs @ tail)"
proof -
  have acc: "distinct (retryable @ map fst terminal)" "\<forall>i \<in> set (retryable @ map fst terminal). 0 \<le> i \<and> i < int (length batch)"
    using ack_positions [OF answer] by auto
  have dist: "distinct (map fst batch @ map fst tail)" using queue_okD(1) [OF ok] buf by simp
  have sizes: "\<forall>x \<in> set (buffer s). map_of (buffer_sizes s) (fst x) = Some (bytes_of fr x)" using queue_okD(5) [OF ok] .
  have nthb: "batch ! nat i \<in> set (buffer s)" if "i \<in> set (retryable @ map fst terminal)" for i
    using that acc(2) buf by (auto simp: nat_less_iff)
  have in_range: "\<forall>(i, r) \<in> set terminal. 0 \<le> i \<and> i < int (length batch)"
  proof
    fix x assume "x \<in> set terminal"
    then have "fst x \<in> set (retryable @ map fst terminal)" by simp
    with acc(2) show "case x of (i, r) \<Rightarrow> 0 \<le> i \<and> i < int (length batch)" by (auto simp: split_beta)
  qed
  have known: "\<forall>(i, r) \<in> set terminal. map_of (buffer_sizes s) (fst (batch ! nat i)) = Some (bytes_of fr (batch ! nat i))"
  proof
    fix x assume "x \<in> set terminal"
    then have "fst x \<in> set (retryable @ map fst terminal)" by simp
    from nthb [OF this] sizes
    show "case x of (i, r) \<Rightarrow> map_of (buffer_sizes s) (fst (batch ! nat i)) = Some (bytes_of fr (batch ! nat i))"
      by (auto simp: split_beta)
  qed
  have "distinct (map fst terminal)" "distinct (map fst batch)" using acc(1) dist by auto
  moreover have "writable fr batch" using w buf by (auto simp: writable_def)
  moreover have "inj_on new_id {..<length batch}" "new_id ` {..<length batch} \<inter> set (map fst batch) = {}"
    using fresh buf unfolding fresh_ids_def by auto
  ultimately have pre: "\<forall>(i, r) \<in> set terminal. 0 \<le> i \<and> i < int (length batch)" "distinct (map fst terminal)"
    "\<forall>(i, r) \<in> set terminal. map_of (buffer_sizes s) (fst (batch ! nat i)) = Some (bytes_of fr (batch ! nat i))"
    "distinct (map fst batch)" "writable fr batch" "inj_on new_id {..<length batch}"
    "new_id ` {..<length batch} \<inter> set (map fst batch) = {}"
    using in_range known by blast+
  obtain rs s1 where d: "(if lost then downgrade_rejections fr new_id batch terminal s else Some ([], s)) = Some (rs, s1)"
    "same_but_sizes s s1" "downgraded fr new_id batch ((\<lambda>(i, _). nat i) ` set terminal) rs"
    "\<forall>r \<in> set rs. map_of (buffer_sizes s1) (fst r) = Some (bytes_of fr r)"
    "\<forall>k. k \<notin> (\<lambda>(i, _). new_id (nat i)) ` set terminal \<and> k \<notin> (\<lambda>(i, _). fst (batch ! nat i)) ` set terminal \<longrightarrow>
       map_of (buffer_sizes s1) k = map_of (buffer_sizes s) k"
  proof (cases lost)
    case True
    with downgrade_ok [OF pre] that show ?thesis by auto
  next
    case False
    with that [of "[]" s] show ?thesis by (simp add: same_but_sizes_refl downgraded_Nil)
  qed
  obtain js where js: "map fst rs = map new_id js" "distinct js" "set js \<subseteq> (\<lambda>(i, _). nat i) ` set terminal"
    "list_all2 (\<lambda>j r. bytes_of fr r \<le> bytes_of fr (batch ! j) \<and> json_bytes True True fr (PDict (snd r)) \<noteq> None) js rs"
    using d(3) by (auto simp: downgraded_def)
  let ?kept = "map (\<lambda>i. batch ! nat i) retryable" and ?n = "length batch"
  let ?ks = "map nat retryable" and ?new = "?kept @ rs @ tail"
  have sub: "set js \<subseteq> nat ` fst ` set terminal" using js(3) by force
  have nat_inj: "inj_on nat (set (retryable @ map fst terminal))" using acc(2) by (auto simp: inj_on_def eq_nat_nat_iff)
  have "distinct (map nat (retryable @ map fst terminal))" using acc(1) nat_inj by (simp only: distinct_map)
  then have ks: "distinct ?ks" "set ?ks \<inter> set js = {}" using sub by (auto simp: image_image)
  have "nat ` set (retryable @ map fst terminal) \<subseteq> {..<?n}"
  proof (rule image_subsetI)
    fix i assume "i \<in> set (retryable @ map fst terminal)"
    with acc(2) have "0 \<le> i \<and> i < int ?n" by blast
    then show "nat i \<in> {..<?n}" by (simp add: nat_less_iff)
  qed
  then have "nat ` set retryable \<subseteq> {..<?n}" and "nat ` fst ` set terminal \<subseteq> {..<?n}"
    by (simp_all only: set_append image_Un set_map Un_subset_iff)
  then have lt: "set ?ks \<subseteq> {..<?n}" "set js \<subseteq> {..<?n}" using order_trans [OF sub] by simp_all
  have nth_batch: "batch ! j \<in> set batch" if "j < ?n" for j using that by simp
  have "inj_on new_id (set js)" using fresh lt(2) inj_on_subset unfolding fresh_ids_def by blast
  moreover have "new_id ` set js \<inter> set (ids s) = {}" using fresh lt(2) unfolding fresh_ids_def by blast
  ultimately have rs_ids: "set (map fst rs) \<inter> set (ids s) = {}" "distinct (map fst rs)"
    using js(2) by (simp_all only: js(1) set_map distinct_map simp_thms)
  have fst_nth: "fst (batch ! j) = fst (batch ! k) \<longleftrightarrow> j = k" if "j < ?n" "k < ?n" for j k
    using pre(4) that nth_eq_iff_index_eq [of "map fst batch" j k] by simp
  have kept_ids: "map fst ?kept = map (\<lambda>j. fst (batch ! j)) ?ks" by simp
  have "inj_on (\<lambda>j. fst (batch ! j)) (set ?ks)"
  proof (rule inj_onI)
    fix j k assume "j \<in> set ?ks" "k \<in> set ?ks" and eq: "fst (batch ! j) = fst (batch ! k)"
    then have "j < ?n" "k < ?n" using lt(1) by blast+
    with fst_nth eq show "j = k" by blast
  qed
  then have "distinct (map fst ?kept)" unfolding kept_ids using ks(1) by (simp add: distinct_map del: map_map)
  moreover have "set ?kept \<subseteq> set batch"
  proof
    fix x assume "x \<in> set ?kept"
    then obtain i where "i \<in> set retryable" "x = batch ! nat i" by auto
    then show "x \<in> set batch" using lt(1) nth_batch by auto
  qed
  moreover have "set (map fst ?kept) \<subseteq> set (map fst batch)" using \<open>set ?kept \<subseteq> set batch\<close> by (metis image_mono set_map)
  moreover have "set (map fst rs) \<inter> (set (map fst batch) \<union> set (map fst tail)) = {}"
    using rs_ids(1) by (simp only: buf map_append set_append)
  moreover have "distinct (map fst tail)" "set (map fst batch) \<inter> set (map fst tail) = {}" using dist by auto
  ultimately have dist': "distinct (map fst ?new)" and kept_sub: "set ?kept \<subseteq> set batch"
    unfolding map_append [of fst] distinct_append set_append using rs_ids(2) by blast+
  have look: "map_of (buffer_sizes s1) (fst x) = Some (bytes_of fr x)" if x: "x \<in> set ?new" for x
  proof (cases "x \<in> set rs")
    case False
    then have "x \<in> set (buffer s)" using x buf kept_sub by auto
    moreover have "fst x \<notin> (\<lambda>(i, _). new_id (nat i)) ` set terminal"
      using fresh pre(1) \<open>x \<in> set (buffer s)\<close> unfolding fresh_ids_def by (fastforce simp: nat_less_iff)
    moreover have "fst x \<notin> (\<lambda>(i, _). fst (batch ! nat i)) ` set terminal"
    proof
      assume "fst x \<in> (\<lambda>(i, _). fst (batch ! nat i)) ` set terminal"
      then obtain i r where i: "(i, r) \<in> set terminal" "fst x = fst (batch ! nat i)" by auto
      have n: "nat i < ?n" using pre(1) i(1) by (auto simp: nat_less_iff)
      show False
      proof (cases "x \<in> set tail")
        case True
        then show False using dist i(2) nth_batch [OF n] by (metis IntI distinct_append empty_iff image_eqI set_map)
      next
        case notin: False
        then obtain k where k: "k \<in> set retryable" "x = batch ! nat k" using x False by auto
        then have "nat k \<in> set ?ks" by simp
        then have "nat k < ?n" using lt(1) by blast
        then have "nat k = nat i" using i(2) k(2) n fst_nth by metis
        moreover have "i \<in> set (map fst terminal)" using i(1) by force
        ultimately have "k = i" using k(1) inj_onD [OF nat_inj, of k i] by simp
        then show False using k(1) \<open>i \<in> set (map fst terminal)\<close> acc(1) by auto
      qed
    qed
    ultimately have "map_of (buffer_sizes s1) (fst x) = map_of (buffer_sizes s) (fst x)" using d(5) by metis
    then show ?thesis using sizes \<open>x \<in> set (buffer s)\<close> by simp
  qed (use d(4) in blast)
  have W: "sum_list (map (bytes_of fr) batch) = (\<Sum>j<?n. bytes_of fr (batch ! j))"
    by (simp add: sum_list_sum_nth atLeast0LessThan)
  note picked = picked_bounds [OF ks(1) js(2) ks(2) Un_least [OF lt], of "\<lambda>j. bytes_of fr (batch ! j)"]
  have "list_all2 (\<lambda>j r. bytes_of fr r \<le> bytes_of fr (batch ! j)) js rs" using js(4) by (auto elim: list_all2_mono)
  from sum_list_le [OF this] picked(2) W
  have "sum_list (map (bytes_of fr) ?new) \<le> sum_list (map (bytes_of fr) (buffer s))" by (simp add: buf comp_def)
  moreover have "length rs = length js" using js(1) by (metis length_map)
  then have "length ?new \<le> length (buffer s)" using picked(1) buf by simp
  moreover have "diagnostics s1 = diagnostics s" "inflight_count s1 = inflight_count s"
    using d(2) by (auto simp: same_but_sizes_def)
  ultimately have "resized fr me mb (s1\<lparr>buffer := ?new\<rparr>)"
    using dist' look idle queue_okD(6,7,9) [OF ok] queue_bytes [OF ok] by (simp add: resized_def del: map_append)
  moreover have "writable fr ?new"
  proof -
    have "writable fr rs"
      unfolding writable_def
    proof
      fix x assume "x \<in> set rs"
      then obtain k where "k < length rs" "x = rs ! k" by (auto simp: in_set_conv_nth)
      moreover from js(4) have "\<forall>k < length rs. json_bytes True True fr (PDict (snd (rs ! k))) \<noteq> None"
        by (simp add: list_all2_conv_all_nth del: not_None_eq)
      ultimately show "json_bytes True True fr (PDict (snd x)) \<noteq> None" by blast
    qed
    moreover have "writable fr ?kept" "writable fr tail" using w buf kept_sub by (auto simp: writable_def)
    ultimately show ?thesis by (auto simp: writable_def)
  qed
  ultimately show ?thesis using d(1,2,3) by blast
qed

text \<open>The parts of the state that settling depends on.\<close>

lemma resized_frame:
  assumes "buffer t = buffer s" "buffer_sizes t = buffer_sizes s" "diagnostics t = diagnostics s"
    "inflight_count t = inflight_count s"
  shows "resized fr me mb t = resized fr me mb s"
  using assms by (simp add: resized_def)

lemma resized_drop:
  assumes "queue_ok fr me mb s" "inflight_count s = 0" "buffer s = batch @ tail"
  shows "resized fr me mb (s\<lparr>buffer := tail\<rparr>)"
proof -
  have "0 \<le> sum_list (map (bytes_of fr) batch)" by (intro sum_list_nonneg) auto
  then have "sum_list (map (bytes_of fr) tail) \<le> mb"
    using queue_bytes [OF assms(1)] queue_okD(7) [OF assms(1)] assms(3) by simp
  then show ?thesis using queue_okD [OF assms(1)] assms by (simp add: resized_def)
qed

lemma back_off_frame:
  "buffer (back_off now r s) = buffer s" "buffer_sizes (back_off now r s) = buffer_sizes s"
  "diagnostics (back_off now r s) = diagnostics s" "inflight_count (back_off now r s) = inflight_count s"
  "sending (back_off now r s) = sending s" "generation (back_off now r s) = generation s"
  by (simp_all add: back_off_def Let_def)

lemma back_off_timer: "\<not> sending s \<Longrightarrow> timer (back_off now r s) \<noteq> None"
  by (simp add: back_off_def Let_def schedule_flush_timer(2) del: not_None_eq)

lemma observe_evidence_frame: "\<exists>fs. snd (observe_evidence b req v s) = s\<lparr>features := fs\<rparr>"
  by (rule exI [of _ "features (snd (observe_evidence b req v s))"])
    (simp add: observe_evidence_def Let_def split: pyval.split)

definition answered :: "(rat \<Rightarrow> string) \<Rightarrow> int \<Rightarrow> int \<Rightarrow> clock \<Rightarrow> sdk \<Rightarrow> sdk \<Rightarrow> bool" where
  "answered fr me mb now s t \<longleftrightarrow> resized fr me mb t \<and> writable fr (buffer t) \<and> \<not> sending t \<and>
     (timer t \<noteq> None \<or> retry_after t \<le> wall now) \<and> generation t = generation s"

lemma answeredI:
  "resized fr me mb t \<Longrightarrow> writable fr (buffer t) \<Longrightarrow> \<not> sending t \<Longrightarrow> timer t \<noteq> None \<or> retry_after t \<le> wall now \<Longrightarrow>
   generation t = generation s \<Longrightarrow> answered fr me mb now s t"
  by (simp add: answered_def)

lemma acknowledge_ok:
  assumes ok: "queue_ok fr me mb s" and w: "writable fr (buffer s)" and buf: "buffer s = batch @ tail"
    and idle: "inflight_count s = 0" "\<not> sending s" and fresh: "fresh_ids new_id batch s" and clock: "0 \<le> wall now"
  shows "\<exists>t. acknowledge fr new_id now batch r lost s (decide_acknowledgement b (int (length batch)) req) = Some t \<and>
    answered fr me mb now s t"
proof (cases "decide_acknowledgement b (int (length batch)) req")
  case Legacy
  have "writable fr tail" using w buf by (simp add: writable_def)
  moreover have "resized fr me mb (s\<lparr>buffer := tail, retry_after := 0, last_event_at := Some (wall now * 1000),
      consecutive_failures := 0\<rparr>)"
    using resized_drop [OF ok idle(1) buf] by (subst resized_frame [of _ "s\<lparr>buffer := tail\<rparr>"]) simp_all
  ultimately show ?thesis using Legacy buf idle clock by (simp add: acknowledge_def answered_def)
next
  case (ProtocolFailure reason)
  have "resized fr me mb (back_off now r (fail_once s))"
    using queue_ok_resized [OF ok idle(1)] by (subst resized_frame [of _ s]) (simp_all add: back_off_frame fail_once_def)
  then show ?thesis using ProtocolFailure w idle back_off_timer [of "fail_once s"]
    by (simp add: acknowledge_def answered_def back_off_frame fail_once_def)
next
  case (Acknowledged a retryable terminal)
  let ?new = "\<lambda>rs. map (\<lambda>i. batch ! nat i) retryable @ rs @ tail"
  from acknowledged_queue [OF ok w buf idle(1) fresh Acknowledged, of lost] obtain rs s1 where
    d: "(if lost then downgrade_rejections fr new_id batch terminal s else Some ([], s)) = Some (rs, s1)"
      "same_but_sizes s s1" "resized fr me mb (s1\<lparr>buffer := ?new rs\<rparr>)" "writable fr (?new rs)" by blast
  have s1: "sending s1 = sending s" "generation s1 = generation s" using d(2) by (auto simp: same_but_sizes_def)
  have all: "filter (\<lambda>i. 0 \<le> i \<and> i < int (length batch)) retryable = retryable"
    using ack_positions(2) [OF Acknowledged] by (auto intro: filter_True)
  let ?s2 = "s1\<lparr>buffer := ?new rs\<rparr>"
  let ?s3 = "if 0 < a then ?s2\<lparr>last_event_at := Some (wall now * 1000)\<rparr> else ?s2"
  let ?t = "if retryable \<noteq> [] \<or> rs \<noteq> [] then back_off now r (fail_once ?s3)
    else ?s3\<lparr>retry_after := 0, consecutive_failures := (if 0 < a then 0 else 3)\<rparr>"
  have res: "acknowledge fr new_id now batch r lost s (decide_acknowledgement b (int (length batch)) req) = Some ?t"
    using d(1) buf by (simp add: Acknowledged acknowledge_def all del: if_split cong: if_cong)
  have "resized fr me mb ?t"
    using d(3) by (subst resized_frame [of _ ?s2]) (simp_all add: back_off_frame fail_once_def)
  moreover have buft: "buffer ?t = ?new rs" and gen: "generation ?t = generation s" and "\<not> sending ?t"
    using s1 idle by (simp_all add: back_off_frame fail_once_def)
  moreover have "timer ?t \<noteq> None \<or> retry_after ?t \<le> wall now"
    using s1 idle clock back_off_timer [of "fail_once ?s3" now r] by (auto simp: fail_once_def)
  moreover have "writable fr (buffer ?t)" unfolding buft by (rule d(4))
  ultimately have "answered fr me mb now s ?t" by (intro answeredI)
  with res show ?thesis by (intro exI [of _ ?t] conjI)
qed

lemma fresh_ids_frame: "buffer t = buffer s \<Longrightarrow> fresh_ids new_id batch t = fresh_ids new_id batch s"
  by (simp add: fresh_ids_def)

lemma handle_response_ok:
  assumes ok: "queue_ok fr me mb s" and w: "writable fr (buffer s)" and buf: "buffer s = batch @ tail"
    and idle: "inflight_count s = 0" "\<not> sending s" and fresh: "fresh_ids new_id batch s" and clock: "0 \<le> wall now"
  shows "\<exists>t. handle_response fr new_id now batch response s = Some t \<and> answered fr me mb now s t"
proof -
  have keep: "answered fr me mb now s (schedule_flush now None (fail_once s))"
    "answered fr me mb now s (back_off now r (fail_once s))" for r
    using queue_ok_resized [OF ok idle(1)] w idle back_off_timer [of "fail_once s"] schedule_flush_timer(2) [of "fail_once s"]
    by (simp_all add: answered_def fail_once_def back_off_frame resized_def del: not_None_eq)
  show ?thesis
  proof (cases response)
    case None
    with keep show ?thesis by (simp add: handle_response_def)
  next
    case (Some r)
    show ?thesis
    proof (cases "200 \<le> status_code r \<and> status_code r < 300")
      case True
      let ?d = "decide_acknowledgement (body r) (int (length batch)) (http s)"
      let ?o = "observe_evidence (body r) (http s) (case ?d of Acknowledged _ _ _ \<Rightarrow> True | _ \<Rightarrow> False) s"
      obtain lost s1 where o: "?o = (lost, s1)" by (cases ?o)
      obtain fs where s1: "s1 = s\<lparr>features := fs\<rparr>"
        using o observe_evidence_frame [of "body r" "http s" "case ?d of Acknowledged _ _ _ \<Rightarrow> True | _ \<Rightarrow> False" s] by auto
      have "queue_ok fr me mb s1" "writable fr (buffer s1)" "buffer s1 = batch @ tail" "inflight_count s1 = 0"
        "\<not> sending s1" "fresh_ids new_id batch s1"
        using ok w buf idle fresh by (simp_all add: s1 fresh_ids_def)
      from acknowledge_ok [OF this clock, of r lost "body r" "http s"] o True Some s1
      show ?thesis by (auto simp: handle_response_def Let_def answered_def)
    next
      case False
      have drop: "answered fr me mb now s ((fail_once s)\<lparr>buffer := tail, retry_after := 0\<rparr>)"
        using resized_drop [OF ok idle(1) buf] w idle clock buf
        by (simp add: answered_def fail_once_def resized_def writable_def)
      have "buffer (fail_once s) = batch @ tail" using buf by (simp add: fail_once_def)
      with False Some keep drop show ?thesis by (auto simp: handle_response_def Let_def)
    qed
  qed
qed

lemma flush_respond_ok:
  assumes ok: "queue_ok fr me mb s" and w: "writable fr (buffer s)"
    and f: "gen = generation s \<longrightarrow> front s batch" and fresh: "fresh_ids new_id batch s" and clock: "0 \<le> wall now"
  shows "\<exists>t. flush_respond fr new_id now gen batch response s = Some t \<and> queue_ok fr me mb t \<and> writable fr (buffer t) \<and>
    live dp t \<and> \<not> sending t \<and> inflight_count t = 0 \<and> generation t = generation s"
proof -
  let ?s = "s\<lparr>sending := False, inflight_count := 0\<rparr>"
  have q: "queue_ok fr me mb ?s" using ok by (simp add: queue_ok_inflight)
  show ?thesis
  proof (cases "gen = generation s")
    case False
    with reschedule_ok [OF q, where now = now] w show ?thesis by (simp add: flush_respond_def Let_def)
  next
    case True
    then obtain tail where buf: "buffer ?s = batch @ tail" using f by (auto simp: front_def)
    have "writable fr (buffer ?s)" "inflight_count ?s = 0" "\<not> sending ?s" "fresh_ids new_id batch ?s"
      using w fresh by (simp_all add: fresh_ids_def)
    from handle_response_ok [OF q this(1) buf this(2-4) clock, of response] obtain t where
      t: "handle_response fr new_id now batch response ?s = Some t" "answered fr me mb now ?s t" by blast
    from t(2) have "resized fr me mb t" "\<not> sending t" "timer t \<noteq> None \<or> retry_after t \<le> wall now"
      by (auto simp: answered_def)
    from settle_ok [OF this] obtain u where "settle fr now (case response of None \<Rightarrow> False
        | Some r \<Rightarrow> 200 \<le> status_code r \<and> status_code r < 300) t = Some u" "queue_ok fr me mb u" "live dp u" "\<not> sending u"
      "buffer u = buffer t" "inflight_count u = 0" "generation u = generation t" by blast
    with t True show ?thesis by (auto simp: flush_respond_def Let_def answered_def)
  qed
qed

end
