(* ===== verification/Delivery.thy ===== *)
theory Delivery
  imports Flush_Facts
begin

text \<open>
  The delivery protocol as a step relation: the sections of the one flush in progress interleave in any
  order with captures on other threads, with refused flushes, changes of configuration and re-initialisation. The second
  component of a state is what the flushing thread carries between its sections. The facts about
  reachable states are proved by rule induction.
\<close>

datatype flusher =
    Idle
  | Preparing nat
  | Finalizing nat "(nat \<times> pydict) list" "(nat \<times> pydict) list"
  | Delivering nat "(nat \<times> pydict) list"

type_synonym system = "sdk \<times> flusher"

definition after_take :: "nat \<Rightarrow> (nat \<times> pydict) list option \<Rightarrow> flusher" where
  "after_take g r = (case r of None \<Rightarrow> Idle | Some batch \<Rightarrow> Finalizing g batch [])"

definition after_split :: "nat \<Rightarrow> (nat \<times> pydict) list option \<Rightarrow> flusher" where
  "after_split g r = (case r of None \<Rightarrow> Idle | Some batch \<Rightarrow> Delivering g batch)"

text \<open>What the finalizing thread may bring for one event: nothing, or a new object of a known size.\<close>

definition candidate_ok ::
  "(rat \<Rightarrow> string) \<Rightarrow> (string \<Rightarrow> bool) \<Rightarrow> sdk \<Rightarrow> (nat \<times> pydict \<times> int) option \<Rightarrow> bool" where
  "candidate_ok fr br s c \<longleftrightarrow> replacement_ok fr br s c \<and>
     (case c of None \<Rightarrow> True | Some (oid, r, n) \<Rightarrow> http s \<longrightarrow> fits_wire fr [(oid, r)])"

inductive step ::
  "bool \<Rightarrow> (rat \<Rightarrow> string) \<Rightarrow> (string \<Rightarrow> rat option) \<Rightarrow> (string \<Rightarrow> bool) \<Rightarrow> (rat \<Rightarrow> string) \<Rightarrow> int \<Rightarrow> int \<Rightarrow> system \<Rightarrow> system \<Rightarrow> bool"
  for dp fr fromiso br to_iso me mb where
  offer: "oid \<notin> set (ids s) \<Longrightarrow> json_bytes True True fr (PDict e) \<noteq> None \<Longrightarrow>
    offer_protected_event fr fromiso now oid e (sdk_event_bytes fr e) me mb s = Some (b, s') \<Longrightarrow>
    step dp fr fromiso br to_iso me mb (s, fl) (s', fl)"
| prepare: "step dp fr fromiso br to_iso me mb (s, fl) (snd (may_prepare_event high me mb s), fl)"
| start: "flush_start to_iso me now s = (Some (g, a, c), s') \<Longrightarrow>
    step dp fr fromiso br to_iso me mb (s, Idle) (s', Preparing g)"
| refused: "flush_start to_iso me now s = (None, s') \<Longrightarrow> step dp fr fromiso br to_iso me mb (s, fl) (s', fl)"
| take: "offers_ok fr (aggregates @ (case pressure of None \<Rightarrow> [] | Some p \<Rightarrow> [p])) s \<Longrightarrow>
    flush_take fr fromiso now t0 me mb g aggregates pressure c s = Some (r, s') \<Longrightarrow>
    step dp fr fromiso br to_iso me mb (s, Preparing g) (s', after_take g r)"
| finalize: "generation s = g \<Longrightarrow> candidate_ok fr br s cand \<Longrightarrow>
    finalize_one fr fromiso br now mb (length fin) x cand s = Some (k, r, s') \<Longrightarrow>
    step dp fr fromiso br to_iso me mb (s, Finalizing g (x # todo) fin) (s', Finalizing g todo (fin @ opt_list r))"
| abort: "generation s \<noteq> g \<Longrightarrow> flush_split fr now g None s = Some (r, s') \<Longrightarrow>
    step dp fr fromiso br to_iso me mb (s, Finalizing g (x # todo) fin) (s', after_split g r)"
| split: "flush_split fr now g (Some fin) s = Some (r, s') \<Longrightarrow>
    step dp fr fromiso br to_iso me mb (s, Finalizing g [] fin) (s', after_split g r)"
| respond: "fresh_ids new_id batch s \<Longrightarrow> 0 \<le> wall now \<Longrightarrow>
    flush_respond fr new_id now g batch response s = Some s' \<Longrightarrow>
    step dp fr fromiso br to_iso me mb (s, Delivering g batch) (s', Idle)"
| init: "step dp fr fromiso br to_iso me mb (s, fl) (init_queue opt s, fl)"
| dispose: "dp \<Longrightarrow> step dp fr fromiso br to_iso me mb (s, fl) (dispose_queue s, fl)"
| configure: "step dp fr fromiso br to_iso me mb (s, fl) (s\<lparr>policy := p\<rparr>, fl)"
| learn: "step dp fr fromiso br to_iso me mb (s, fl) (s\<lparr>features := fs\<rparr>, fl)"
| track: "step dp fr fromiso br to_iso me mb (s, fl) (s\<lparr>suppression := tr\<rparr>, fl)"
| busy: "step dp fr fromiso br to_iso me mb (s, fl) (s\<lparr>pressure_drops := pressure_drops s + 1\<rparr>, fl)"
| bypass: "oid \<in> set (ids s) \<Longrightarrow> step dp fr fromiso br to_iso me mb (s, fl) (s\<lparr>hook_bypass := oid # hook_bypass s\<rparr>, fl)"

inductive_cases step_from_delivering: "step dp fr fromiso br to_iso me mb (s, Delivering g batch) x"

text \<open>A fresh SDK: what the constructor and \<open>init\<close> leave.\<close>

definition started :: "sdk \<Rightarrow> bool" where
  "started s \<longleftrightarrow> buffer s = [] \<and> buffer_sizes s = [] \<and> buffer_bytes s = 0 \<and> \<not> sending s \<and> inflight_count s = 0 \<and>
     hook_bypass s = [] \<and> diagnostics s = empty_budget"

inductive reachable ::
  "bool \<Rightarrow> (rat \<Rightarrow> string) \<Rightarrow> (string \<Rightarrow> rat option) \<Rightarrow> (string \<Rightarrow> bool) \<Rightarrow> (rat \<Rightarrow> string) \<Rightarrow> int \<Rightarrow> int \<Rightarrow> system \<Rightarrow> bool"
  for dp fr fromiso br to_iso me mb where
  base: "started s \<Longrightarrow> reachable dp fr fromiso br to_iso me mb (s, Idle)"
| later: "reachable dp fr fromiso br to_iso me mb x \<Longrightarrow> step dp fr fromiso br to_iso me mb x y \<Longrightarrow>
    reachable dp fr fromiso br to_iso me mb y"

subsection \<open>The invariant\<close>

fun phase_ok :: "(rat \<Rightarrow> string) \<Rightarrow> sdk \<Rightarrow> flusher \<Rightarrow> bool" where
  "phase_ok fr s Idle = (\<not> sending s \<and> inflight_count s = 0)"
| "phase_ok fr s (Preparing g) = (sending s \<and> g \<le> generation s \<and> (g = generation s \<longrightarrow> inflight_count s = 0))"
| "phase_ok fr s (Finalizing g todo fin) = (sending s \<and> g \<le> generation s \<and> (http s \<longrightarrow> fits_wire fr fin) \<and>
     (g = generation s \<longrightarrow> front s (fin @ todo)))"
| "phase_ok fr s (Delivering g batch) = (sending s \<and> g \<le> generation s \<and> (g = generation s \<longrightarrow> front s batch))"

fun sys_ok :: "bool \<Rightarrow> (rat \<Rightarrow> string) \<Rightarrow> int \<Rightarrow> int \<Rightarrow> system \<Rightarrow> bool" where
  "sys_ok dp fr me mb (s, fl) \<longleftrightarrow> queue_ok fr me mb s \<and> writable fr (buffer s) \<and> live dp s \<and> phase_ok fr s fl"

lemma phase_undisturbed:
  assumes "undisturbed s s'" "phase_ok fr s fl"
  shows "phase_ok fr s' fl"
proof -
  have same: "sending s' = sending s" "inflight_count s' = inflight_count s" "generation s' = generation s" "http s' = http s"
    using assms(1) by (auto simp: undisturbed_def)
  show ?thesis using assms(2) same front_undisturbed [OF assms(1)] by (cases fl) auto
qed

lemma undisturbed_same:
  "sending s' = sending s \<Longrightarrow> inflight_count s' = inflight_count s \<Longrightarrow> generation s' = generation s \<Longrightarrow> http s' = http s \<Longrightarrow>
   buffer s' = buffer s \<Longrightarrow> phase_ok fr s fl \<Longrightarrow> phase_ok fr s' fl"
  by (cases fl) (auto simp: front_def)

lemma queue_limits_nonneg:
  assumes "queue_ok fr me mb s" shows "0 \<le> me \<and> 0 \<le> mb"
proof -
  have "0 \<le> sum_list (map (bytes_of fr) (buffer s))" by (intro sum_list_nonneg) auto
  then show ?thesis using queue_okD(6,7) [OF assms] queue_bytes [OF assms] by linarith
qed

lemma init_ok: "queue_ok fr me mb s \<Longrightarrow> queue_ok fr me mb (init_queue opt s)"
  using queue_limits_nonneg [of fr me mb s] queue_okD(10) [of fr me mb s]
  by (simp add: init_queue_def dispose_queue_def Let_def queue_ok_def empty_budget_ok)

lemma fits_wire_append: "fits_wire fr (xs @ ys) \<longleftrightarrow> fits_wire fr xs \<and> fits_wire fr ys"
  by (auto simp: fits_wire_def)

lemma side_effect_ok:
  assumes "sys_ok dp fr me mb (s, fl)" "queue_ok fr me mb s \<Longrightarrow> queue_ok fr me mb s'" "buffer s' = buffer s" "sending s' = sending s"
    "inflight_count s' = inflight_count s" "generation s' = generation s" "http s' = http s" "timer s' = timer s"
  shows "sys_ok dp fr me mb (s', fl)"
proof -
  from assms(1) have s: "queue_ok fr me mb s" "writable fr (buffer s)" "live dp s" "phase_ok fr s fl" by simp_all
  have "phase_ok fr s' fl" by (rule undisturbed_same [OF _ _ _ _ _ s(4)]) (simp_all add: assms)
  then show ?thesis using s(2,3) assms(2) [OF s(1)] assms(3-8) by (auto simp: live_def split: if_splits)
qed

lemma step_ok:
  assumes "step dp fr fromiso br to_iso me mb x y" "sys_ok dp fr me mb x"
  shows "sys_ok dp fr me mb y"
  using assms
proof (induction rule: step.induct)
  case (offer oid s e now b s' fl)
  then have s: "queue_ok fr me mb s" "writable fr (buffer s)" "live dp s" "phase_ok fr s fl" by auto
  from offer_ok [OF s(1) offer.hyps(1) refl, of fromiso now e] obtain b0 t where
    o: "offer_protected_event fr fromiso now oid e (sdk_event_bytes fr e) me mb s = Some (b0, t)"
    and t: "queue_ok fr me mb t" "undisturbed s t" "set (buffer t) \<subseteq> insert (oid, e) (set (buffer s))"
      "\<not> b0 \<longrightarrow> set (buffer t) \<subseteq> set (buffer s)" "b0 \<longrightarrow> sending s \<or> timer t \<noteq> None" by blast
  have "b0 = b" "t = s'" using o offer.hyps(3) by simp_all
  with t have s': "queue_ok fr me mb s'" "undisturbed s s'" "set (buffer s') \<subseteq> insert (oid, e) (set (buffer s))"
    "\<not> b \<longrightarrow> set (buffer s') \<subseteq> set (buffer s)" "b \<longrightarrow> sending s \<or> timer s' \<noteq> None" by simp_all
  have "live dp s'" using s(3) s'(2,4,5) by (cases b) (auto simp: live_def undisturbed_def)
  then show ?case
    using s' writable_insert [OF s(2) offer.hyps(2) s'(3)] phase_undisturbed [OF s'(2) s(4)] by simp
next
  case (prepare s fl high)
  then show ?case by (auto simp: may_prepare_event_def count_drop_def live_def intro: undisturbed_same)
next
  case (start now s g a c s')
  then have s: "queue_ok fr me mb s" "live dp s" "writable fr (buffer s)" "inflight_count s = 0" by auto
  from flush_start_ok(1-5) [OF s(1,2) start.hyps] flush_start_ok(8) [OF s(1,2) start.hyps] s(3,4) show ?case by auto
next
  case (refused now s s' fl)
  then have s: "queue_ok fr me mb s" "live dp s" "writable fr (buffer s)" "phase_ok fr s fl" by auto
  note f = flush_start_ok(1-6) [OF s(1,2) refused.hyps] flush_start_ok(7) [OF s(1,2) refused.hyps refl]
  show ?case using f s undisturbed_same [OF f(7,5,4,6,3) s(4)] by simp
next
  case (take aggregates pressure s now t0 g c r s')
  then have s: "queue_ok fr me mb s" "writable fr (buffer s)" "sending s" "timer s = None"
    "g = generation s \<longrightarrow> inflight_count s = 0" by (auto simp: live_def)
  from flush_take_ok [OF s(1-4) take.hyps(1) s(5), of fromiso now t0 c] take.hyps(2) show ?case
    by (cases r) (auto simp: after_take_def fits_wire_def)
next
  case (finalize s g cand now fin x k r s' todo)
  then have s: "queue_ok fr me mb s" "writable fr (buffer s)" "front s (fin @ x # todo)" "sending s"
    "http s \<longrightarrow> fits_wire fr fin" "timer s = None" and rep: "replacement_ok fr br s cand"
    by (auto simp: candidate_ok_def live_def)
  from finalize_one_ok [OF s(1-3) rep, of fromiso now] finalize.hyps(3)
  have f: "queue_ok fr me mb s'" "writable fr (buffer s')" "front s' (fin @ opt_list r @ todo)"
    "sending s' = sending s" "generation s' = generation s" "http s' = http s" "timer s' = timer s"
    "\<forall>y. r = Some y \<longrightarrow> (\<exists>n. cand = Some (fst y, snd y, n))" by auto
  have "http s \<longrightarrow> fits_wire fr (opt_list r)"
    using finalize.hyps(2) f(8) by (cases r) (auto simp: candidate_ok_def opt_list_def fits_wire_def)
  then show ?case using f s finalize.hyps(1) by (simp add: fits_wire_append live_def)
next
  case (abort s g now r s' x todo fin)
  then have s: "queue_ok fr me mb s" "writable fr (buffer s)" "sending s" "timer s = None" by (auto simp: live_def)
  from flush_split_ok [OF s(1,3,4), where finalized = None and gen = g and now = now] abort.hyps s(2) show ?case
    by (cases r) (auto simp: after_split_def)
next
  case (split now g fin s r s')
  then have s: "queue_ok fr me mb s" "writable fr (buffer s)" "sending s" "timer s = None"
    "\<forall>xs. Some fin = Some xs \<longrightarrow> (http s \<longrightarrow> fits_wire fr xs) \<and> (g = generation s \<longrightarrow> front s xs)" by (auto simp: live_def)
  from flush_split_ok [OF s(1,3,4,5), where now = now] split.hyps s(2) show ?case
    by (cases r) (auto simp: after_split_def)
next
  case (respond new_id batch s now g response s')
  then have s: "queue_ok fr me mb s" "writable fr (buffer s)" "g = generation s \<longrightarrow> front s batch" by auto
  from flush_respond_ok [OF s respond.hyps(1,2), of response] respond.hyps(3) show ?case by auto
next
  case (init s fl opt)
  have new: "generation (init_queue opt s) = Suc (generation s)" "sending (init_queue opt s) = sending s"
    "inflight_count (init_queue opt s) = inflight_count s" "http (init_queue opt s) = http s"
    "buffer (init_queue opt s) = []" "timer (init_queue opt s) = None"
    by (simp_all add: init_queue_def dispose_queue_def Let_def)
  from init have "phase_ok fr s fl" by simp
  with new(1-4) have "phase_ok fr (init_queue opt s) fl" by (cases fl) auto
  moreover have "writable fr (buffer (init_queue opt s))" "live dp (init_queue opt s)"
    using new by (simp_all add: writable_def live_def)
  moreover have "queue_ok fr me mb (init_queue opt s)" using init init_ok [of fr me mb s opt] by simp
  ultimately show ?case by simp
next
  case (dispose s fl)
  then have s: "queue_ok fr me mb s" "writable fr (buffer s)" "live dp s" "phase_ok fr s fl" "dp" by simp_all
  have "phase_ok fr (dispose_queue s) fl" by (rule undisturbed_same [OF _ _ _ _ _ s(4)]) (simp_all add: dispose_queue_def)
  moreover have "queue_ok fr me mb (dispose_queue s)"
    using s(1) by (simp add: queue_ok_def dispose_queue_def empty_budget_ok)
  ultimately show ?case using s(2,3,5) by (simp add: live_def dispose_queue_def)
next
  case (configure s fl p)
  then show ?case by (elim side_effect_ok) (simp_all add: queue_ok_def)
next
  case (learn s fl fs)
  then show ?case by (elim side_effect_ok) (simp_all add: queue_ok_def)
next
  case (track s fl tr)
  then show ?case by (elim side_effect_ok) (simp_all add: queue_ok_def)
next
  case (busy s fl)
  then show ?case by (elim side_effect_ok) (simp_all add: queue_ok_def)
next
  case (bypass oid s fl)
  from bypass.prems show ?case by (rule side_effect_ok) (use bypass.hyps in \<open>simp_all add: queue_ok_def\<close>)
qed

lemma started_ok:
  assumes "started s" "0 \<le> me" "0 \<le> mb"
  shows "sys_ok dp fr me mb (s, Idle)"
  using assms by (simp add: started_def queue_ok_def empty_budget_ok writable_def live_def)

lemma reachable_sys_ok:
  assumes "reachable dp fr fromiso br to_iso me mb x" "0 \<le> me" "0 \<le> mb"
  shows "sys_ok dp fr me mb x"
  using assms by (induction rule: reachable.induct) (blast intro: started_ok step_ok)+

end
