(* ===== verification/Delivery_Facts.thy ===== *)
theory Delivery_Facts
  imports Delivery
begin

text \<open>
  What the delivery protocol guarantees in every reachable state, and what one answer of the server does
  to the queue.
\<close>

subsection \<open>Every section returns\<close>

text \<open>No section of the flush raises on what it may be given in the phase it runs in.\<close>

fun section_returns ::
  "(rat \<Rightarrow> string) \<Rightarrow> (string \<Rightarrow> rat option) \<Rightarrow> (string \<Rightarrow> bool) \<Rightarrow> int \<Rightarrow> int \<Rightarrow> sdk \<Rightarrow> flusher \<Rightarrow> bool" where
  "section_returns fr fromiso br me mb s Idle \<longleftrightarrow> True"
| "section_returns fr fromiso br me mb s (Preparing g) \<longleftrightarrow> (\<forall>now t0 c aggregates pressure.
     offers_ok fr (aggregates @ (case pressure of None \<Rightarrow> [] | Some p \<Rightarrow> [p])) s \<longrightarrow>
     flush_take fr fromiso now t0 me mb g aggregates pressure c s \<noteq> None)"
| "section_returns fr fromiso br me mb s (Finalizing g [] fin) \<longleftrightarrow> (\<forall>now. flush_split fr now g (Some fin) s \<noteq> None)"
| "section_returns fr fromiso br me mb s (Finalizing g (x # todo) fin) \<longleftrightarrow>
     (if generation s = g then \<forall>now cand. candidate_ok fr br s cand \<longrightarrow>
        finalize_one fr fromiso br now mb (length fin) x cand s \<noteq> None
      else \<forall>now. flush_split fr now g None s \<noteq> None)"
| "section_returns fr fromiso br me mb s (Delivering g batch) \<longleftrightarrow> (\<forall>new_id now response.
     fresh_ids new_id batch s \<and> 0 \<le> wall now \<longrightarrow> flush_respond fr new_id now g batch response s \<noteq> None)"

lemma sys_section_returns:
  assumes "sys_ok dp fr me mb (s, fl)"
  shows "section_returns fr fromiso br me mb s fl"
proof (cases "(fr, fromiso, br, me, mb, s, fl)" rule: section_returns.cases)
  case (2 _ _ _ _ _ _ g)
  with assms have s: "queue_ok fr me mb s" "writable fr (buffer s)" "sending s" "timer s = None"
    "g = generation s \<longrightarrow> inflight_count s = 0" by (auto simp: live_def)
  show ?thesis using flush_take_ok [OF s(1-4) _ s(5)] 2 by fastforce
next
  case (3 _ _ _ _ _ _ g fin)
  with assms have s: "queue_ok fr me mb s" "sending s" "timer s = None"
    "\<forall>xs. Some fin = Some xs \<longrightarrow> (http s \<longrightarrow> fits_wire fr xs) \<and> (g = generation s \<longrightarrow> front s xs)"
    by (auto simp: live_def)
  show ?thesis using flush_split_ok [OF s] 3 by fastforce
next
  case (4 _ _ _ _ _ _ g x todo fin)
  with assms have s: "queue_ok fr me mb s" "writable fr (buffer s)" "sending s" "timer s = None"
    "g = generation s \<longrightarrow> front s (fin @ x # todo)" by (auto simp: live_def)
  show ?thesis
    using finalize_one_ok [OF s(1,2), of fin x todo br] flush_split_ok [OF s(1,3,4), of None g] s(5) 4
    by (fastforce simp: candidate_ok_def)
next
  case (5 _ _ _ _ _ _ g batch)
  with assms have s: "queue_ok fr me mb s" "writable fr (buffer s)" "g = generation s \<longrightarrow> front s batch" by auto
  show ?thesis using flush_respond_ok [OF s] 5 by fastforce
qed auto


lemma sample_reachable: "reachable dp fr fromiso br to_iso 1000 8388608 (sample_sdk, Idle)"
  by (intro reachable.base) (simp add: started_def sample_sdk_def)

definition sample_clock :: clock where
  "sample_clock = \<lparr>wall = 10, mono = 10, timer_alive = False\<rparr>"

lemma sample_started:
  "reachable dp fr fromiso br to_iso 1000 8388608
     (sample_sdk\<lparr>sending := True, timer := None\<rparr>, Preparing 1)"
proof -
  have "flush_start to_iso 1000 sample_clock sample_sdk =
      (Some (1, [], 0), sample_sdk\<lparr>sending := True, timer := None\<rparr>)"
    by (simp add: flush_start_def sample_sdk_def sample_clock_def)
  from step.start [OF this] sample_reachable show ?thesis by (blast intro: reachable.later)
qed


subsection \<open>The books in every reachable state\<close>

text \<open>
  C1: In every reachable state the queue holds at most \<open>max_events\<close> events of together at most
  \<open>max_bytes\<close> bytes, \<open>_buffer_bytes\<close> is exactly the sum of their sizes, every event has its own identity
  and its size on the books, the hook bypass and the diagnostic budget are in order, \<open>_sending\<close> is set
  exactly during a flush, and the batch of a flush whose generation is current stands at the front of the
  queue and is what \<open>_inflight_count\<close> counts.
\<close>

theorem reachable_queue_in_order:
  assumes "reachable dp fr fromiso br to_iso max_events max_bytes (s, fl)" "0 \<le> max_events" "0 \<le> max_bytes"
  shows "queue_ok fr max_events max_bytes s \<and> buffer_bytes s = sum_list (map (bytes_of fr) (buffer s)) \<and>
    (sending s \<longleftrightarrow> fl \<noteq> Idle) \<and>
    (case fl of Finalizing g todo fin \<Rightarrow> g = generation s \<longrightarrow> front s (fin @ todo)
     | Delivering g batch \<Rightarrow> g = generation s \<longrightarrow> front s batch | _ \<Rightarrow> True)"
proof -
  have "sys_ok dp fr max_events max_bytes (s, fl)" by (rule reachable_sys_ok [OF assms])
  then show ?thesis using queue_bytes [of fr max_events max_bytes s] by (cases fl) auto
qed

theorem reachable_queue_in_order_witness:
  "queue_ok (\<lambda>q. []) 1000 8388608 (sample_sdk\<lparr>sending := True, timer := None\<rparr>)"
  using reachable_queue_in_order [OF sample_started [of False "\<lambda>q. []" "\<lambda>t. None" "\<lambda>u. True" "\<lambda>q. []"]] by simp

subsection \<open>No stranded events\<close>

lemma flush_start_fires:
  assumes "enabled s" "has_transport s" "\<not> sending s"
  shows "fst (flush_start to_iso me now s) \<noteq> None \<or> timer (snd (flush_start to_iso me now s)) \<noteq> None"
  using assms schedule_flush_timer(2) [of "s\<lparr>timer := None\<rparr>" now]
  by (auto simp: flush_start_def Let_def split_beta)


definition log_event :: pydict where
  "log_event = [(PStr ''event_type'', PStr ''log_event''), (PStr ''payload'', PDict [(PStr ''level'', PStr ''warning'')])]"

lemma log_event_size: "json_bytes True True fr (PDict log_event) = Some 56"
  by (simp add: log_event_def json_bytes_def json_str_def json_char_def)

lemma log_event_offered:
  "offer_protected_event fr fromiso sample_clock 7 log_event (sdk_event_bytes fr log_event) 1000 8388608 sample_sdk =
       Some (True, sample_sdk\<lparr>buffer := [(7, log_event)], buffer_sizes := [(7, 56)], buffer_bytes := 56,
         pending_low_priority := 1, timer := Some 15\<rparr>)"
proof -
  have low: "\<not> high_priority_event log_event" "\<not> is_type ''diagnostic_context'' log_event"
    "dgetn log_event ''context'' = PNone"
    by (simp_all add: high_priority_event_def is_type_def log_event_def dgetn_def)
  have room: "make_room fr 56 1000 8388608 False sample_sdk = Some (True, sample_sdk)"
    by (subst make_room.simps) (simp add: too_full_def sample_sdk_def)
  have rec: "reconcile_diagnostic fr fromiso sample_clock None (Some log_event) sample_sdk = (True, sample_sdk)"
    using low by (simp add: reconcile_diagnostic_def Let_def release_diagnostic_def)
  have "sdk_event_bytes fr log_event = 56" by (simp add: sdk_event_bytes_def log_event_size)
  then show ?thesis using low room rec
    by (simp add: offer_protected_event_def Let_def place_event_def schedule_flush_def sample_clock_def)
      (simp add: sample_sdk_def)
qed

abbreviation queued_sdk :: sdk where
  "queued_sdk \<equiv> sample_sdk\<lparr>buffer := [(7, log_event)], buffer_sizes := [(7, 56)], buffer_bytes := 56,
     pending_low_priority := 1, timer := Some 15\<rparr>"

lemma queued_reachable: "reachable dp fr fromiso br to_iso 1000 8388608 (queued_sdk, Idle)"
proof -
  have "step dp fr fromiso br to_iso 1000 8388608 (sample_sdk, Idle) (queued_sdk, Idle)"
    by (rule step.offer [OF _ _ log_event_offered]) (simp_all add: sample_sdk_def log_event_size)
  then show ?thesis by (rule reachable.later [OF sample_reachable])
qed


subsection \<open>What an answer does to the queue\<close>

lemma settle_frame:
  assumes "settle fr now d s = Some t"
  shows "buffer t = buffer s" "timer s \<noteq> None \<longrightarrow> timer t \<noteq> None" "consecutive_failures t = consecutive_failures s"
    "last_event_at t = last_event_at s" "retry_after t = retry_after s"
    "pending_low_priority t = int (length (filter (\<lambda>x. \<not> high_priority_event (snd x)) (buffer s)))"
  using assms schedule_flush_frame
  by (auto simp: settle_def Let_def schedule_pressure_report_def schedule_flush_def split: if_splits option.splits)

text \<open>The answers after which the batch has to be sent again.\<close>

definition undelivered :: "bool \<Rightarrow> (nat \<times> pydict) list \<Rightarrow> TransportResponse option \<Rightarrow> bool" where
  "undelivered over_http batch response \<longleftrightarrow> (case response of
     None \<Rightarrow> True
   | Some r \<Rightarrow>
       if 200 \<le> status_code r \<and> status_code r < 300
       then (case decide_acknowledgement (body r) (int (length batch)) over_http of ProtocolFailure _ \<Rightarrow> True | _ \<Rightarrow> False)
       else status_code r = 429 \<or> \<not> (400 \<le> status_code r \<and> status_code r < 500))"

lemma undelivered_handled:
  assumes "undelivered (http s) batch response" "\<not> sending s" "handle_response fr new_id now batch response s = Some t"
  shows "buffer t = buffer s" "timer t \<noteq> None" "consecutive_failures t = consecutive_failures s + 1"
proof -
  have fails: "buffer (fail_once s) = buffer s" "sending (fail_once s) = sending s"
    "consecutive_failures (fail_once s) = consecutive_failures s + 1" by (simp_all add: fail_once_def)
  have backs: "consecutive_failures (back_off now r u) = consecutive_failures u" for r u
    by (simp add: back_off_def Let_def)
  have "buffer t = buffer s \<and> timer t \<noteq> None \<and> consecutive_failures t = consecutive_failures s + 1"
  proof (cases response)
    case None
    with assms(2,3) fails schedule_flush_timer(2) [of "fail_once s" now None] show ?thesis
      by (auto simp: handle_response_def)
  next
    case (Some r)
    show ?thesis
    proof (cases "200 \<le> status_code r \<and> status_code r < 300")
      case True
      with assms(1) Some obtain reason where
        d: "decide_acknowledgement (body r) (int (length batch)) (http s) = ProtocolFailure reason"
        by (auto simp: undelivered_def split: decision.splits)
      obtain lost s1 where o: "observe_evidence (body r) (http s) False s = (lost, s1)"
        by (cases "observe_evidence (body r) (http s) False s")
      obtain fs where s1: "s1 = s\<lparr>features := fs\<rparr>" using o observe_evidence_frame [of "body r" "http s" False s] by auto
      have "t = back_off now r (fail_once s1)"
        using assms(3) Some True d o by (simp add: handle_response_def Let_def acknowledge_def)
      then show ?thesis using assms(2) s1 back_off_timer [of "fail_once s1" now r]
        by (simp add: back_off_frame backs fail_once_def)
    next
      case False
      with assms(1) Some have "status_code r = 429 \<or> \<not> (400 \<le> status_code r \<and> status_code r < 500)"
        by (auto simp: undelivered_def)
      with assms(3) Some False have "t = back_off now r (fail_once s) \<or> t = schedule_flush now None (fail_once s)"
        by (auto simp: handle_response_def Let_def split: if_splits)
      then show ?thesis using assms(2) fails back_off_timer [of "fail_once s" now r]
          schedule_flush_timer(2) [of "fail_once s" now None]
        by (auto simp: back_off_frame backs)
    qed
  qed
  then show "buffer t = buffer s" "timer t \<noteq> None" "consecutive_failures t = consecutive_failures s + 1" by blast+
qed


text \<open>A flush of the sample event, up to the answer.\<close>

abbreviation taken_sdk :: sdk where
  "taken_sdk \<equiv> sample_sdk\<lparr>buffer := [(7, log_event)], buffer_sizes := [(7, 56)], buffer_bytes := 56,
     pending_low_priority := 0, timer := None, sending := True, inflight_count := 1\<rparr>"

abbreviation delivering_sdk :: sdk where
  "delivering_sdk \<equiv> sample_sdk\<lparr>buffer := [(8, log_event)], buffer_sizes := [(8, 56)], buffer_bytes := 56,
     pending_low_priority := 0, timer := None, sending := True, inflight_count := 1\<rparr>"

lemma taken_reachable:
  "reachable dp fr fromiso br to_iso 1000 8388608 (taken_sdk, Finalizing 1 [(7, log_event)] [])"
proof -
  let ?s = "queued_sdk\<lparr>timer := None, sending := True\<rparr>"
  have "flush_start to_iso 1000 sample_clock queued_sdk = (Some (1, [], 0), ?s)"
    by (simp add: flush_start_def sample_sdk_def sample_clock_def)
  from reachable.later [OF queued_reachable step.start [OF this]]
  have r: "reachable dp fr fromiso br to_iso 1000 8388608 (?s, Preparing 1)" .
  have o: "offers_ok fr ([] @ (case None of None \<Rightarrow> [] | Some p \<Rightarrow> [p])) ?s" by (simp add: offers_ok_def)
  have "flush_take fr fromiso sample_clock 10 1000 8388608 1 [] None 0 ?s = Some (Some [(7, log_event)], taken_sdk)"
    by (simp add: flush_take_def offer_pressure_def) (simp add: sample_sdk_def)
  from reachable.later [OF r step.take [OF o this]] show ?thesis by (simp add: after_take_def)
qed

lemma log_event_allowed: "replacement_allowed br s log_event =
    log_level_eligible (enabled s) (log_level s) (policy s) ''warning''"
  by (simp add: replacement_allowed_def is_type_def log_event_def dgetn_def payload_of_def)

lemma normalize_warning: "normalize_level ''warning'' = ''warning''"
  by code_simp

lemma delivering_reachable:
  "reachable dp fr fromiso br to_iso 1000 8388608 (delivering_sdk, Delivering 1 [(8, log_event)])"
proof -
  have bytes: "sdk_event_bytes fr log_event = 56" by (simp add: sdk_event_bytes_def log_event_size)
  have wire: "json_bytes False False fr (PDict log_event) = Some 56"
    by (simp add: log_event_def json_bytes_def json_str_def json_char_def)
  have plain: "is_type t log_event \<longleftrightarrow> t = ''log_event''" "dgetn log_event ''context'' = PNone" for t
    by (auto simp: is_type_def log_event_def dgetn_def)
  have allowed: "replacement_allowed br taken_sdk log_event = Some True"
    by (simp add: log_event_allowed sample_sdk_def BALANCED_CAPTURE_POLICY_def log_level_eligible_def
        effective_log_threshold_def LEVEL_RANKS_def level_enabled_def normalize_warning)
  have rec: "reconcile_diagnostic fr fromiso sample_clock (Some log_event) (Some log_event) taken_sdk = (True, taken_sdk)"
    by (simp add: reconcile_diagnostic_def Let_def release_diagnostic_def plain)
  have c: "candidate_ok fr br taken_sdk (Some (8, log_event, 56))"
    using allowed by (auto simp: candidate_ok_def replacement_ok_def bytes log_event_size fits_wire_def wire
      MAX_EVENT_BYTES_def MAX_BODY_BYTES_def sample_sdk_def)
  have f: "finalize_one fr fromiso br sample_clock 8388608 (length ([] :: (nat \<times> pydict) list)) (7, log_event)
      (Some (8, log_event, 56)) taken_sdk = Some (1, Some (8, log_event), delivering_sdk)"
    using allowed rec by (simp add: finalize_one_def Let_def) (simp add: sample_sdk_def)
  have g: "generation taken_sdk = 1" by (simp add: sample_sdk_def)
  from reachable.later [OF taken_reachable step.finalize [OF g c f]]
  have r: "reachable dp fr fromiso br to_iso 1000 8388608 (delivering_sdk, Finalizing 1 [] [(8, log_event)])"
    by (simp add: opt_list_def)
  have "wire_batch fr True [(8 :: nat, log_event)] = Some [(8, log_event)]"
    by (simp add: wire_batch_def wire_prefix_def event_bytes_def wire Let_def MAX_EVENT_BYTES_def MAX_BODY_BYTES_def)
  then have "flush_split fr sample_clock 1 (Some [(8, log_event)]) delivering_sdk = Some (Some [(8, log_event)], delivering_sdk)"
    by (simp add: flush_split_def Let_def) (simp add: sample_sdk_def)
  from reachable.later [OF r step.split [OF this]] show ?thesis by (simp add: after_split_def)
qed


lemma downgrade_length:
  "downgrade_rejections fr new_id batch errors s = Some (rs, s') \<Longrightarrow> length rs \<le> length errors \<and> same_but_sizes s s'"
proof (induction errors arbitrary: s rs s')
  case (Cons e errors)
  obtain index reason where e: "e = (index, reason)" by (cases e)
  show ?case
  proof (cases "downgrade_rejections fr new_id batch errors s = Some (rs, s')")
    case True
    from Cons.IH [OF this] show ?thesis by simp
  next
    case False
    with Cons.prems e obtain s1 rs1 where "same_but_sizes s s1"
      "downgrade_rejections fr new_id batch errors s1 = Some (rs1, s')" "length rs = Suc (length rs1)"
      by (fastforce simp: Let_def same_but_sizes_def split: if_splits option.splits prod.splits)
    with Cons.IH [of s1 rs1 s'] show ?thesis by (fastforce simp: same_but_sizes_def)
  qed
qed (simp add: same_but_sizes_refl)

lemma acknowledged_handled:
  assumes "handle_response fr new_id now batch (Some r) s = Some t" "200 \<le> status_code r" "status_code r < 300"
    and answer: "decide_acknowledgement (body r) (int (length batch)) (http s) = Acknowledged a retryable terminal"
    and idle: "\<not> sending s"
  shows "\<exists>rs. buffer t = map (\<lambda>i. batch ! nat i) retryable @ rs @ drop (length batch) (buffer s) \<and>
    length rs \<le> length terminal \<and>
    (if retryable = [] \<and> rs = [] then retry_after t = 0
     else timer t \<noteq> None \<and> retry_after t = wall now + of_int (bounded_retry_after_ms (retry_after_ms r) 1000) / 1000)"
proof -
  obtain lost s1 where o: "observe_evidence (body r) (http s) True s = (lost, s1)"
    by (cases "observe_evidence (body r) (http s) True s")
  obtain fs where s1: "s1 = s\<lparr>features := fs\<rparr>" using o observe_evidence_frame [of "body r" "http s" True s] by auto
  have all: "filter (\<lambda>i. 0 \<le> i \<and> i < int (length batch)) retryable = retryable"
    using ack_positions(2) [OF answer] by (auto intro: filter_True)
  from assms o obtain rs s2 where rs: "(if lost then downgrade_rejections fr new_id batch terminal s1 else Some ([], s1)) = Some (rs, s2)"
    and t: "t = (let s3 = s2\<lparr>buffer := map (\<lambda>i. batch ! nat i) retryable @ rs @ drop (length batch) (buffer s1)\<rparr>;
        s4 = (if 0 < a then s3\<lparr>last_event_at := Some (wall now * 1000)\<rparr> else s3)
      in if retryable \<noteq> [] \<or> rs \<noteq> [] then back_off now r (fail_once s4)
         else s4\<lparr>retry_after := 0, consecutive_failures := (if 0 < a then 0 else 3)\<rparr>)"
    by (auto simp: handle_response_def Let_def acknowledge_def all split: option.splits prod.splits)
  have sub: "same_but_sizes s1 s2" "length rs \<le> length terminal"
    using rs downgrade_length [of fr new_id batch terminal s1 rs s2] same_but_sizes_refl by (auto split: if_splits)
  then have "\<not> sending s2" "buffer s1 = buffer s" using idle s1 by (auto simp: same_but_sizes_def)
  then show ?thesis
    using t sub(2) back_off_timer [of "fail_once (if 0 < a then s2\<lparr>buffer := b, last_event_at := l\<rparr> else s2\<lparr>buffer := b\<rparr>)" now r for b l]
    by (intro exI [of _ rs]) (auto simp: Let_def back_off_frame fail_once_def back_off_def schedule_flush_timer)
qed

text \<open>
  C7: After an acknowledgement the queue holds the retryable events of the batch in the order the server
  named them, then at most as many reduced events as there were terminal errors, then exactly what was
  behind the batch: accepted and terminally rejected events have left it. Retries wait for the bounded
  delay with a timer set, and without any the delay is lifted.
\<close>

theorem acknowledgement_settles_batch:
  assumes "reachable dp fr fromiso br to_iso max_events max_bytes (s, Delivering (generation s) batch)"
    and "0 \<le> max_events" "0 \<le> max_bytes" "fresh_ids new_id batch s" "0 \<le> wall now"
    and "200 \<le> status_code r" "status_code r < 300"
    and "decide_acknowledgement (body r) (int (length batch)) (http s) = Acknowledged accepted retryable terminal"
  shows "\<exists>t rs tail. flush_respond fr new_id now (generation s) batch (Some r) s = Some t \<and> buffer s = batch @ tail \<and>
    buffer t = map (\<lambda>i. batch ! nat i) retryable @ rs @ tail \<and>
    int (length (buffer t)) + accepted + int (length terminal - length rs) = int (length (buffer s)) \<and>
    (if retryable = [] \<and> rs = [] then retry_after t = 0
     else timer t \<noteq> None \<and> retry_after t = wall now + of_int (bounded_retry_after_ms (retry_after_ms r) 1000) / 1000)"
proof -
  let ?s = "s\<lparr>sending := False, inflight_count := 0\<rparr>"
  have "sys_ok dp fr max_events max_bytes (s, Delivering (generation s) batch)" by (rule reachable_sys_ok [OF assms(1-3)])
  then have s: "queue_ok fr max_events max_bytes s" "writable fr (buffer s)"
    "generation s = generation s \<longrightarrow> front s batch" by auto
  then obtain tail where tail: "buffer s = batch @ tail" by (auto simp: front_def)
  from flush_respond_ok [OF s assms(4,5), of "Some r"] obtain t where
    t: "flush_respond fr new_id now (generation s) batch (Some r) s = Some t" by blast
  then obtain u d where u: "handle_response fr new_id now batch (Some r) ?s = Some u" "settle fr now d u = Some t"
    by (auto simp: flush_respond_def Let_def split: option.splits)
  from acknowledged_handled [OF u(1) assms(6,7)] assms(8) obtain rs where
    rs: "buffer u = map (\<lambda>i. batch ! nat i) retryable @ rs @ tail" "length rs \<le> length terminal"
    "if retryable = [] \<and> rs = [] then retry_after u = 0 else timer u \<noteq> None \<and>
       retry_after u = wall now + of_int (bounded_retry_after_ms (retry_after_ms r) 1000) / 1000"
    by (auto simp: tail)
  have "accepted + int (length retryable) + int (length terminal) = int (length batch)"
    by (rule ack_total [OF assms(8)])
  then show ?thesis using t tail rs settle_frame(1,2,5) [OF u(2)]
    by (intro exI [of _ t] exI [of _ rs] exI [of _ tail]) (auto split: if_splits)
qed

definition partial_answer :: TransportResponse where
  "partial_answer = \<lparr>status_code = 202, retry_after_ms = PNone, body = PDict [(PStr ''accepted'', PInt 0),
     (PStr ''rejected'', PInt 1), (PStr ''errors'', PList
       [PDict [(PStr ''index'', PInt 0), (PStr ''reason'', PStr ''rate_limited'')]])]\<rparr>"

theorem acknowledgement_settles_batch_witness:
  "\<exists>t rs. flush_respond (\<lambda>q. []) (\<lambda>i. i + 9) sample_clock (generation delivering_sdk) [(8, log_event)]
      (Some partial_answer) delivering_sdk = Some t \<and> buffer t = (8, log_event) # rs \<and> timer t \<noteq> None"
proof -
  have g: "generation delivering_sdk = 1" by (simp add: sample_sdk_def)
  have f: "fresh_ids (\<lambda>i. i + 9) [(8, log_event)] delivering_sdk" by (auto simp: fresh_ids_def inj_on_def)
  have d: "decide_acknowledgement (body partial_answer) 1 True = Acknowledged 0 [0] []" by code_simp
  have h: "http delivering_sdk" by (simp add: sample_sdk_def)
  from acknowledgement_settles_batch [of False "\<lambda>q. []" "\<lambda>t. None" "\<lambda>u. True" "\<lambda>q. []" 1000 8388608 delivering_sdk
        "[(8, log_event)]" "\<lambda>i. i + 9" sample_clock partial_answer 0 "[0]" "[]"] d h f g
      delivering_reachable [of False "\<lambda>q. []" "\<lambda>t. None" "\<lambda>u. True" "\<lambda>q. []"]
  show ?thesis by (auto simp: sample_clock_def partial_answer_def)
qed

subsection \<open>A flush can always be finished\<close>

lemma fresh_ids_exist: "\<exists>new_id. fresh_ids new_id batch s"
proof -
  let ?m = "Suc (Max (insert 0 (set (ids s))))"
  have "i + ?m \<notin> set (ids s)" for i
  proof
    assume "i + ?m \<in> set (ids s)"
    then have "i + ?m \<le> Max (insert 0 (set (ids s)))" by (intro Max_ge) auto
    then show False by simp
  qed
  then show ?thesis by (intro exI [of _ "\<lambda>i. i + ?m"]) (auto simp: fresh_ids_def inj_on_def)
qed

lemma delivering_finishes:
  assumes "sys_ok dp fr me mb (s, Delivering g batch)"
  shows "\<exists>s'. step dp fr fromiso br to_iso me mb (s, Delivering g batch) (s', Idle)"
proof -
  obtain new_id where f: "fresh_ids new_id batch s" using fresh_ids_exist by blast
  have "0 \<le> wall sample_clock" by (simp add: sample_clock_def)
  moreover from this f sys_section_returns [OF assms] obtain s' where
    "flush_respond fr new_id sample_clock g batch None s = Some s'" by fastforce
  ultimately show ?thesis using f by (blast intro: step.respond)
qed

lemma split_finishes:
  assumes "step dp fr fromiso br to_iso me mb x (s, after_split g r)" "sys_ok dp fr me mb x"
  shows "\<exists>s'. (step dp fr fromiso br to_iso me mb)\<^sup>*\<^sup>* x (s', Idle)"
proof (cases r)
  case None
  with assms(1) show ?thesis by (auto simp: after_split_def)
next
  case (Some batch)
  with assms(1) have x: "step dp fr fromiso br to_iso me mb x (s, Delivering g batch)" by (simp add: after_split_def)
  from delivering_finishes [OF step_ok [OF x assms(2)]] x show ?thesis
    by (meson converse_rtranclp_into_rtranclp r_into_rtranclp)
qed

lemma finalizing_finishes:
  "sys_ok dp fr me mb (s, Finalizing g todo fin) \<Longrightarrow>
   \<exists>s'. (step dp fr fromiso br to_iso me mb)\<^sup>*\<^sup>* (s, Finalizing g todo fin) (s', Idle)"
proof (induction todo arbitrary: s fin)
  case Nil
  from sys_section_returns [OF Nil] obtain r s' where "flush_split fr sample_clock g (Some fin) s = Some (r, s')"
    by fastforce
  from split_finishes [OF step.split [OF this] Nil] show ?case .
next
  case (Cons x todo)
  show ?case
  proof (cases "generation s = g")
    case True
    have c: "candidate_ok fr br s None" by (simp add: candidate_ok_def replacement_ok_def)
    with sys_section_returns [OF Cons.prems, of fromiso br] True obtain k r s' where
      f: "finalize_one fr fromiso br sample_clock mb (length fin) x None s = Some (k, r, s')" by fastforce
    note st = step.finalize [OF True c f, of dp to_iso me todo]
    from Cons.IH [OF step_ok [OF st Cons.prems]] st show ?thesis
      by (meson converse_rtranclp_into_rtranclp)
  next
    case False
    with sys_section_returns [OF Cons.prems, of fromiso br] obtain r s' where
      "flush_split fr sample_clock g None s = Some (r, s')" by fastforce
    from split_finishes [OF step.abort [OF False this] Cons.prems] show ?thesis .
  qed
qed



text \<open>
  Splitting off the wire batch leaves the counter of evictable events at zero although the events behind
  the batch may be evicted again: a full queue then refuses to prepare a high-priority event.
\<close>

lemma split_leaves_no_evictable_count:
  "pending_low_priority (sample_sdk\<lparr>buffer := [(7, log_event), (8, log_event)], inflight_count := 1, sending := True\<rparr>) = 0 \<and>
   evict_index (sample_sdk\<lparr>buffer := [(7, log_event), (8, log_event)], inflight_count := 1, sending := True\<rparr>) = Some 1 \<and>
   fst (may_prepare_event True 2 100 (sample_sdk\<lparr>buffer := [(7, log_event), (8, log_event)], inflight_count := 1,
     sending := True\<rparr>)) = False"
  by (simp add: sample_sdk_def evict_index_def high_priority_event_def is_type_def log_event_def dgetn_def may_prepare_event_def)

end
