(* ===== verification/Regex.thy ===== *)
theory Regex
  imports PyValues
begin

text \<open>
  The fragment of Python's \<open>re\<close> that the SDK's patterns use. A position is the character before it and
  the text after it. \<open>ends r p\<close> lists the positions where a match of \<open>r\<close> that starts at \<open>p\<close> may end, in
  the order a backtracking matcher tries them, so that the first one is the match \<open>re\<close> reports.
  Characters are those of theory PyValues; \<open>is_word\<close> is \<open>\w\<close> on them.
\<close>

type_synonym pos = "char option \<times> string"

datatype rx =
    Eps
  | One "char \<Rightarrow> bool"
  | Cat rx rx
  | Alt rx rx
  | Many rx
  | Few rx
  | Rep nat nat rx
  | Boundary
  | NotBehind "char \<Rightarrow> bool"
  | NotAhead "char \<Rightarrow> bool"

definition is_alnum :: "char \<Rightarrow> bool" where
  "is_alnum c \<longleftrightarrow> (let n = ord_of c in is_digit c \<or> (65 \<le> n \<and> n \<le> 90) \<or> (97 \<le> n \<and> n \<le> 122))"

definition is_word :: "char \<Rightarrow> bool" where
  "is_word c \<longleftrightarrow> is_alnum c \<or> c = CHR ''_'' \<or> ord_of c \<in> {170, 178, 179, 181, 185, 186, 188, 189, 190} \<or>
     (192 \<le> ord_of c \<and> ord_of c \<noteq> 215 \<and> ord_of c \<noteq> 247)"

text \<open>\<open>r*\<close>, \<open>r*?\<close> and \<open>r{0,n}\<close>, given where a match of \<open>r\<close> may end. An iteration has to move on.\<close>

fun many_ends :: "nat \<Rightarrow> (pos \<Rightarrow> pos list) \<Rightarrow> pos \<Rightarrow> pos list" where
  "many_ends 0 f p = [p]"
| "many_ends (Suc n) f p =
     concat (map (many_ends n f) (filter (\<lambda>q. length (snd q) < length (snd p)) (f p))) @ [p]"

fun few_ends :: "nat \<Rightarrow> (pos \<Rightarrow> pos list) \<Rightarrow> pos \<Rightarrow> pos list" where
  "few_ends 0 f p = [p]"
| "few_ends (Suc n) f p =
     p # concat (map (few_ends n f) (filter (\<lambda>q. length (snd q) < length (snd p)) (f p)))"

fun times_ends :: "nat \<Rightarrow> (pos \<Rightarrow> pos list) \<Rightarrow> pos \<Rightarrow> pos list" where
  "times_ends 0 f p = [p]"
| "times_ends (Suc n) f p = concat (map (times_ends n f) (f p))"

fun one_end :: "(char \<Rightarrow> bool) \<Rightarrow> pos \<Rightarrow> pos list" where
  "one_end P (b, c # s) = (if P c then [(Some c, s)] else [])"
| "one_end P (b, []) = []"

definition at_boundary :: "pos \<Rightarrow> bool" where
  "at_boundary p \<longleftrightarrow>
     (case fst p of None \<Rightarrow> False | Some c \<Rightarrow> is_word c) \<noteq> (case snd p of [] \<Rightarrow> False | c # _ \<Rightarrow> is_word c)"

text \<open>\<open>Rep m k r\<close> is \<open>r{m,m+k}\<close>.\<close>

primrec ends :: "rx \<Rightarrow> pos \<Rightarrow> pos list" where
  "ends Eps p = [p]"
| "ends (One P) p = one_end P p"
| "ends (Cat r q) p = concat (map (ends q) (ends r p))"
| "ends (Alt r q) p = ends r p @ ends q p"
| "ends (Many r) p = many_ends (length (snd p)) (ends r) p"
| "ends (Few r) p = few_ends (length (snd p)) (ends r) p"
| "ends (Rep m k r) p = concat (map (many_ends k (ends r)) (times_ends m (ends r) p))"
| "ends Boundary p = (if at_boundary p then [p] else [])"
| "ends (NotBehind P) p = (if (case fst p of None \<Rightarrow> False | Some c \<Rightarrow> P c) then [] else [p])"
| "ends (NotAhead P) p = (if (case snd p of [] \<Rightarrow> False | c # _ \<Rightarrow> P c) then [] else [p])"

subsection \<open>Writing patterns\<close>

definition Plus :: "rx \<Rightarrow> rx" where "Plus r = Cat r (Many r)"
definition Opt :: "rx \<Rightarrow> rx" where "Opt r = Alt r Eps"
definition AtLeast :: "nat \<Rightarrow> rx \<Rightarrow> rx" where "AtLeast n r = Cat (Rep n 0 r) (Many r)"

fun Alts :: "rx list \<Rightarrow> rx" where
  "Alts [] = One (\<lambda>c. False)"
| "Alts [r] = r"
| "Alts (r # rs) = Alt r (Alts rs)"

fun Cats :: "rx list \<Rightarrow> rx" where
  "Cats [] = Eps"
| "Cats [r] = r"
| "Cats (r # rs) = Cat r (Cats rs)"

text \<open>A literal, and a literal without regard to case.\<close>

definition Lit :: "string \<Rightarrow> rx" where "Lit s = Cats (map (\<lambda>c. One (\<lambda>x. x = c)) s)"
definition LitI :: "string \<Rightarrow> rx" where "LitI s = Cats (map (\<lambda>c. One (\<lambda>x. lower_char x = lower_char c)) s)"


subsection \<open>Searching and replacing\<close>

definition consumed :: "pos \<Rightarrow> pos \<Rightarrow> string" where
  "consumed p q = take (length (snd p) - length (snd q)) (snd p)"

fun next_pos :: "pos \<Rightarrow> pos" where
  "next_pos (b, c # s) = (Some c, s)"
| "next_pos (b, []) = (b, [])"

fun search_from :: "rx \<Rightarrow> char option \<Rightarrow> string \<Rightarrow> bool" where
  "search_from r b [] = (ends r (b, []) \<noteq> [])"
| "search_from r b (c # s) = (ends r (b, c # s) \<noteq> [] \<or> search_from r (Some c) s)"

abbreviation re_search :: "rx \<Rightarrow> string \<Rightarrow> bool" where
  "re_search r s \<equiv> search_from r None s"

lemma next_shorter: "snd p \<noteq> [] \<Longrightarrow> length (snd (next_pos p)) < length (snd p)"
  by (cases p rule: next_pos.cases) auto

text \<open>
  A substitution: the match of \<open>keep\<close> followed by \<open>gone\<close> is replaced by the text \<open>keep\<close> matched, followed
  by what \<open>repl\<close> makes of the text \<open>gone\<close> matched. The patterns of the SDK match no empty text.
\<close>

definition match_at :: "rx \<Rightarrow> rx \<Rightarrow> pos \<Rightarrow> (pos \<times> pos) option" where
  "match_at keep gone p =
     (case concat (map (\<lambda>q. map (Pair q) (ends gone q)) (ends keep p)) of [] \<Rightarrow> None | m # _ \<Rightarrow> Some m)"

function sub_from :: "rx \<Rightarrow> rx \<Rightarrow> (string \<Rightarrow> string) \<Rightarrow> pos \<Rightarrow> string" where
  "sub_from keep gone repl p =
     (case match_at keep gone p of
        Some (q, e) \<Rightarrow>
          if length (snd e) < length (snd p) then consumed p q @ repl (consumed q e) @ sub_from keep gone repl e
          else (if snd p = [] then [] else hd (snd p) # sub_from keep gone repl (next_pos p))
      | None \<Rightarrow> (if snd p = [] then [] else hd (snd p) # sub_from keep gone repl (next_pos p)))"
  by pat_completeness auto
termination
  by (relation "measure (\<lambda>(keep, gone, repl, p). length (snd p))") (simp_all add: next_shorter)

declare sub_from.simps [simp del]

definition re_sub :: "rx \<Rightarrow> rx \<Rightarrow> (string \<Rightarrow> string) \<Rightarrow> string \<Rightarrow> string" where
  "re_sub keep gone repl s = sub_from keep gone repl (None, s)"

subsection \<open>Matches move forward\<close>

text \<open>\<open>q\<close> is \<open>p\<close> or lies further on in the text.\<close>

definition advances :: "pos \<Rightarrow> pos \<Rightarrow> bool" where
  "advances p q \<longleftrightarrow> (\<exists>t. snd p = t @ snd q \<and> fst q = (if t = [] then fst p else Some (last t)))"

lemma advances_refl [simp]: "advances p p"
  by (simp add: advances_def)

lemma advances_trans: "advances p q \<Longrightarrow> advances q r \<Longrightarrow> advances p r"
  unfolding advances_def by (metis append.assoc append_Nil append_Nil2 append_is_Nil_conv last_append)

lemma advances_length: "advances p q \<Longrightarrow> length (snd q) \<le> length (snd p)"
  by (auto simp: advances_def)

lemma advances_consumed: "advances p q \<Longrightarrow> snd p = consumed p q @ snd q"
  by (auto simp: advances_def consumed_def)

definition forward_only :: "(pos \<Rightarrow> pos list) \<Rightarrow> bool" where
  "forward_only f \<longleftrightarrow> (\<forall>p. list_all (advances p) (f p))"

lemma forward_onlyD: "forward_only f \<Longrightarrow> q \<in> set (f p) \<Longrightarrow> advances p q"
  by (simp add: forward_only_def list_all_iff del: split_paired_All)

lemma many_ends_advances: "q \<in> set (many_ends n f p) \<Longrightarrow> forward_only f \<Longrightarrow> advances p q"
proof (induction n f p rule: many_ends.induct)
  case (2 n f p)
  then show ?case by (force dest: forward_onlyD intro: advances_trans simp del: split_paired_Ex split_paired_All)
qed simp

lemma few_ends_advances: "q \<in> set (few_ends n f p) \<Longrightarrow> forward_only f \<Longrightarrow> advances p q"
proof (induction n f p rule: few_ends.induct)
  case (2 n f p)
  then show ?case by (force dest: forward_onlyD intro: advances_trans simp del: split_paired_Ex split_paired_All)
qed simp

lemma times_ends_advances: "q \<in> set (times_ends n f p) \<Longrightarrow> forward_only f \<Longrightarrow> advances p q"
proof (induction n f p rule: times_ends.induct)
  case (2 n f p)
  then show ?case by (force dest: forward_onlyD intro: advances_trans simp del: split_paired_Ex split_paired_All)
qed simp

lemma one_end_advances: "q \<in> set (one_end P p) \<Longrightarrow> advances p q"
  by (induction P p rule: one_end.induct) (auto simp: advances_def split: if_splits)

lemma ends_forward: "forward_only (ends r)"
proof (induction r)
  case (Cat r1 r2)
  then show ?case unfolding forward_only_def list_all_iff
    by (fastforce intro: advances_trans simp del: split_paired_All)
next
  case (Rep m k r)
  then show ?case unfolding forward_only_def [of "ends (Rep m k r)"] list_all_iff
    by (auto intro: advances_trans [OF times_ends_advances many_ends_advances])
qed (auto simp: forward_only_def list_all_iff intro: one_end_advances many_ends_advances few_ends_advances)

lemma ends_advance: "q \<in> set (ends r p) \<Longrightarrow> advances p q"
  using ends_forward by (rule forward_onlyD)

lemma match_at_Some:
  assumes "match_at keep gone p = Some (q, e)"
  shows "q \<in> set (ends keep p)" "e \<in> set (ends gone q)"
proof -
  have "(q, e) \<in> set (concat (map (\<lambda>q. map (Pair q) (ends gone q)) (ends keep p)))"
    using assms by (auto simp: match_at_def simp del: set_concat split: list.splits)
  then show "q \<in> set (ends keep p)" "e \<in> set (ends gone q)" by auto
qed

lemma match_at_advances:
  assumes "match_at keep gone p = Some (q, e)"
  shows "advances p q" "advances q e"
  using match_at_Some [OF assms] ends_advance by blast+

lemma match_at_None: "match_at keep gone p = None \<longleftrightarrow> ends (Cat keep gone) p = []"
proof -
  have "concat (map (\<lambda>q. map (Pair q) (ends gone q)) qs) = [] \<longleftrightarrow> concat (map (ends gone) qs) = []" for qs
    by (induction qs) auto
  moreover have "match_at keep gone p = None \<longleftrightarrow> concat (map (\<lambda>q. map (Pair q) (ends gone q)) (ends keep p)) = []"
    unfolding match_at_def by (simp only: list.case_distrib [of "\<lambda>m. m = None"] split: list.split) simp
  ultimately show ?thesis by simp
qed

text \<open>A text without a match stays as it is.\<close>

lemma sub_from_no_match:
  "\<not> search_from (Cat keep gone) b s \<Longrightarrow> sub_from keep gone repl (b, s) = s"
proof (induction s arbitrary: b)
  case Nil
  then have "match_at keep gone (b, []) = None" by (simp only: match_at_None search_from.simps not_not)
  then show ?case by (subst sub_from.simps) simp
next
  case (Cons c s)
  then have "match_at keep gone (b, c # s) = None" by (simp only: match_at_None search_from.simps de_Morgan_disj not_not)
  with Cons show ?case by (subst sub_from.simps) simp
qed

lemma sub_no_match: "\<not> re_search (Cat keep gone) s \<Longrightarrow> re_sub keep gone repl s = s"
  by (simp add: re_sub_def sub_from_no_match)

subsection \<open>Patterns that need a character\<close>

text \<open>Every match of the pattern has a character with \<open>P\<close>.\<close>

primrec needs :: "(char \<Rightarrow> bool) \<Rightarrow> rx \<Rightarrow> bool" where
  "needs P Eps = False"
| "needs P (One Q) = (\<forall>c. Q c \<longrightarrow> P c)"
| "needs P (Cat r q) = (needs P r \<or> needs P q)"
| "needs P (Alt r q) = (needs P r \<and> needs P q)"
| "needs P (Many r) = False"
| "needs P (Few r) = False"
| "needs P (Rep m k r) = (m \<noteq> 0 \<and> needs P r)"
| "needs P Boundary = False"
| "needs P (NotBehind Q) = False"
| "needs P (NotAhead Q) = False"

abbreviation lacks :: "(char \<Rightarrow> bool) \<Rightarrow> string \<Rightarrow> bool" where
  "lacks P s \<equiv> \<forall>c \<in> set s. \<not> P c"

lemma advances_lacks: "advances p q \<Longrightarrow> lacks P (snd p) \<Longrightarrow> lacks P (snd q)"
  by (auto simp: advances_def)

lemma times_ends_Nil: "f p = [] \<Longrightarrow> m \<noteq> 0 \<Longrightarrow> times_ends m f p = []"
  by (cases m) auto

lemma needs_no_match: "needs P r \<Longrightarrow> lacks P (snd p) \<Longrightarrow> ends r p = []"
proof (induction r arbitrary: p)
  case (One Q)
  then show ?case by (cases "(Q, p)" rule: one_end.cases) auto
next
  case (Cat r1 r2)
  have "lacks P (snd q)" if "q \<in> set (ends r1 p)" for q
    using advances_lacks [OF ends_advance [OF that] Cat.prems(2)] .
  with Cat.prems have "needs P r1 \<and> ends r1 p = [] \<or> needs P r2 \<and> (\<forall>q \<in> set (ends r1 p). ends r2 q = [])"
    using Cat.IH by (metis needs.simps(3))
  then show ?case by (auto simp del: split_paired_All)
next
  case (Rep m k r)
  then show ?case by (simp add: times_ends_Nil)
qed auto

lemma needs_no_search: "needs P r \<Longrightarrow> lacks P s \<Longrightarrow> \<not> search_from r b s"
  by (induction s arbitrary: b) (simp_all add: needs_no_match)

lemma needs_no_sub: "needs P keep \<or> needs P gone \<Longrightarrow> lacks P s \<Longrightarrow> re_sub keep gone repl s = s"
  by (rule sub_no_match, rule needs_no_search) auto

lemma needs_Cats: "\<exists>r \<in> set rs. needs P r \<Longrightarrow> needs P (Cats rs)"
  by (induction rs rule: Cats.induct) auto

lemma lower_char_symbol: "lower_char x = c \<Longrightarrow> ord_of c < 65 \<Longrightarrow> x = c"
  by (auto simp: lower_char_def Let_def split: if_splits)

lemma needs_Lit: "c \<in> set s \<Longrightarrow> P c \<Longrightarrow> needs P (Lit s)"
  unfolding Lit_def by (rule needs_Cats) auto

lemma needs_LitI: "c \<in> set s \<Longrightarrow> ord_of c < 65 \<Longrightarrow> P c \<Longrightarrow> needs P (LitI s)"
  unfolding LitI_def
proof (rule needs_Cats)
  assume c: "c \<in> set s" "ord_of c < 65" "P c"
  then have l: "lower_char c = c" by (simp add: lower_char_def)
  have n: "needs P (One (\<lambda>x. lower_char x = lower_char c))"
    unfolding needs.simps l by (intro allI impI) (drule lower_char_symbol [OF _ c(2)], simp only: c(3))
  show "\<exists>r \<in> set (map (\<lambda>c. One (\<lambda>x. lower_char x = lower_char c)) s). needs P r"
    unfolding set_map by (rule bexI, rule n, rule imageI, rule c(1))
qed

end
