(* ===== verification/Redaction.thy ===== *)
theory Redaction
  imports Regex Json Evidence_Wire Capture_Policy
begin

text \<open>
  \<open>redaction.py\<close>: the patterns, the scrubbing of texts and URLs, the test of sensitive keys and the bounded
  walk over telemetry. From \<open>urllib.parse\<close> the percent decoding, the reading and the writing of query
  strings and the check of bracketed hosts are the fields of \<open>urllib\<close>; \<open>urlsplit\<close> is written out.
  \<open>json.loads\<close> is the parameter \<open>loads\<close> (None is a ValueError). The order in which Python iterates a set
  of field names is the order of a list.
\<close>

definition REDACTED_VALUE :: string where "REDACTED_VALUE = ''[REDACTED]''"

definition DEFAULT_REDACT_FIELDS :: "string list" where
  "DEFAULT_REDACT_FIELDS = [''authorization'', ''cookie'', ''credit_card'', ''password'', ''secret'', ''ssn'', ''token'']"

definition MANDATORY_FIELDS :: "string list" where
  "MANDATORY_FIELDS = DEFAULT_REDACT_FIELDS @
     [''api_key'', ''apikey'', ''access_token'', ''refresh_token'', ''private_key'', ''bearer'', ''session_id'',
      ''passwd'', ''card_number'', ''cvv'', ''cvc'', ''pin'', ''expiry'', ''phone'', ''otp'', ''verification_code'']"

subsection \<open>Patterns\<close>

definition Spaces :: rx where "Spaces = Many (One is_space)"

definition HEADER_NAME :: rx where
  "HEADER_NAME = Cat Boundary (Alts [LitI ''Authorization'', LitI ''Proxy-Authorization'', LitI ''Cookie'', LitI ''Set-Cookie''])"

definition HEADER_REST :: rx where
  "HEADER_REST = Cats [Spaces, Lit '':'', Spaces, Many (One (\<lambda>c. c \<noteq> CHR 0x0D \<and> c \<noteq> CHR 0x0A))]"

definition BEARER_NAME :: rx where "BEARER_NAME = Cat Boundary (Alts [LitI ''Bearer'', LitI ''Basic''])"

definition BEARER_REST :: rx where
  "BEARER_REST = Cat (Plus (One is_space)) (AtLeast 6 (One (\<lambda>c. is_alnum c \<or> c \<in> set ''._~+/-'')))"

definition TOKEN :: rx where
  "TOKEN = Cats [Boundary, Lit ''dbundle_'', Alts [Lit ''proj'', Lit ''mem'', Lit ''probe'', Lit ''agent''], Lit ''_'',
     Plus (One (\<lambda>c. is_alnum c \<or> c = CHR ''_'' \<or> c = CHR ''-'')), Boundary]"

definition KEY_KIND :: rx where
  "KEY_KIND = Cat (Opt (Alts [LitI ''RSA '', LitI ''EC '', LitI ''OPENSSH ''])) (LitI ''PRIVATE KEY-----'')"

definition PEM_START :: rx where "PEM_START = Cat (LitI ''-----BEGIN '') KEY_KIND"

definition PEM :: rx where
  "PEM = Cats [PEM_START, Few (One (\<lambda>c. True)), LitI ''-----END '', KEY_KIND]"

definition card_border :: "char \<Rightarrow> bool" where
  "card_border c \<longleftrightarrow> is_alnum c \<or> c = CHR ''_'' \<or> c = CHR ''-''"

definition CARD :: rx where
  "CARD = Cats [NotBehind card_border,
     Rep 12 6 (Cat (One is_digit) (Opt (One (\<lambda>c. c = CHR '' '' \<or> c = CHR ''-'')))), One is_digit, NotAhead card_border]"

definition URL :: rx where
  "URL = Cats [Boundary, LitI ''http'', Opt (LitI ''s''), LitI ''://'',
     Plus (One (\<lambda>c. \<not> is_space c \<and> c \<noteq> CHR ''<'' \<and> c \<noteq> CHR ''>'' \<and> c \<noteq> CHR 0x22 \<and> c \<noteq> CHR 0x27))]"

definition Quote :: "char \<Rightarrow> bool" where "Quote c \<longleftrightarrow> c = CHR 0x22 \<or> c = CHR 0x27"

definition separator :: rx where
  "separator = Cats [Opt (One Quote), Spaces, One (\<lambda>c. c = CHR '':'' \<or> c = CHR ''=''), Spaces]"

definition assigned :: rx where
  "assigned = Alts
     [Cats [One (\<lambda>c. c = CHR 0x22), Many (One (\<lambda>c. c \<noteq> CHR 0x22)), One (\<lambda>c. c = CHR 0x22)],
      Cats [One (\<lambda>c. c = CHR 0x27), Many (One (\<lambda>c. c \<noteq> CHR 0x27)), One (\<lambda>c. c = CHR 0x27)],
      Plus (One (\<lambda>c. \<not> is_space c \<and> c \<notin> set ''&,;''))]"

definition LABELS :: "string list" where
  "LABELS = rev (sort_key length (MANDATORY_FIELDS @
     [''client_secret'', ''x_api_key'', ''accessToken'', ''refreshToken'', ''privateKey'', ''clientSecret'']))"

definition label_of :: "string list \<Rightarrow> rx" where
  "label_of names = Cats [Boundary, Alts (map LitI names), Boundary, separator]"

definition ENCODED_LABEL :: rx where
  "ENCODED_LABEL = Cats [Alts (map LitI [''password'', ''token'', ''secret'', ''authorization'', ''cookie'']), Lit ''%3'',
     Alts [LitI ''a'', LitI ''d'']]"

definition JSON_LABEL :: rx where
  "JSON_LABEL = Cats [Alts (map LitI [''password'', ''token'', ''secret'', ''authorization'', ''cookie'']), Opt (One Quote),
     Spaces, One (\<lambda>c. c = CHR '':'' \<or> c = CHR ''='')]"

subsection \<open>Sensitive keys\<close>

definition lower_or_digit :: "char \<Rightarrow> bool" where
  "lower_or_digit c \<longleftrightarrow> is_digit c \<or> (97 \<le> ord_of c \<and> ord_of c \<le> 122)"

definition upper_ascii :: "char \<Rightarrow> bool" where
  "upper_ascii c \<longleftrightarrow> 65 \<le> ord_of c \<and> ord_of c \<le> 90"

lemma shorter_dropWhile: "t \<noteq> [] \<Longrightarrow> P (hd t) \<Longrightarrow> length (dropWhile P t) < length t"
  by (cases t) (simp_all add: length_dropWhile_le le_imp_less_Suc)

text \<open>The non-empty pieces between the runs of other characters.\<close>

function segments_of :: "string \<Rightarrow> string list" where
  "segments_of s =
     (let t = dropWhile (\<lambda>c. \<not> lower_or_digit c) s in
      if t = [] then [] else takeWhile lower_or_digit t # segments_of (dropWhile lower_or_digit t))"
  by pat_completeness auto
termination
proof (relation "measure length", simp, goal_cases)
  case (1 s t)
  then have "lower_or_digit (hd t)" by (metis hd_dropWhile)
  with 1(2) have "length (dropWhile lower_or_digit t) < length t" by (rule shorter_dropWhile)
  also have "\<dots> \<le> length s" using 1 by (simp add: length_dropWhile_le)
  finally show ?case by simp
qed

declare segments_of.simps [simp del]

fun run_found :: "string list \<Rightarrow> string \<Rightarrow> string list \<Rightarrow> bool" where
  "run_found canonical combined [] = False"
| "run_found canonical combined (g # gs) = (combined @ g \<in> set canonical \<or> run_found canonical (combined @ g) gs)"

fun any_run :: "string list \<Rightarrow> string list \<Rightarrow> bool" where
  "any_run canonical [] = False"
| "any_run canonical (g # gs) = (run_found canonical [] (g # gs) \<or> any_run canonical gs)"

definition camel_split :: "string \<Rightarrow> string" where
  "camel_split s = re_sub (One lower_or_digit) (One upper_ascii) (\<lambda>t. CHR ''_'' # t) s"

definition sensitive_key :: "string \<Rightarrow> string list \<Rightarrow> bool" where
  "sensitive_key key names =
     any_run (map (\<lambda>f. filter lower_or_digit (str_lower f)) names)
       (segments_of (str_lower (camel_split (str_strip key))))"

subsection \<open>Card numbers\<close>

fun luhn_sum :: "nat \<Rightarrow> nat list \<Rightarrow> nat" where
  "luhn_sum i [] = 0"
| "luhn_sum i (d # ds) =
     (if odd i then (if 9 < 2 * d then 2 * d - 9 else 2 * d) else d) + luhn_sum (Suc i) ds"

definition luhn :: "string \<Rightarrow> bool" where
  "luhn candidate =
     (let digits = filter is_digit candidate in
      13 \<le> length digits \<and> length digits \<le> 19 \<and> card (set digits) \<noteq> 1 \<and>
      luhn_sum 0 (map (\<lambda>c. ord_of c - 48) (rev digits)) mod 10 = 0)"

subsection \<open>Scrubbing\<close>

record urllib =
  lib_unquote :: "string \<Rightarrow> string option"
  lib_parse_qsl :: "string \<Rightarrow> (string \<times> string) list"
  lib_urlencode :: "(string \<times> string) list \<Rightarrow> string"
  lib_bracketed :: "string \<Rightarrow> bool"

definition scrub_cards :: "string \<Rightarrow> string" where
  "scrub_cards t = re_sub Eps CARD (\<lambda>m. if luhn m then REDACTED_VALUE else m) t"

text \<open>Every pattern of \<open>_scrub_text\<close> but the URLs, on a text that needs no decoding.\<close>

definition scrub_patterns :: "string list \<Rightarrow> string \<Rightarrow> string" where
  "scrub_patterns extra t =
     (let t = re_sub Eps PEM (\<lambda>m. REDACTED_VALUE) t;
          t = re_sub HEADER_NAME HEADER_REST (\<lambda>m. '': '' @ REDACTED_VALUE) t;
          t = re_sub BEARER_NAME BEARER_REST (\<lambda>m. '' '' @ REDACTED_VALUE) t;
          t = re_sub Eps TOKEN (\<lambda>m. REDACTED_VALUE) t;
          t = re_sub (label_of LABELS) assigned (\<lambda>m. REDACTED_VALUE) t;
          t = fold (\<lambda>field. re_sub (label_of [field]) assigned (\<lambda>m. REDACTED_VALUE)) extra t
      in scrub_cards t)"

text \<open>The text to scrub: None when all of it is to be redacted.\<close>

definition decoded_text :: "urllib \<Rightarrow> string \<Rightarrow> string option" where
  "decoded_text lib t =
     (if re_search PEM_START t \<and> \<not> re_search PEM t then None
      else if re_search ENCODED_LABEL t then lib_unquote lib t
      else Some t)"

text \<open>\<open>_scrub_text(value, extra, False)\<close>.\<close>

definition scrub_plain :: "urllib \<Rightarrow> string list \<Rightarrow> string \<Rightarrow> string" where
  "scrub_plain lib extra t = (case decoded_text lib t of None \<Rightarrow> REDACTED_VALUE | Some u \<Rightarrow> scrub_patterns extra u)"

text \<open>\<open>urlsplit\<close>: scheme, authority, path and query. None is a ValueError.\<close>

definition urlsplit :: "urllib \<Rightarrow> string \<Rightarrow> (string \<times> string \<times> string \<times> string) option" where
  "urlsplit lib raw =
     (let s = filter (\<lambda>c. c \<notin> {CHR 0x09, CHR 0x0A, CHR 0x0D}) (dropWhile (\<lambda>c. ord_of c \<le> 32) raw);
          (scheme, rest) = split_scheme s;
          netloc = (if starts_with ''//'' rest then takeWhile (\<lambda>c. c \<notin> set ''/?#'') (drop 2 rest) else []);
          rest = (if starts_with ''//'' rest then drop (length netloc + 2) rest else rest);
          (path, _, query) = partition_at CHR ''?'' (fst (partition_at CHR ''#'' rest))
      in if (CHR ''['' \<in> set netloc) \<noteq> (CHR '']'' \<in> set netloc) \<or> (CHR ''['' \<in> set netloc \<and> \<not> lib_bracketed lib netloc)
         then None else Some (scheme, netloc, path, query))"

definition scrub_url :: "urllib \<Rightarrow> string \<Rightarrow> string list \<Rightarrow> string" where
  "scrub_url lib raw names =
     (case urlsplit lib raw of
        None \<Rightarrow> REDACTED_VALUE
      | Some (scheme, netloc, path, query) \<Rightarrow>
          (case split_authority (lib_bracketed lib) netloc of
             None \<Rightarrow> REDACTED_VALUE
           | Some a \<Rightarrow>
               if scheme = [] \<or> hostname a = [] then REDACTED_VALUE
               else
                 let host = snd (snd (rpartition_at CHR ''@'' netloc));
                     authority = (if username a \<noteq> [] \<or> password a \<noteq> [] then ''REDACTED@'' @ host else host);
                     pairs = filter (\<lambda>(key, value). length key \<le> 128 \<and> scrub_plain lib names key = key)
                       (lib_parse_qsl lib query);
                     query' = lib_urlencode lib (map (\<lambda>(key, value). (key,
                       if sensitive_key key names \<or> scrub_plain lib names value \<noteq> value then REDACTED_VALUE else value)) pairs);
                     path' = (if path = [] then ''/'' else path)
                 in str_lower scheme @ ''://'' @ authority @ (if hd path' = CHR ''/'' then path' else CHR ''/'' # path')
                    @ (if query' = [] then [] else CHR ''?'' # query')))"

definition all_fields :: "string list \<Rightarrow> string list" where
  "all_fields extra = MANDATORY_FIELDS @ filter (\<lambda>f. f \<notin> set MANDATORY_FIELDS) extra"

definition replace_url :: "urllib \<Rightarrow> string list \<Rightarrow> string \<Rightarrow> string" where
  "replace_url lib extra raw =
     (let trailing = rev (takeWhile (\<lambda>c. c \<in> set '').,;'') (rev raw))
      in scrub_url lib (take (length raw - length trailing) raw) (all_fields extra) @ trailing)"

definition scrub_text :: "urllib \<Rightarrow> string list \<Rightarrow> string \<Rightarrow> string" where
  "scrub_text lib extra t =
     (case decoded_text lib t of
        None \<Rightarrow> REDACTED_VALUE
      | Some u \<Rightarrow> re_sub Eps URL (replace_url lib extra) (scrub_patterns extra u))"

subsection \<open>The bounded walk\<close>

datatype unsafe = Unsafe_input | Budget_exceeded

definition opens_json :: "string \<Rightarrow> bool" where
  "opens_json s \<longleftrightarrow> starts_with ''{'' s \<or> starts_with ''['' s"

definition plain_text :: "(string \<Rightarrow> string) \<Rightarrow> string \<Rightarrow> string" where
  "plain_text scrub s =
     (if opens_json s \<and> scrub s = s \<and> re_search JSON_LABEL s then REDACTED_VALUE else scrub s)"

definition nested_json :: "(string \<Rightarrow> pyval option) \<Rightarrow> bool \<Rightarrow> string \<Rightarrow> pyval option" where
  "nested_json loads structured s =
     (if structured \<and> opens_json s
      then (case loads s of Some v \<Rightarrow> if is_dict v \<or> is_list v then Some v else None | None \<Rightarrow> None)
      else None)"

text \<open>
  \<open>visit\<close> threads the counts of nodes and bytes. A finite value never contains itself, so the test for
  circular objects is void here.
\<close>

function visit_value ::
    "(string \<Rightarrow> string) \<Rightarrow> (string \<Rightarrow> bool) \<Rightarrow> (string \<Rightarrow> pyval option) \<Rightarrow> (rat \<Rightarrow> string) \<Rightarrow> bool \<Rightarrow> nat \<Rightarrow> pyval \<Rightarrow>
     nat \<times> nat \<Rightarrow> unsafe + pyval \<times> nat \<times> nat"
  and visit_list ::
    "(string \<Rightarrow> string) \<Rightarrow> (string \<Rightarrow> bool) \<Rightarrow> (string \<Rightarrow> pyval option) \<Rightarrow> (rat \<Rightarrow> string) \<Rightarrow> bool \<Rightarrow> nat \<Rightarrow> pyval list \<Rightarrow>
     nat \<times> nat \<Rightarrow> unsafe + pyval list \<times> nat \<times> nat"
  and visit_items ::
    "(string \<Rightarrow> string) \<Rightarrow> (string \<Rightarrow> bool) \<Rightarrow> (string \<Rightarrow> pyval option) \<Rightarrow> (rat \<Rightarrow> string) \<Rightarrow> bool \<Rightarrow> nat \<Rightarrow> pydict \<Rightarrow>
     nat \<times> nat \<Rightarrow> unsafe + pydict \<times> nat \<times> nat" where
  "visit_value scrub sens loads fr structured depth v (n, b) =
     (if 4096 < Suc n then Inl Budget_exceeded
      else if 16 < depth then Inr (PStr REDACTED_VALUE, Suc n, b)
      else case v of
          PStr s \<Rightarrow>
            if 16 * 1024 < utf8_len s then Inr (PStr REDACTED_VALUE, Suc n, b)
            else if 256 * 1024 < b + utf8_len s then Inl Budget_exceeded
            else (case nested_json loads structured s of
                Some nested \<Rightarrow>
                  (case visit_value scrub sens loads fr False 0 nested (Suc n, b + utf8_len s) of
                     Inl e \<Rightarrow> Inl e
                   | Inr (out, st) \<Rightarrow> (case json_val False True fr out of
                         None \<Rightarrow> Inl Unsafe_input | Some t \<Rightarrow> Inr (PStr t, st)))
              | None \<Rightarrow> Inr (PStr (plain_text scrub s), Suc n, b + utf8_len s))
        | PList xs \<Rightarrow>
            if 256 < length xs then Inr (PStr REDACTED_VALUE, Suc n, b)
            else map_sum id (map_prod PList id) (visit_list scrub sens loads fr structured (Suc depth) xs (Suc n, b))
        | PTuple xs \<Rightarrow>
            if 256 < length xs then Inr (PStr REDACTED_VALUE, Suc n, b)
            else map_sum id (map_prod PList id) (visit_list scrub sens loads fr structured (Suc depth) xs (Suc n, b))
        | PDict d \<Rightarrow>
            if 256 < length d then Inr (PStr REDACTED_VALUE, Suc n, b)
            else map_sum id (map_prod PDict id) (visit_items scrub sens loads fr structured (Suc depth) d (Suc n, b))
        | PObj i \<Rightarrow> Inl Unsafe_input
        | _ \<Rightarrow> Inr (v, Suc n, b))"
| "visit_list scrub sens loads fr structured depth [] st = Inr ([], st)"
| "visit_list scrub sens loads fr structured depth (v # vs) st =
     (case visit_value scrub sens loads fr structured depth v st of
        Inl e \<Rightarrow> Inl e
      | Inr (w, st) \<Rightarrow> map_sum id (map_prod (Cons w) id) (visit_list scrub sens loads fr structured depth vs st))"
| "visit_items scrub sens loads fr structured depth [] st = Inr ([], st)"
| "visit_items scrub sens loads fr structured depth ((k, v) # d) (n, b) =
     (case k of
        PStr key \<Rightarrow>
          if 128 < length key then visit_items scrub sens loads fr structured depth d (n, b)
          else if 256 * 1024 < b + utf8_len key then Inl Budget_exceeded
          else if scrub key \<noteq> key then visit_items scrub sens loads fr structured depth d (n, b + utf8_len key)
          else (case (if sens key then Inr (PStr REDACTED_VALUE, n, b + utf8_len key)
                      else visit_value scrub sens loads fr structured depth v (n, b + utf8_len key)) of
              Inl e \<Rightarrow> Inl e
            | Inr (w, st) \<Rightarrow> map_sum id (map_prod (Cons (k, w)) id)
                (visit_items scrub sens loads fr structured depth d st))
      | _ \<Rightarrow> Inl Unsafe_input)"
  by pat_completeness auto

termination
  by (relation "inv_image (less_than <*lex*> less_than)
      (\<lambda>x. case x of
         Inl (_, _, _, _, structured, _, v, _) \<Rightarrow> (if structured then 1 else 0, 2 * size v)
       | Inr (Inl (_, _, _, _, structured, _, vs, _)) \<Rightarrow> (if structured then 1 else 0, Suc (2 * size_list size vs))
       | Inr (Inr (_, _, _, _, structured, _, d, _)) \<Rightarrow>
           (if structured then 1 else 0 :: nat, Suc (2 * size_list (size_prod size size) d)))")
    (auto simp: nested_json_def split: if_splits option.splits)

declare visit_value.simps [simp del]

definition sanitize_telemetry ::
  "urllib \<Rightarrow> (string \<Rightarrow> pyval option) \<Rightarrow> (rat \<Rightarrow> string) \<Rightarrow> string list \<Rightarrow> pyval \<Rightarrow> unsafe + pyval" where
  "sanitize_telemetry lib loads fr extra v =
     (if 128 < length extra \<or> list_ex (\<lambda>f. f = [] \<or> 64 < length f) extra then Inl Unsafe_input
      else (case visit_value (scrub_text lib extra) (\<lambda>key. sensitive_key key (all_fields extra)) loads fr True 0 v (0, 0) of
          Inl e \<Rightarrow> Inl e
        | Inr (out, _) \<Rightarrow> (case json_bytes False True fr out of
              None \<Rightarrow> Inl Unsafe_input
            | Some n \<Rightarrow> if 256 * 1024 < n then Inl Budget_exceeded else Inr out)))"

fun safe_texts :: "(pyval \<Rightarrow> unsafe + pyval) \<Rightarrow> pyval list \<Rightarrow> unsafe + bool" where
  "safe_texts sanitize [] = Inr True"
| "safe_texts sanitize (PNone # vs) = safe_texts sanitize vs"
| "safe_texts sanitize (PStr s # vs) =
     (case sanitize (PStr s) of
        Inl e \<Rightarrow> Inl e
      | Inr w \<Rightarrow> if w = PStr s then safe_texts sanitize vs else Inr False)"
| "safe_texts sanitize (_ # vs) = Inr False"

definition has_safe_event_identity :: "(pyval \<Rightarrow> unsafe + pyval) \<Rightarrow> pydict \<Rightarrow> unsafe + bool" where
  "has_safe_event_identity sanitize event =
     (case py_or (dgetn event ''correlation'') (PDict []) of
        PDict correlation \<Rightarrow>
          if 8 < length correlation then Inr False
          else safe_texts sanitize (map (dgetn event) [''schema_version'', ''sdk_name'', ''sdk_version''] @ map snd correlation)
      | _ \<Rightarrow> Inr False)"

text \<open>\<open>redact_value\<close>; \<open>key.lower()\<close> of a key that is no string raises.\<close>

fun redact_value :: "string set \<Rightarrow> pyval \<Rightarrow> pyval option"
  and redact_list :: "string set \<Rightarrow> pyval list \<Rightarrow> pyval list option"
  and redact_items :: "string set \<Rightarrow> pydict \<Rightarrow> pydict option" where
  "redact_value names (PDict d) = map_option PDict (redact_items names d)"
| "redact_value names (PList xs) = map_option PList (redact_list names xs)"
| "redact_value names (PTuple xs) = map_option PList (redact_list names xs)"
| "redact_value names v = Some v"
| "redact_list names [] = Some []"
| "redact_list names (v # vs) =
     (case redact_value names v of None \<Rightarrow> None | Some w \<Rightarrow> map_option (Cons w) (redact_list names vs))"
| "redact_items names [] = Some []"
| "redact_items names ((k, v) # d) =
     (case k of
        PStr key \<Rightarrow>
          (case (if str_lower key \<in> names then Some (PStr REDACTED_VALUE) else redact_value names v) of
             None \<Rightarrow> None | Some w \<Rightarrow> map_option (Cons (k, w)) (redact_items names d))
      | _ \<Rightarrow> None)"

end
