(* ===== verification/Canonical_Event.thy ===== *)
theory Canonical_Event
  imports Evidence_Wire
begin

text \<open>
  \<open>canonical_event.py\<close>: the budgeted copy of a hook's result and the interpreter of the event schema. The
  schema is a value (the code reads it from a file), \<open>pat\<close> compiles a pattern to its search (None is an
  error of \<open>re.compile\<close>). The bounds a schema gives are finite numbers.
\<close>

subsection \<open>Owned JSON\<close>

definition MAX_OWNED_BYTES :: int where "MAX_OWNED_BYTES = 8 * 1024 * 1024"

datatype owned = Owned pyval | Invalid | Exhausted

datatype own_stop = Budget_out | Not_native

text \<open>The inner \<open>copy\<close>; its state is the remaining bytes and nodes.\<close>

definition own_text :: "string \<Rightarrow> int \<times> int \<Rightarrow> own_stop + int \<times> int" where
  "own_text s st =
     (let (bytes, left) = st in
      if bytes < int (length s) \<or> bytes - (int (utf8_len s) + 2) < 0 then Inl Budget_out
      else Inr (bytes - (int (utf8_len s) + 2), left))"

definition finite_number :: "pyval \<Rightarrow> bool" where
  "finite_number v \<longleftrightarrow> (case num_of v of None \<Rightarrow> False | Some q \<Rightarrow> - of_int max_double \<le> q \<and> q \<le> of_int max_double)"

function own_value :: "nat \<Rightarrow> pyval \<Rightarrow> int \<times> int \<Rightarrow> own_stop + pyval \<times> int \<times> int"
  and own_list :: "nat \<Rightarrow> pyval list \<Rightarrow> int \<times> int \<Rightarrow> own_stop + pyval list \<times> int \<times> int"
  and own_items :: "nat \<Rightarrow> pydict \<Rightarrow> int \<times> int \<Rightarrow> own_stop + pydict \<times> int \<times> int" where
  "own_value depth v (bytes, left) =
     (let n = left - 1 in
      if n < 0 \<or> 16 < depth \<or> bytes < 0 then Inl Budget_out
      else case v of
          PNone \<Rightarrow> Inr (v, bytes - 5, n)
        | PBool x \<Rightarrow> Inr (v, bytes - 5, n)
        | PStr s \<Rightarrow> map_sum id (Pair v) (own_text s (bytes, n))
        | PList xs \<Rightarrow>
            if n < int (length xs) then Inl Budget_out
            else map_sum id (map_prod PList id) (own_list (Suc depth) xs (bytes - (2 + int (length xs)), n))
        | PDict d \<Rightarrow>
            if n < 2 * int (length d) then Inl Budget_out
            else map_sum id (map_prod PDict id) (own_items (Suc depth) d (bytes - (2 + 2 * int (length d)), n))
        | _ \<Rightarrow> if finite_number v then Inr (v, bytes - 24, n) else Inl Not_native)"
| "own_list depth [] st = Inr ([], st)"
| "own_list depth (v # vs) st =
     (case own_value depth v st of
        Inl e \<Rightarrow> Inl e | Inr (w, st) \<Rightarrow> map_sum id (map_prod (Cons w) id) (own_list depth vs st))"
| "own_items depth [] st = Inr ([], st)"
| "own_items depth ((k, v) # d) (bytes, left) =
     (case k of
        PStr s \<Rightarrow>
          (if left - 1 < 0 \<or> 16 < depth \<or> bytes < 0 then Inl Budget_out
           else case own_text s (bytes, left - 1) of
             Inl e \<Rightarrow> Inl e
           | Inr st \<Rightarrow>
               (case own_value depth v st of
                  Inl e \<Rightarrow> Inl e
                | Inr (w, st) \<Rightarrow> map_sum id (map_prod (Cons (k, w)) id) (own_items depth d st)))
      | _ \<Rightarrow> Inl Not_native)"
  by pat_completeness auto
termination
  by (relation "measure (\<lambda>x. case x of Inl (_, v, _) \<Rightarrow> 2 * size v | Inr (Inl (_, vs, _)) \<Rightarrow> Suc (2 * size_list size vs)
      | Inr (Inr (_, d, _)) \<Rightarrow> Suc (2 * size_list (size_prod size size) d))") auto

declare own_value.simps [simp del]

definition own_json :: "pyval \<Rightarrow> owned" where
  "own_json v =
     (case own_value 0 v (MAX_OWNED_BYTES, 4096) of
        Inr (w, _) \<Rightarrow> Owned w | Inl Budget_out \<Rightarrow> Exhausted | Inl Not_native \<Rightarrow> Invalid)"

subsection \<open>References and compilation\<close>

text \<open>\<open>key.replace("~1", "/").replace("~0", "~")\<close>.\<close>

fun replace_two :: "char \<Rightarrow> char \<Rightarrow> char \<Rightarrow> string \<Rightarrow> string" where
  "replace_two a b c (x # y # s) = (if x = a \<and> y = b then c # replace_two a b c s else x # replace_two a b c (y # s))"
| "replace_two a b c s = s"

definition pointer_key :: "string \<Rightarrow> string" where
  "pointer_key part = replace_two CHR ''~'' CHR ''0'' CHR ''~'' (replace_two CHR ''~'' CHR ''1'' CHR ''/'' part)"

function split_slash :: "string \<Rightarrow> string list" where
  "split_slash s =
     (let (a, found, b) = partition_at CHR ''/'' s in if found then a # split_slash b else [a])"
  by pat_completeness auto
termination by (relation "measure length") (auto simp: partition_at_def length_dropWhile_le diff_less
    intro!: less_le_trans [OF diff_less] dest: split_list)

declare split_slash.simps [simp del]

text \<open>\<open>node[int(key)]\<close> for a list and \<open>node[key]\<close> for a dictionary; everything else raises.\<close>

definition step_into :: "pyval \<Rightarrow> string \<Rightarrow> pyval option" where
  "step_into node key =
     (case node of
        PList xs \<Rightarrow>
          if key \<noteq> [] \<and> list_all is_digit key \<and> nat_of_digits key < length xs then Some (xs ! nat_of_digits key) else None
      | PDict d \<Rightarrow> dget d key
      | _ \<Rightarrow> None)"

definition resolve :: "pyval \<Rightarrow> string \<Rightarrow> pyval option" where
  "resolve schema ref =
     (if \<not> starts_with ''#/'' ref then None
      else foldl (\<lambda>node part. Option.bind node (\<lambda>n. step_into n (pointer_key part))) (Some schema) (split_slash (drop 2 ref)))"

definition KEYWORDS :: "string list" where
  "KEYWORDS = [''$schema'', ''$id'', ''$comment'', ''$ref'', ''type'', ''anyOf'', ''const'', ''enum'', ''properties'',
     ''required'', ''additionalProperties'', ''items'', ''minimum'', ''maximum'', ''exclusiveMinimum'', ''minLength'',
     ''maxLength'', ''minItems'', ''maxItems'', ''format'', ''pattern'']"

definition TYPES :: "string list" where
  "TYPES = [''null'', ''boolean'', ''number'', ''integer'', ''string'', ''array'', ''object'']"

definition kinds_of :: "pyval \<Rightarrow> pyval list option" where
  "kinds_of v = (case v of PStr s \<Rightarrow> Some [v] | PList ks \<Rightarrow> Some ks | _ \<Rightarrow> None)"

definition node_ok :: "(string \<Rightarrow> (string \<Rightarrow> bool) option) \<Rightarrow> pyval \<Rightarrow> pydict \<Rightarrow> bool" where
  "node_ok pat schema d \<longleftrightarrow>
     list_all (\<lambda>k. k \<in> PStr ` set KEYWORDS) (map fst d) \<and>
     (case kinds_of (dget_or d ''type'' (PList [])) of None \<Rightarrow> False | Some ks \<Rightarrow> set ks \<subseteq> PStr ` set TYPES) \<and>
     one_of (dgetn d ''format'') [None, Some ''uuid'', Some ''date-time''] \<and>
     (case dget d ''pattern'' of None \<Rightarrow> True | Some (PStr p) \<Rightarrow> pat p \<noteq> None | Some _ \<Rightarrow> False) \<and>
     (case dget d ''$ref'' of None \<Rightarrow> True | Some (PStr r) \<Rightarrow> resolve schema r \<noteq> None | Some _ \<Rightarrow> False)"

lemma dget_size: "dget d k = Some v \<Longrightarrow> size v < size (PDict d)"
proof -
  assume "dget d k = Some v"
  then have "(PStr k, v) \<in> set d" by (rule map_of_SomeD)
  then show ?thesis by (induction d) auto
qed

lemma dict_value_size: "v \<in> snd ` set d \<Longrightarrow> size v < size (PDict d)"
  by (induction d) force+

lemma list_value_size: "v \<in> set xs \<Longrightarrow> size v < size (PList xs)"
  by (induction xs) auto

definition values_of :: "pyval \<Rightarrow> pyval list option" where
  "values_of v = (case v of PDict d \<Rightarrow> Some (map snd d) | _ \<Rightarrow> None)"

definition elements_of :: "pyval \<Rightarrow> pyval list option" where
  "elements_of v = (case v of PList xs \<Rightarrow> Some xs | _ \<Rightarrow> None)"

text \<open>The schemas directly below a node, in the order \<open>_compile\<close> visits them.\<close>

definition subschemas :: "pydict \<Rightarrow> pyval list option" where
  "subschemas d =
     (case (values_of (dget_or d ''properties'' (PDict [])), elements_of (dget_or d ''anyOf'' (PList []))) of
        (Some ps, Some cs) \<Rightarrow> Some (ps @ cs @ List.map_filter (dget d) [''items'', ''additionalProperties''])
      | _ \<Rightarrow> None)"

lemma subschemas_size:
  assumes "subschemas d = Some cs" "c \<in> set cs"
  shows "size c < size (PDict d)"
proof -
  from assms(1) obtain ps as where p: "dget_or d ''properties'' (PDict []) = PDict ps" and a: "dget_or d ''anyOf'' (PList []) = PList as"
    and cs: "cs = map snd ps @ as @ List.map_filter (dget d) [''items'', ''additionalProperties'']"
    by (auto simp: subschemas_def values_of_def elements_of_def split: option.splits pyval.splits)
  from assms(2) cs consider "c \<in> snd ` set ps" | "c \<in> set as" | k where "dget d k = Some c"
    by (auto simp: List.map_filter_def split: if_splits)
  then show ?thesis
  proof cases
    case 1
    then have "dget d ''properties'' = Some (PDict ps)" using p by (auto simp: dget_or_def split: option.splits)
    from dget_size [OF this] dict_value_size [OF 1] show ?thesis by linarith
  next
    case 2
    then have "dget d ''anyOf'' = Some (PList as)" using a by (auto simp: dget_or_def split: option.splits)
    from dget_size [OF this] list_value_size [OF 2] show ?thesis by linarith
  next
    case 3
    then show ?thesis by (rule dget_size)
  qed
qed

text \<open>\<open>_compile\<close> returns without an exception.\<close>

function compile_ok :: "(string \<Rightarrow> (string \<Rightarrow> bool) option) \<Rightarrow> pyval \<Rightarrow> pyval \<Rightarrow> bool" where
  "compile_ok pat schema (PBool b) = True"
| "compile_ok pat schema (PDict d) =
     (node_ok pat schema d \<and> (case subschemas d of None \<Rightarrow> False | Some cs \<Rightarrow> list_all (compile_ok pat schema) cs))"
| "compile_ok pat schema PNone = False"
| "compile_ok pat schema (PInt i) = False"
| "compile_ok pat schema (PFloat x) = False"
| "compile_ok pat schema (PStr s) = False"
| "compile_ok pat schema (PList xs) = False"
| "compile_ok pat schema (PTuple xs) = False"
| "compile_ok pat schema (PObj n) = False"
  by pat_completeness auto
termination by (relation "measure (\<lambda>(pat, schema, v). size v)") (auto dest: subschemas_size)

subsection \<open>Checking a value\<close>

text \<open>\<open>a and b\<close> where either may raise (None).\<close>

definition and_then :: "bool option \<Rightarrow> bool option \<Rightarrow> bool option" where
  "and_then a b = (case a of Some True \<Rightarrow> b | _ \<Rightarrow> a)"

text \<open>Python's \<open>==\<close> on JSON values (no tuples and objects): numbers and bools by value, dictionaries without order.\<close>

fun numeric :: "pyval \<Rightarrow> rat option" where
  "numeric (PBool b) = Some (if b then 1 else 0)"
| "numeric v = num_of v"

fun py_eq :: "pyval \<Rightarrow> pyval \<Rightarrow> bool"
  and py_eq_list :: "pyval list \<Rightarrow> pyval list \<Rightarrow> bool"
  and py_eq_items :: "pydict \<Rightarrow> pydict \<Rightarrow> bool" where
  "py_eq (PList xs) b = (case b of PList ys \<Rightarrow> py_eq_list xs ys | _ \<Rightarrow> False)"
| "py_eq (PDict d) b = (case b of PDict e \<Rightarrow> length d = length e \<and> py_eq_items d e | _ \<Rightarrow> False)"
| "py_eq (PStr s) b = (b = PStr s)"
| "py_eq PNone b = (b = PNone)"
| "py_eq (PBool x) b = (numeric b = Some (if x then 1 else 0))"
| "py_eq (PInt i) b = (numeric b = Some (of_int i))"
| "py_eq (PFloat x) b = (numeric (PFloat x) \<noteq> None \<and> numeric (PFloat x) = numeric b)"
| "py_eq (PTuple xs) b = False"
| "py_eq (PObj i) b = False"
| "py_eq_list [] ys = (ys = [])"
| "py_eq_list (x # xs) ys = (ys \<noteq> [] \<and> py_eq x (hd ys) \<and> py_eq_list xs (tl ys))"
| "py_eq_items [] e = True"
| "py_eq_items ((k, v) # d) e = (case map_of e k of None \<Rightarrow> False | Some w \<Rightarrow> py_eq v w \<and> py_eq_items d e)"

fun same_type :: "pyval \<Rightarrow> pyval \<Rightarrow> bool" where
  "same_type PNone PNone = True"
| "same_type (PBool a) (PBool b) = True"
| "same_type (PInt a) (PInt b) = True"
| "same_type (PFloat a) (PFloat b) = True"
| "same_type (PStr a) (PStr b) = True"
| "same_type (PList a) (PList b) = True"
| "same_type (PDict a) (PDict b) = True"
| "same_type a b = False"

text \<open>\<open>_equal\<close>.\<close>

definition json_equal :: "pyval \<Rightarrow> pyval \<Rightarrow> bool" where
  "json_equal v c \<longleftrightarrow> same_type v c \<and> py_eq v c \<or> num_of v \<noteq> None \<and> num_of v = num_of c"

text \<open>\<open>_type\<close>; \<open>math.floor\<close> of an infinity raises.\<close>

definition is_kind :: "pyval \<Rightarrow> pyval \<Rightarrow> bool option" where
  "is_kind v kind =
     (if kind = PStr ''number'' then Some (case v of PInt i \<Rightarrow> True | PFloat x \<Rightarrow> True | _ \<Rightarrow> False)
      else if kind = PStr ''integer'' then
        (case v of PInt i \<Rightarrow> Some True | PFloat (Fin q) \<Rightarrow> Some (q = of_int \<lfloor>q\<rfloor>) | PFloat _ \<Rightarrow> None | _ \<Rightarrow> Some False)
      else if kind = PStr ''null'' then Some (v = PNone)
      else if kind = PStr ''boolean'' then Some (is_bool v)
      else if kind = PStr ''string'' then Some (is_str v)
      else if kind = PStr ''array'' then Some (is_list v)
      else if kind = PStr ''object'' then Some (is_dict v)
      else None)"

fun any_kind :: "pyval \<Rightarrow> pyval list \<Rightarrow> bool option" where
  "any_kind v [] = Some False"
| "any_kind v (k # ks) = (case is_kind v k of Some False \<Rightarrow> any_kind v ks | r \<Rightarrow> r)"

text \<open>The keywords \<open>type\<close>, \<open>const\<close> and \<open>enum\<close>.\<close>

definition head_ok :: "pydict \<Rightarrow> pyval \<Rightarrow> bool option" where
  "head_ok n v =
     and_then (case dget n ''type'' of None \<Rightarrow> Some True
                 | Some t \<Rightarrow> (case t of PList ks \<Rightarrow> any_kind v ks | _ \<Rightarrow> any_kind v [t]))
     (and_then (case dget n ''const'' of None \<Rightarrow> Some True | Some c \<Rightarrow> Some (json_equal v c))
       (case dget n ''enum'' of None \<Rightarrow> Some True
          | Some (PList cs) \<Rightarrow> Some (list_ex (json_equal v) cs) | Some _ \<Rightarrow> None))"

definition bounded_by :: "pydict \<Rightarrow> string \<Rightarrow> (rat \<Rightarrow> bool) \<Rightarrow> bool option" where
  "bounded_by n key P = (case dget n key of None \<Rightarrow> Some True | Some b \<Rightarrow> map_option P (numeric b))"

text \<open>The keywords of one type of value, without those that hold schemas.\<close>

definition own_keywords_ok :: "(string \<Rightarrow> (string \<Rightarrow> bool) option) \<Rightarrow> pydict \<Rightarrow> pyval \<Rightarrow> bool option" where
  "own_keywords_ok pat n v =
     (case v of
        PDict e \<Rightarrow> (case dget_or n ''required'' (PList []) of
            PList ks \<Rightarrow> Some (list_all (\<lambda>k. k \<in> fst ` set e) ks) | _ \<Rightarrow> None)
      | PList xs \<Rightarrow> and_then (bounded_by n ''minItems'' (\<lambda>q. q \<le> of_nat (length xs)))
          (bounded_by n ''maxItems'' (\<lambda>q. of_nat (length xs) \<le> q))
      | PStr s \<Rightarrow> and_then (bounded_by n ''minLength'' (\<lambda>q. q \<le> of_nat (length s)))
          (and_then (bounded_by n ''maxLength'' (\<lambda>q. of_nat (length s) \<le> q))
          (and_then (case dget n ''pattern'' of None \<Rightarrow> Some True
             | Some (PStr p) \<Rightarrow> map_option (\<lambda>m. m s) (pat p) | Some _ \<Rightarrow> None)
          (Some ((dgetn n ''format'' = PStr ''uuid'' \<longrightarrow> uuid v False) \<and>
                 (dgetn n ''format'' = PStr ''date-time'' \<longrightarrow> timestamp v)))))
      | _ \<Rightarrow> (case num_of v of
            None \<Rightarrow> Some True
          | Some x \<Rightarrow> and_then (bounded_by n ''minimum'' (\<lambda>q. q \<le> x)) (and_then (bounded_by n ''maximum'' (\<lambda>q. x \<le> q))
              (bounded_by n ''exclusiveMinimum'' (\<lambda>q. q < x)))))"

text \<open>The pairs of a schema and a value inside \<open>v\<close> that a node asks to check.\<close>

definition parts :: "pydict \<Rightarrow> pyval \<Rightarrow> (pyval \<times> pyval) list option" where
  "parts n v =
     (case v of
        PDict e \<Rightarrow> (case dget_or n ''properties'' (PDict []) of
            PDict ps \<Rightarrow> Some (map (\<lambda>(k, child). (case map_of ps k of
              None \<Rightarrow> dget_or n ''additionalProperties'' (PBool True) | Some c \<Rightarrow> c, child)) e)
          | _ \<Rightarrow> None)
      | PList xs \<Rightarrow> Some (case dget n ''items'' of None \<Rightarrow> [] | Some c \<Rightarrow> map (Pair c) xs)
      | _ \<Rightarrow> Some [])"

datatype check_stop = Out_of_budget | Raised

text \<open>\<open>_check\<close>, the loop over \<open>anyOf\<close> and the loop over the parts of a value, with the remaining budget.\<close>

function check ::
    "pyval \<Rightarrow> (string \<Rightarrow> (string \<Rightarrow> bool) option) \<Rightarrow> nat \<Rightarrow> pyval \<Rightarrow> pyval \<Rightarrow> int \<Rightarrow> check_stop + bool \<times> int"
  and check_any ::
    "pyval \<Rightarrow> (string \<Rightarrow> (string \<Rightarrow> bool) option) \<Rightarrow> nat \<Rightarrow> pyval list \<Rightarrow> pyval \<Rightarrow> int \<Rightarrow> check_stop + bool \<times> int"
  and check_all ::
    "pyval \<Rightarrow> (string \<Rightarrow> (string \<Rightarrow> bool) option) \<Rightarrow> nat \<Rightarrow> (pyval \<times> pyval) list \<Rightarrow> int \<Rightarrow> check_stop + bool \<times> int" where
  "check schema pat depth node v budget =
     (let b = budget - 1 in
      if 64 < depth \<or> b < 0 then Inl Out_of_budget
      else case node of
          PBool t \<Rightarrow> Inr (t, b)
        | PDict n \<Rightarrow>
            (case dget n ''$ref'' of
               Some r \<Rightarrow> (case r of
                   PStr ref \<Rightarrow> (case resolve schema ref of
                       None \<Rightarrow> Inl Raised | Some target \<Rightarrow> check schema pat (Suc depth) target v b)
                 | _ \<Rightarrow> Inl Raised)
             | None \<Rightarrow>
                 (case (case dget n ''anyOf'' of
                          None \<Rightarrow> Inr (True, b)
                        | Some cs \<Rightarrow> (case elements_of cs of
                            None \<Rightarrow> Inl Raised | Some cs \<Rightarrow> check_any schema pat (Suc depth) cs v b)) of
                    Inl e \<Rightarrow> Inl e
                  | Inr (some, b) \<Rightarrow>
                      if \<not> some then Inr (False, b)
                      else (case and_then (head_ok n v) (own_keywords_ok pat n v) of
                          None \<Rightarrow> Inl Raised
                        | Some ok \<Rightarrow>
                            if \<not> ok then Inr (False, b)
                            else (case parts n v of
                                None \<Rightarrow> Inl Raised | Some ps \<Rightarrow> check_all schema pat (Suc depth) ps b))))
        | _ \<Rightarrow> Inl Raised)"
| "check_any schema pat depth [] v budget = Inr (False, budget)"
| "check_any schema pat depth (c # cs) v budget =
     (case check schema pat depth c v budget of
        Inl e \<Rightarrow> Inl e
      | Inr (r, b) \<Rightarrow> if r then Inr (True, b) else check_any schema pat depth cs v b)"
| "check_all schema pat depth [] budget = Inr (True, budget)"
| "check_all schema pat depth (p # ps) budget =
     (case check schema pat depth (fst p) (snd p) budget of
        Inl e \<Rightarrow> Inl e
      | Inr (r, b) \<Rightarrow> if r then check_all schema pat depth ps b else Inr (False, b))"
  by pat_completeness auto

termination
  by (relation "inv_image (less_than <*lex*> less_than) (\<lambda>x. case x of
        Inl (_, _, depth, _, _, _) \<Rightarrow> (65 - depth, 0)
      | Inr (Inl (_, _, depth, cs, _, _)) \<Rightarrow> (65 - depth, Suc (length cs))
      | Inr (Inr (_, _, depth, ps, _)) \<Rightarrow> (65 - depth, Suc (length ps)))") auto

declare check.simps [simp del]

text \<open>\<open>valid_owned_event\<close>: an exception other than the exhausted budget, also of loading the schema, is False.\<close>

datatype verdict = Valid_event | Invalid_event | Exhausted_event

definition valid_owned_event :: "pyval \<Rightarrow> (string \<Rightarrow> (string \<Rightarrow> bool) option) \<Rightarrow> pyval \<Rightarrow> verdict" where
  "valid_owned_event schema pat v =
     (if \<not> compile_ok pat schema schema then Invalid_event
      else (case check schema pat 0 schema v 100000 of
          Inr (r, _) \<Rightarrow> if r then Valid_event else Invalid_event
        | Inl Out_of_budget \<Rightarrow> Exhausted_event
        | Inl Raised \<Rightarrow> Invalid_event))"

end
