(* ===== verification/Canonical_Facts.thy ===== *)
theory Canonical_Facts
  imports Canonical_Event
begin

text \<open>
  The copy of a hook's result is the value itself within its budgets, and the budgeted interpreter
  agrees with a declarative reading of the schema whenever it decides.
\<close>

subsection \<open>Owned values\<close>

text \<open>The nodes \<open>copy\<close> visits, the bytes it charges, and the values it takes at a depth.\<close>

fun own_nodes :: "pyval \<Rightarrow> nat" and own_nodes_list :: "pyval list \<Rightarrow> nat" and own_nodes_items :: "pydict \<Rightarrow> nat" where
  "own_nodes (PList xs) = Suc (own_nodes_list xs)"
| "own_nodes (PDict d) = Suc (own_nodes_items d)"
| "own_nodes v = 1"
| "own_nodes_list [] = 0"
| "own_nodes_list (x # xs) = own_nodes x + own_nodes_list xs"
| "own_nodes_items [] = 0"
| "own_nodes_items ((k, v) # d) = Suc (own_nodes v + own_nodes_items d)"

fun own_cost :: "pyval \<Rightarrow> nat" and own_cost_list :: "pyval list \<Rightarrow> nat" and own_cost_items :: "pydict \<Rightarrow> nat" where
  "own_cost PNone = 5"
| "own_cost (PBool b) = 5"
| "own_cost (PStr s) = utf8_len s + 2"
| "own_cost (PList xs) = 2 + length xs + own_cost_list xs"
| "own_cost (PDict d) = 2 + 2 * length d + own_cost_items d"
| "own_cost v = 24"
| "own_cost_list [] = 0"
| "own_cost_list (x # xs) = own_cost x + own_cost_list xs"
| "own_cost_items [] = 0"
| "own_cost_items ((k, v) # d) = (case k of PStr s \<Rightarrow> utf8_len s + 2 | _ \<Rightarrow> 0) + own_cost v + own_cost_items d"

fun native_at :: "nat \<Rightarrow> pyval \<Rightarrow> bool" where
  "native_at depth PNone = (depth \<le> 16)"
| "native_at depth (PBool b) = (depth \<le> 16)"
| "native_at depth (PStr s) = (depth \<le> 16)"
| "native_at depth (PList xs) = (depth \<le> 16 \<and> (\<forall>x \<in> set xs. native_at (Suc depth) x))"
| "native_at depth (PDict d) = (depth \<le> 16 \<and> (\<forall>(k, x) \<in> set d. is_str k \<and> depth \<le> 15 \<and> native_at (Suc depth) x))"
| "native_at depth v = (depth \<le> 16 \<and> finite_number v)"

lemma own_text_Inr: "own_text s (bytes, left) = Inr st \<longleftrightarrow>
    int (length s) \<le> bytes \<and> int (utf8_len s) + 2 \<le> bytes \<and> st = (bytes - (int (utf8_len s) + 2), left)"
  by (auto simp: own_text_def)

lemma map_sum_Inr': "map_sum id f x = Inr y \<longleftrightarrow> (\<exists>z. x = Inr z \<and> y = f z)"
  by (cases x) auto

text \<open>What the copy accepts, it returns unchanged and charges exactly.\<close>

lemma own_sound:
  "own_value depth v st = Inr (w, st') \<Longrightarrow> w = v \<and> native_at depth v \<and>
     fst st' = fst st - int (own_cost v) \<and> snd st' = snd st - int (own_nodes v) \<and> 0 \<le> snd st'"
  "own_list depth vs st = Inr (ws, st') \<Longrightarrow> ws = vs \<and> (\<forall>v \<in> set vs. native_at depth v) \<and>
     fst st' = fst st - int (own_cost_list vs) \<and> snd st' = snd st - int (own_nodes_list vs) \<and> (0 \<le> snd st \<longrightarrow> 0 \<le> snd st')"
  "own_items depth d st = Inr (e, st') \<Longrightarrow> e = d \<and> (\<forall>(k, v) \<in> set d. is_str k \<and> depth \<le> 16 \<and> native_at depth v) \<and>
     fst st' = fst st - int (own_cost_items d) \<and> snd st' = snd st - int (own_nodes_items d) \<and> (0 \<le> snd st \<longrightarrow> 0 \<le> snd st')"
proof (induction depth v st and depth vs st and depth d st arbitrary: w st' and ws st' and e st'
    rule: own_value_own_list_own_items.induct)
  case (1 depth v bytes left)
  let ?n = "left - 1"
  from "1.prems" have g: "\<not> (?n < 0 \<or> 16 < depth \<or> bytes < 0)" "0 \<le> ?n" "depth \<le> 16"
    by (auto simp: own_value.simps [of depth v bytes left] Let_def split: if_splits)
  note r = "1.prems" [unfolded own_value.simps [of depth v bytes left] Let_def if_not_P [OF g(1)]]
  show ?case
  proof (cases v)
    case (PList xs)
    from r PList obtain ys where l: "\<not> ?n < int (length xs)" "w = PList ys"
      "own_list (Suc depth) xs (bytes - (2 + int (length xs)), ?n) = Inr (ys, st')"
      by (auto simp: map_sum_Inr' split: if_splits)
    from "1.IH"(1) [OF refl g(1) PList l(1,3)] l(2) PList g show ?thesis by auto
  next
    case (PDict d)
    from r PDict obtain e where l: "\<not> ?n < 2 * int (length d)" "w = PDict e"
      "own_items (Suc depth) d (bytes - (2 + 2 * int (length d)), ?n) = Inr (e, st')"
      by (auto simp: map_sum_Inr' split: if_splits)
    from "1.IH"(2) [OF refl g(1) PDict l(1,3)] l(2) PDict g show ?thesis by auto
  next
    case (PStr s)
    with r g show ?thesis by (auto simp: map_sum_Inr' own_text_Inr)
  qed (use r g in \<open>auto split: if_splits\<close>)
next
  case (3 depth v vs st)
  from "3.prems" obtain x st1 xs where s: "own_value depth v st = Inr (x, st1)" "own_list depth vs st1 = Inr (xs, st')" "ws = x # xs"
    by (auto simp: map_sum_Inr' split: sum.splits)
  from "3.IH"(1) [OF s(1)] "3.IH"(2) [OF s(1) refl s(2)] s(3) show ?case by auto
next
  case (5 depth k v d bytes left)
  from "5.prems" obtain s where k: "k = PStr s" by (cases k) auto
  from "5.prems" k obtain st1 x st2 z where g: "\<not> (left - 1 < 0 \<or> 16 < depth \<or> bytes < 0)"
    and s: "own_text s (bytes, left - 1) = Inr st1" "own_value depth v st1 = Inr (x, st2)" "own_items depth d st2 = Inr (z, st')"
      "e = (k, x) # z"
    by (auto simp: map_sum_Inr' split: sum.splits if_splits)
  from "5.IH"(1) [OF k g s(1,2)] "5.IH"(2) [OF k g s(1,2) refl s(3)] s(1,4) k g show ?case by (auto simp: own_text_Inr)
qed auto

lemma own_nodes_pos: "1 \<le> own_nodes v"
  by (cases v) auto

lemma length_own_nodes: "length vs \<le> own_nodes_list vs" "2 * length d \<le> own_nodes_items d"
proof -
  show "length vs \<le> own_nodes_list vs"
  proof (induction vs)
    case (Cons v vs)
    then show ?case using own_nodes_pos [of v] by simp
  qed simp
  show "2 * length d \<le> own_nodes_items d"
  proof (induction d)
    case (Cons x d)
    then show ?case using own_nodes_pos [of "snd x"] by (cases x) simp
  qed simp
qed

lemma own_complete:
  "native_at depth v \<Longrightarrow> int (own_nodes v) \<le> snd st \<Longrightarrow> int (own_cost v) \<le> fst st \<Longrightarrow> \<exists>st'. own_value depth v st = Inr (v, st')"
  "(\<forall>v \<in> set vs. native_at depth v) \<Longrightarrow> int (own_nodes_list vs) \<le> snd st \<Longrightarrow> int (own_cost_list vs) \<le> fst st \<Longrightarrow>
     \<exists>st'. own_list depth vs st = Inr (vs, st')"
  "(\<forall>(k, v) \<in> set d. is_str k \<and> depth \<le> 16 \<and> native_at depth v) \<Longrightarrow> int (own_nodes_items d) \<le> snd st \<Longrightarrow>
     int (own_cost_items d) \<le> fst st \<Longrightarrow> \<exists>st'. own_items depth d st = Inr (d, st')"
proof (induction depth v st and depth vs st and depth d st rule: own_value_own_list_own_items.induct)
  case (1 depth v bytes left)
  have d: "depth \<le> 16" using "1.prems"(1) by (cases v) auto
  have g: "\<not> (left - 1 < 0 \<or> 16 < depth \<or> bytes < 0)"
    using "1.prems"(2,3) own_nodes_pos [of v] d by simp
  show ?case
  proof (cases v)
    case (PStr s)
    with g "1.prems"(3) length_le_utf8_len [of s] show ?thesis
      by (auto simp: own_value.simps [of depth "PStr s" bytes left] Let_def map_sum_Inr' own_text_Inr)
  next
    case (PList xs)
    have l: "\<not> left - 1 < int (length xs)" using "1.prems"(2) PList length_own_nodes(1) [of xs] by simp
    from "1.IH"(1) [OF refl g PList l] "1.prems" PList g l show ?thesis
      by (auto simp: own_value.simps [of depth "PList xs" bytes left] Let_def map_sum_Inr')
  next
    case (PDict e)
    have l: "\<not> left - 1 < 2 * int (length e)" using "1.prems"(2) PDict length_own_nodes(2) [of e] by simp
    from "1.IH"(2) [OF refl g PDict l] "1.prems" PDict g l show ?thesis
      by (fastforce simp: own_value.simps [of depth "PDict e" bytes left] Let_def map_sum_Inr')
  qed (use g "1.prems" in \<open>auto simp: own_value.simps [of depth _ bytes left] Let_def\<close>)
next
  case (3 depth v vs st)
  then obtain st1 where s: "own_value depth v st = Inr (v, st1)" by auto
  from own_sound(1) [OF s] have "snd st1 = snd st - int (own_nodes v)" "fst st1 = fst st - int (own_cost v)" by auto
  with "3.IH"(2) [OF s refl] "3.prems" s show ?case by (auto simp: map_sum_Inr')
next
  case (5 depth k v d bytes left)
  then obtain s where k: "k = PStr s" by (auto elim: is_str_cases)
  have g: "\<not> (left - 1 < 0 \<or> 16 < depth \<or> bytes < 0)" using "5.prems" k by auto
  have t: "own_text s (bytes, left - 1) = Inr (bytes - (int (utf8_len s) + 2), left - 1)"
    using "5.prems" k length_le_utf8_len [of s] by (auto simp: own_text_Inr)
  have "\<exists>st2. own_value depth v (bytes - (int (utf8_len s) + 2), left - 1) = Inr (v, st2)"
    by (rule "5.IH"(1) [OF k g t]) (use "5.prems" k in auto)
  then obtain st2 where s: "own_value depth v (bytes - (int (utf8_len s) + 2), left - 1) = Inr (v, st2)" by blast
  from own_sound(1) [OF s] have "snd st2 = left - 1 - int (own_nodes v)" "fst st2 = bytes - (int (utf8_len s) + 2) - int (own_cost v)"
    by auto
  with "5.IH"(2) [OF k g t s refl] "5.prems" k have "\<exists>st'. own_items depth d st2 = Inr (d, st')" by auto
  with k g t s show ?case by (auto simp: map_sum_Inr')
qed auto

text \<open>
  A hook's result is owned only as it is: an accepted value is returned unchanged, has string keys, finite
  numbers, a nesting of at most 16 and at most 4096 nodes; and every such value whose charge is at most eight MiB
  is accepted.
\<close>

theorem own_json_exact:
  shows "(own_json v = Owned w \<longrightarrow> w = v \<and> native_at 0 v \<and> own_nodes v \<le> 4096) \<and>
    (native_at 0 v \<and> own_nodes v \<le> 4096 \<and> own_cost v \<le> 8 * 1024 * 1024 \<longrightarrow> own_json v = Owned v)"
proof (intro conjI impI)
  assume "own_json v = Owned w"
  then obtain st where "own_value 0 v (MAX_OWNED_BYTES, 4096) = Inr (w, st)"
    by (auto simp: own_json_def split: sum.splits own_stop.splits)
  from own_sound(1) [OF this] show "w = v" "native_at 0 v" "own_nodes v \<le> 4096" by auto
next
  assume "native_at 0 v \<and> own_nodes v \<le> 4096 \<and> own_cost v \<le> 8 * 1024 * 1024"
  then have "\<exists>st. own_value 0 v (MAX_OWNED_BYTES, 4096) = Inr (v, st)"
    by (intro own_complete(1)) (auto simp: MAX_OWNED_BYTES_def)
  then show "own_json v = Owned v" by (auto simp: own_json_def)
qed

theorem own_json_exact_witness:
  "own_json (PDict [(PStr ''a'', PList [PInt 1, PNone])]) = Owned (PDict [(PStr ''a'', PList [PInt 1, PNone])])"
proof -
  have "1 \<le> max_double" by (rule max_double_ge) simp
  then have "rat_of_int 1 \<le> rat_of_int max_double" by (simp only: of_int_le_iff)
  then have "finite_number (PInt 1)" by (simp add: finite_number_def)
  with own_json_exact [of "PDict [(PStr ''a'', PList [PInt 1, PNone])]" PNone] show ?thesis by simp
qed

subsection \<open>What a schema means\<close>

text \<open>
  A value conforms to a node when every keyword of the node holds of it: the least relation with these rules, without
  budget, depth or order of evaluation.
\<close>

inductive conforms :: "pyval \<Rightarrow> (string \<Rightarrow> (string \<Rightarrow> bool) option) \<Rightarrow> pyval \<Rightarrow> pyval \<Rightarrow> bool"
  for schema :: pyval and pat :: "string \<Rightarrow> (string \<Rightarrow> bool) option" where
  anything: "conforms schema pat (PBool True) v"
| by_reference: "dget n ''$ref'' = Some (PStr r) \<Longrightarrow> resolve schema r = Some target \<Longrightarrow> conforms schema pat target v \<Longrightarrow>
    conforms schema pat (PDict n) v"
| all_keywords: "dget n ''$ref'' = None \<Longrightarrow>
    dget n ''anyOf'' = None \<or> (\<exists>cs c. dget n ''anyOf'' = Some (PList cs) \<and> c \<in> set cs \<and> conforms schema pat c v) \<Longrightarrow>
    head_ok n v = Some True \<Longrightarrow> own_keywords_ok pat n v = Some True \<Longrightarrow> parts n v = Some ps \<Longrightarrow>
    (\<And>c x. (c, x) \<in> set ps \<Longrightarrow> conforms schema pat c x) \<Longrightarrow> conforms schema pat (PDict n) v"

inductive_cases conforms_boolE: "conforms schema pat (PBool t) v"
inductive_cases conforms_nodeE: "conforms schema pat (PDict n) v"

text \<open>Without a reference, conforming is the conjunction of the keywords.\<close>

lemma conforms_node:
  assumes "dget n ''$ref'' = None" "parts n v = Some ps"
  shows "conforms schema pat (PDict n) v \<longleftrightarrow>
    (dget n ''anyOf'' = None \<or> (\<exists>cs c. dget n ''anyOf'' = Some (PList cs) \<and> c \<in> set cs \<and> conforms schema pat c v)) \<and>
    and_then (head_ok n v) (own_keywords_ok pat n v) = Some True \<and> (\<forall>(c, x) \<in> set ps. conforms schema pat c x)"
  (is "?l \<longleftrightarrow> ?r")
proof
  assume ?l
  then show ?r using assms by (cases rule: conforms_nodeE) (auto simp: and_then_def)
next
  assume r: ?r
  then have "head_ok n v = Some True" "own_keywords_ok pat n v = Some True"
    by (auto simp: and_then_def split: option.splits bool.splits)
  with r assms show ?l by (intro all_keywords) auto
qed

lemma conforms_ref: "dget n ''$ref'' = Some (PStr r) \<Longrightarrow> resolve schema r = Some target \<Longrightarrow>
    conforms schema pat (PDict n) v \<longleftrightarrow> conforms schema pat target v"
  by (auto elim!: conforms_nodeE intro: by_reference)

lemma not_conforms_keywords:
  "dget n ''$ref'' = None \<Longrightarrow> and_then (head_ok n v) (own_keywords_ok pat n v) = Some False \<Longrightarrow>
   \<not> conforms schema pat (PDict n) v"
  by (auto elim!: conforms_nodeE simp: and_then_def)

lemma not_conforms_any:
  "dget n ''$ref'' = None \<Longrightarrow> dget n ''anyOf'' = Some (PList cs) \<Longrightarrow> \<not> (\<exists>c \<in> set cs. conforms schema pat c v) \<Longrightarrow>
   \<not> conforms schema pat (PDict n) v"
  by (auto elim!: conforms_nodeE)

lemma check_decides:
  "check schema pat depth node v b = Inr (r, b') \<Longrightarrow> r = conforms schema pat node v"
  "check_any schema pat depth cs v b = Inr (r, b') \<Longrightarrow> r = (\<exists>c \<in> set cs. conforms schema pat c v)"
  "check_all schema pat depth ps b = Inr (r, b') \<Longrightarrow> r = (\<forall>(c, x) \<in> set ps. conforms schema pat c x)"
proof (induction schema pat depth node v b and schema pat depth cs v b and schema pat depth ps b
    arbitrary: r b' and r b' and r b' rule: check_check_any_check_all.induct)
  case (1 schema pat depth node v budget)
  from "1.prems" have g: "\<not> (64 < depth \<or> budget - 1 < 0)"
    by (auto simp: check.simps [of schema pat depth node v budget] Let_def split: if_splits)
  note q = "1.prems" [unfolded check.simps [of schema pat depth node v budget] Let_def if_not_P [OF g]]
  show ?case
  proof (cases node)
    case (PBool t)
    with q show ?thesis by (auto intro: anything elim: conforms_boolE)
  next
    case (PDict n)
    show ?thesis
    proof (cases "dget n ''$ref''")
      case (Some x)
      with q PDict obtain ref target where t: "x = PStr ref" "resolve schema ref = Some target"
        "check schema pat (Suc depth) target v (budget - 1) = Inr (r, b')"
        by (auto split: pyval.splits option.splits)
      from "1.IH"(3) [OF refl g PDict Some t] conforms_ref [OF Some [unfolded t(1)] t(2)] PDict show ?thesis by simp
    next
      case None
      let ?any = "case dget n ''anyOf'' of None \<Rightarrow> Inr (True, budget - 1)
        | Some cs \<Rightarrow> (case elements_of cs of None \<Rightarrow> Inl Raised
            | Some cs \<Rightarrow> check_any schema pat (Suc depth) cs v (budget - 1))"
      from q PDict None obtain some b1 where any: "?any = Inr (some, b1)" by (auto split: sum.splits)
      have some: "some \<longleftrightarrow> dget n ''anyOf'' = None \<or>
          (\<exists>cs c. dget n ''anyOf'' = Some (PList cs) \<and> c \<in> set cs \<and> conforms schema pat c v)"
      proof (cases "dget n ''anyOf''")
        case (Some x)
        with any obtain cs where cs: "x = PList cs" "elements_of x = Some cs"
          by (auto simp: elements_of_def split: option.splits pyval.splits)
        with any Some have "check_any schema pat (Suc depth) cs v (budget - 1) = Inr (some, b1)" by simp
        from "1.IH"(1) [OF refl g PDict None Some cs(2) this] Some cs(1) show ?thesis by auto
      qed (use any in simp)
      show ?thesis
      proof (cases some)
        case False
        with q PDict None any have "r = False" by simp
        moreover have "\<not> conforms schema pat node v"
          using False some None PDict by (auto elim!: conforms_nodeE)
        ultimately show ?thesis by simp
      next
        case True
        show ?thesis
        proof (cases "and_then (head_ok n v) (own_keywords_ok pat n v)")
          case (Some ok)
          show ?thesis
          proof (cases ok)
            case False
            with q PDict None any True Some not_conforms_keywords [OF None, of v pat schema] show ?thesis by simp
          next
            case ok: True
            with q PDict None any True Some obtain ps where ps: "parts n v = Some ps"
              "check_all schema pat (Suc depth) ps b1 = Inr (r, b')" by (auto split: option.splits)
            have "r = (\<forall>(c, x) \<in> set ps. conforms schema pat c x)"
              using "1.IH"(2) [OF refl g PDict None any refl _ Some _ ps] True ok by simp
            with conforms_node [OF None ps(1), of schema pat] some True Some ok PDict show ?thesis by simp
          qed
        qed (use q PDict None any True in simp)
      qed
    qed
  qed (use q in auto)
next
  case (3 schema pat depth c cs v budget)
  then show ?case by (fastforce split: sum.splits if_splits)
next
  case (5 schema pat depth p ps budget)
  then show ?case by (cases p) (fastforce split: sum.splits if_splits)
qed auto

text \<open>A larger budget decides the same, with as much left over.\<close>

lemma check_more:
  "check schema pat depth node v b = Inr (r, b') \<Longrightarrow> check schema pat depth node v (b + int k) = Inr (r, b' + int k)"
  "check_any schema pat depth cs v b = Inr (r, b') \<Longrightarrow> check_any schema pat depth cs v (b + int k) = Inr (r, b' + int k)"
  "check_all schema pat depth ps b = Inr (r, b') \<Longrightarrow> check_all schema pat depth ps (b + int k) = Inr (r, b' + int k)"
proof (induction schema pat depth node v b and schema pat depth cs v b and schema pat depth ps b
    arbitrary: r b' and r b' and r b' rule: check_check_any_check_all.induct)
  case (1 schema pat depth node v budget)
  from "1.prems" have g: "\<not> (64 < depth \<or> budget - 1 < 0)"
    by (auto simp: check.simps [of schema pat depth node v budget] Let_def split: if_splits)
  then have g': "\<not> (64 < depth \<or> budget + int k - 1 < 0)" by auto
  have b: "budget + int k - 1 = budget - 1 + int k" by simp
  note q = "1.prems" [unfolded check.simps [of schema pat depth node v budget] Let_def if_not_P [OF g]]
  note goal = check.simps [of schema pat depth node v "budget + int k", unfolded Let_def if_not_P [OF g'], unfolded b]
  show ?case
  proof (cases node)
    case (PDict n)
    show ?thesis
    proof (cases "dget n ''$ref''")
      case (Some x)
      with q PDict obtain ref target where t: "x = PStr ref" "resolve schema ref = Some target"
        "check schema pat (Suc depth) target v (budget - 1) = Inr (r, b')"
        by (auto split: pyval.splits option.splits)
      from "1.IH"(3) [OF refl g PDict Some t] PDict Some t show ?thesis unfolding goal by simp
    next
      case None
      let ?any = "\<lambda>b. case dget n ''anyOf'' of None \<Rightarrow> Inr (True, b)
        | Some cs \<Rightarrow> (case elements_of cs of None \<Rightarrow> Inl Raised | Some cs \<Rightarrow> check_any schema pat (Suc depth) cs v b)"
      from q PDict None obtain some b1 where any: "?any (budget - 1) = Inr (some, b1)" by (auto split: sum.splits)
      have more: "?any (budget - 1 + int k) = Inr (some, b1 + int k)"
      proof (cases "dget n ''anyOf''")
        case (Some x)
        with any obtain cs where cs: "elements_of x = Some cs" by (auto split: option.splits)
        with any Some have "check_any schema pat (Suc depth) cs v (budget - 1) = Inr (some, b1)" by simp
        from "1.IH"(1) [OF refl g PDict None Some cs this] Some cs show ?thesis by simp
      qed (use any in simp)
      show ?thesis
      proof (cases "some \<and> and_then (head_ok n v) (own_keywords_ok pat n v) = Some True")
        case False
        with q PDict None any more show ?thesis unfolding goal by (auto split: option.splits)
      next
        case True
        with q PDict None any obtain ps where ps: "parts n v = Some ps"
          "check_all schema pat (Suc depth) ps b1 = Inr (r, b')" by (auto split: option.splits)
        have "check_all schema pat (Suc depth) ps (b1 + int k) = Inr (r, b' + int k)"
          by (rule "1.IH"(2) [OF refl g PDict None any refl _ conjunct2 [OF True] _ ps]) (use True in simp_all)
        with PDict None more ps True show ?thesis unfolding goal by simp
      qed
    qed
  qed (unfold goal, use q in auto)
next
  case (3 schema pat depth c cs v budget)
  then show ?case by (fastforce split: sum.splits if_splits)
next
  case (5 schema pat depth p ps budget)
  then show ?case by (fastforce split: sum.splits if_splits)
qed auto


definition number_list_schema :: pyval where
  "number_list_schema = PDict [(PStr ''type'', PStr ''array''), (PStr ''items'', PDict [(PStr ''type'', PStr ''integer'')])]"


end
