(* ===== verification/Before_Send.thy ===== *)
theory Before_Send
  imports Canonical_Facts Evidence_Facts
begin

text \<open>
  \<open>before_send.py\<close>: the application's hook on an event. A hook is a function from the copy it gets to what it
  does (\<open>None\<close> is an exception); the diagnostics it causes are returned in a list. The schema and its
  patterns are as in theory Canonical_Event.
\<close>

definition MOBILE :: "string list" where
  "MOBILE = [''@debugbundle/sdk-android'', ''@debugbundle/sdk-swift'', ''@debugbundle/sdk-react-native'']"

text \<open>The condition on frontend exceptions; an exception is \<open>False\<close>.\<close>

definition platform_field_ok :: "pydict \<Rightarrow> bool" where
  "platform_field_ok e =
     (case (dget e ''event_type'', dget e ''sdk_name'', dget e ''payload'') of
        (Some kind, name, payload) \<Rightarrow>
          if kind = PStr ''frontend_exception'' then
            (case (name, payload) of
               (Some n, Some (PDict p)) \<Rightarrow>
                 is_dict (dgetn p (if n \<in> PStr ` set MOBILE then ''device'' else ''browser''))
             | _ \<Rightarrow> False)
          else True
      | _ \<Rightarrow> False)"

definition normalized ::
  "(rat \<Rightarrow> string) \<Rightarrow> (string \<Rightarrow> bool) \<Rightarrow> pyval \<Rightarrow> (string \<Rightarrow> (string \<Rightarrow> bool) option) \<Rightarrow> pyval \<Rightarrow> owned" where
  "normalized fr br schema pat event =
     (if \<not> is_dict event then Invalid
      else case own_json event of
          Owned v \<Rightarrow>
            (case valid_owned_event schema pat v of
               Valid_event \<Rightarrow> (case v of
                   PDict e \<Rightarrow> if validate_evidence fr br v \<and> platform_field_ok e then Owned v else Invalid
                 | _ \<Rightarrow> Invalid)
             | Invalid_event \<Rightarrow> Invalid
             | Exhausted_event \<Rightarrow> Exhausted)
        | r \<Rightarrow> r)"

definition is_valid_event ::
  "(rat \<Rightarrow> string) \<Rightarrow> (string \<Rightarrow> bool) \<Rightarrow> pyval \<Rightarrow> (string \<Rightarrow> (string \<Rightarrow> bool) option) \<Rightarrow> pyval \<Rightarrow> bool" where
  "is_valid_event fr br schema pat event = (case normalized fr br schema pat event of Owned _ \<Rightarrow> True | _ \<Rightarrow> False)"

definition apply_before_send ::
  "(rat \<Rightarrow> string) \<Rightarrow> (string \<Rightarrow> bool) \<Rightarrow> pyval \<Rightarrow> (string \<Rightarrow> (string \<Rightarrow> bool) option) \<Rightarrow> pydict \<Rightarrow>
   (pydict \<Rightarrow> pyval option) option \<Rightarrow> pydict option \<times> string list" where
  "apply_before_send fr br schema pat event hook =
     (case hook of
        None \<Rightarrow> (Some event, [])
      | Some h \<Rightarrow>
          (case h event of
             None \<Rightarrow> (Some event, [''before_send_failed''])
           | Some result \<Rightarrow>
               if result = PNone then (None, [])
               else (case normalized fr br schema pat result of
                   Exhausted \<Rightarrow> (None, [])
                 | Owned (PDict e) \<Rightarrow> (Some e, [])
                 | _ \<Rightarrow> (Some event, [''before_send_invalid_event'']))))"

subsection \<open>What a hook can do\<close>

lemma normalized_facts:
  assumes "normalized fr br schema pat v = Owned w"
  shows "w = v \<and> native_at 0 v \<and> own_nodes v \<le> 4096 \<and> conforms schema pat schema v \<and> validate_evidence fr br v \<and>
    (\<exists>e. v = PDict e \<and> platform_field_ok e)"
proof -
  from assms obtain u where u: "own_json v = Owned u" "valid_owned_event schema pat u = Valid_event" "w = u"
    "validate_evidence fr br u" "\<exists>e. u = PDict e \<and> platform_field_ok e"
    by (auto simp: normalized_def simp del: validate_evidence.simps split: if_splits owned.splits verdict.splits pyval.splits)
  from u(2) obtain b where "check schema pat 0 schema u 100000 = Inr (True, b)"
    by (auto simp: valid_owned_event_def split: if_splits sum.splits check_stop.splits)
  with check_decides(1) have "conforms schema pat schema u" by blast
  with u own_sound(1) show ?thesis
    by (auto simp: own_json_def simp del: validate_evidence.simps split: sum.splits own_stop.splits dest!: own_sound(1))
qed

text \<open>
  An application's hook can replace an event only by a valid one. What goes on is the event itself or exactly
  what the hook returned, and then it is native JSON, conforms to the event schema and passes the evidence
  validation; the event is withheld only when the hook says so or its result exceeds a budget; a hook that
  raises or returns an invalid event leaves the original in place and is reported.
\<close>

theorem hook_replaces_by_valid:
  assumes "apply_before_send fr br schema pat event (Some h) = (out, reports)"
  shows "(case out of
      Some e \<Rightarrow> e = event \<or> h event = Some (PDict e) \<and> reports = [] \<and> native_at 0 (PDict e) \<and>
        conforms schema pat schema (PDict e) \<and> validate_evidence fr br (PDict e) \<and> platform_field_ok e
    | None \<Rightarrow> reports = [] \<and> (\<exists>r. h event = Some r \<and> (r = PNone \<or> normalized fr br schema pat r = Exhausted))) \<and>
    (reports \<noteq> [] \<longrightarrow> out = Some event)"
proof (cases "h event")
  case None
  with assms show ?thesis by (auto simp: apply_before_send_def)
next
  case (Some r)
  show ?thesis
  proof (cases "normalized fr br schema pat r")
    case (Owned w)
    from normalized_facts [OF this] obtain e where "w = PDict e" "r = PDict e" by auto
    with normalized_facts [OF Owned] Owned Some assms show ?thesis
      by (auto simp: apply_before_send_def simp del: validate_evidence.simps)
  qed (use assms Some in \<open>auto simp: apply_before_send_def split: if_splits\<close>)
qed

theorem hook_replaces_by_valid_witness:
  "apply_before_send (\<lambda>q. []) (\<lambda>n. True) (PBool True) (\<lambda>p. None) [(PStr ''event_type'', PStr ''log_event'')]
      (Some (\<lambda>e. Some (PInt 3))) = (Some [(PStr ''event_type'', PStr ''log_event'')], [''before_send_invalid_event'']) \<and>
   (let (out, reports) = apply_before_send (\<lambda>q. []) (\<lambda>n. True) (PBool True) (\<lambda>p. None) [(PStr ''event_type'', PStr ''log_event'')]
      (Some (\<lambda>e. Some (PInt 3))) in reports \<noteq> [] \<and> out = Some [(PStr ''event_type'', PStr ''log_event'')])"
proof -
  let ?e = "[(PStr ''event_type'', PStr ''log_event'')]"
  have r: "apply_before_send (\<lambda>q. []) (\<lambda>n. True) (PBool True) (\<lambda>p. None) ?e (Some (\<lambda>e. Some (PInt 3))) =
      (Some ?e, [''before_send_invalid_event''])"
    by (simp add: apply_before_send_def normalized_def)
  from hook_replaces_by_valid [OF this] r show ?thesis by simp
qed

end
