(* ===== verification/Relay_Delivery.thy ===== *)
theory Relay_Delivery
  imports Ingestion_Facts Acknowledgement Evidence_Facts
begin

text \<open>
  \<open>relay_delivery.py\<close>: forwarding a relay batch to a destination. The transport is a parameter that
  answers the n-th call (None is an exception), the monotonic clock a parameter that gives the n-th
  reading. The state holds the features the destination has proved and, for the statements, the trace of
  the requests that were made: the features known then, the batch and the answer.

  \<open>AtomicRelayFileTransport\<close> is modelled up to the file system: the parameter says how a write ends.
\<close>

record forwarder =
  fw_features :: "string list"
  reads :: nat
  calls :: nat
  trace :: "(string list \<times> pyval list \<times> TransportResponse option) list"

definition attach_project_token :: "pydict list \<Rightarrow> string \<Rightarrow> pydict list" where
  "attach_project_token events token = map (dput ''project_token'' (PStr token)) events"

text \<open>An exception of the sizing is \<open>Inl\<close>.\<close>

definition prepare_event :: "(rat \<Rightarrow> string) \<Rightarrow> pydict \<Rightarrow> string \<Rightarrow> wire_error + pydict option" where
  "prepare_event fr event token =
     (let owned = dput ''project_token'' (PStr token) event;
          reduced = (if dgetn event ''event_type'' = PStr ''analytics_event''
            then (case event_bytes fr (PDict owned) of
                Inl e \<Rightarrow> Inl e
              | Inr n \<Rightarrow> Inr (if n \<le> MAX_EVENT_BYTES then Some (PDict owned) else None))
            else fit_event fr (Some owned))
      in case reduced of
           Inl e \<Rightarrow> Inl e
         | Inr (Some (PDict r)) \<Rightarrow> Inr (if r = [] then None else Some (without_keys [''project_token''] r))
         | Inr _ \<Rightarrow> Inr None)"

text \<open>\<open>EvidenceDelivery.observe\<close> on the features alone: whether a feature was lost, and the new features.\<close>

definition observe_features :: "string list \<Rightarrow> pyval \<Rightarrow> bool \<Rightarrow> bool \<Rightarrow> bool \<times> string list" where
  "observe_features fs answer required valid =
     (let descriptor = (case answer of PDict b \<Rightarrow> dgetn b ''evidence_capabilities'' | _ \<Rightarrow> PNone);
          known = (case answer of PDict b \<Rightarrow> has_key ''evidence_capabilities'' b | _ \<Rightarrow> False);
          fs' = parse_features (if valid then descriptor else PNone)
      in if \<not> required \<and> \<not> known then (False, fs) else (\<exists>f \<in> set fs. f \<notin> set fs', fs'))"

fun is_acknowledged :: "decision \<Rightarrow> bool" where
  "is_acknowledged (Acknowledged _ _ _) = True"
| "is_acknowledged _ = False"

definition is_success :: "TransportResponse \<Rightarrow> bool" where
  "is_success r \<longleftrightarrow> 200 \<le> status_code r \<and> status_code r < 300"

text \<open>The inner \<open>send\<close>.\<close>

definition forward ::
  "(nat \<Rightarrow> rat) \<Rightarrow> (nat \<Rightarrow> rat \<Rightarrow> pyval list \<Rightarrow> TransportResponse option) \<Rightarrow> rat \<Rightarrow> pyval list \<Rightarrow> forwarder \<Rightarrow>
   TransportResponse option \<times> forwarder" where
  "forward clock transport deadline batch s =
     (let s1 = s\<lparr>reads := Suc (reads s)\<rparr> in
      if deadline \<le> clock (reads s) then (None, s1)
      else let r = transport (calls s) deadline batch in
        (r, s1\<lparr>calls := Suc (calls s), trace := trace s @ [(fw_features s, batch, r)]\<rparr>))"

text \<open>The events to send again; an index outside the batch raises IndexError.\<close>

fun relay_retries :: "string list \<Rightarrow> pyval list \<Rightarrow> (int \<times> string) list \<Rightarrow> pyval list option" where
  "relay_retries fs events [] = Some []"
| "relay_retries fs events ((index, reason) # errors) =
     (if index < 0 \<or> int (length events) \<le> index then None
      else
        let original = events ! nat index;
            kind = (case original of PDict d \<Rightarrow> dgetn d ''event_type'' | _ \<Rightarrow> PNone)
        in map_option (\<lambda>rest.
             if reason = ''invalid_event'' \<and> kind = PStr ''frontend_exception'' then
               (case strip_unsupported original fs of
                  Some reduced \<Rightarrow> if reduced \<noteq> original then reduced # rest else rest
                | None \<Rightarrow> rest)
             else rest) (relay_retries fs events errors))"

text \<open>The second request of \<open>_send_chunk\<close>, with the reduced events, after \<open>accepted\<close> of \<open>n\<close> were accepted.\<close>

definition send_again ::
  "(nat \<Rightarrow> rat) \<Rightarrow> (nat \<Rightarrow> rat \<Rightarrow> pyval list \<Rightarrow> TransportResponse option) \<Rightarrow> bool \<Rightarrow> rat \<Rightarrow> int \<Rightarrow> int \<Rightarrow> pyval list \<Rightarrow>
   forwarder \<Rightarrow> bool \<times> forwarder" where
  "send_again clock transport required deadline accepted n retries s =
     (case forward clock transport deadline retries s of
        (None, s1) \<Rightarrow> (False, s1)
      | (Some r, s1) \<Rightarrow>
          if \<not> is_success r then (False, s1)
          else
            let ack = decide_acknowledgement (body r) (int (length retries)) True;
                complete = (case ack of Acknowledged again _ _ \<Rightarrow> accepted + again = n | _ \<Rightarrow> False)
            in (complete, s1\<lparr>fw_features := snd (observe_features (fw_features s1) (body r) required
                  (is_acknowledged ack))\<rparr>))"

text \<open>
  \<open>_send_chunk\<close>: success, whether the chunk was canonically acknowledged, and the new state. Every
  exception ends in (False, False).
\<close>

definition settle_chunk ::
  "(nat \<Rightarrow> rat) \<Rightarrow> (nat \<Rightarrow> rat \<Rightarrow> pyval list \<Rightarrow> TransportResponse option) \<Rightarrow> bool \<Rightarrow> rat \<Rightarrow> bool \<Rightarrow> pyval list \<Rightarrow>
   forwarder \<Rightarrow> decision \<Rightarrow> bool \<times> bool \<times> forwarder" where
  "settle_chunk clock transport required deadline lost events s ack =
     (case ack of
        Legacy \<Rightarrow> (True, False, s)
      | ProtocolFailure _ \<Rightarrow> (False, False, s)
      | Acknowledged accepted _ terminal \<Rightarrow>
          if accepted = int (length events) then (True, True, s)
          else (case (if lost then relay_retries (fw_features s) events terminal else Some []) of
              None \<Rightarrow> (False, False, s)
            | Some retries \<Rightarrow>
                if retries = [] then (False, False, s)
                else (let (complete, s1) = send_again clock transport required deadline accepted
                        (int (length events)) retries s
                      in (complete, complete, s1))))"

definition send_chunk ::
  "(nat \<Rightarrow> rat) \<Rightarrow> (nat \<Rightarrow> rat \<Rightarrow> pyval list \<Rightarrow> TransportResponse option) \<Rightarrow> bool \<Rightarrow> bool \<Rightarrow> rat \<Rightarrow> pyval list \<Rightarrow>
   forwarder \<Rightarrow> bool \<times> bool \<times> forwarder" where
  "send_chunk clock transport over_http discover deadline events s =
     (case forward clock transport deadline events s of
        (None, s1) \<Rightarrow> (False, False, s1)
      | (Some r, s1) \<Rightarrow>
          if \<not> is_success r then (False, False, s1)
          else
            let required = (discover \<or> over_http);
                ack = decide_acknowledgement (body r) (int (length events)) required;
                (lost, fs) = observe_features (fw_features s1) (body r) required (is_acknowledged ack)
            in settle_chunk clock transport required deadline lost events (s1\<lparr>fw_features := fs\<rparr>) ack)"

text \<open>What is sent of the events of a chunk: analytics as they are, others stripped; None gives up.\<close>

definition forwardable :: "string list \<Rightarrow> pyval \<Rightarrow> pyval option" where
  "forwardable fs v =
     (case v of
        PDict e \<Rightarrow> if dgetn e ''event_type'' = PStr ''analytics_event'' then Some v else strip_unsupported v fs
      | _ \<Rightarrow> None)"

fun select_batch :: "string list \<Rightarrow> pyval list \<Rightarrow> pyval list option" where
  "select_batch fs [] = Some []"
| "select_batch fs (v # vs) =
     (case forwardable fs v of None \<Rightarrow> None | Some w \<Rightarrow> map_option (Cons w) (select_batch fs vs))"

fun forward_chunks ::
  "(nat \<Rightarrow> rat) \<Rightarrow> (nat \<Rightarrow> rat \<Rightarrow> pyval list \<Rightarrow> TransportResponse option) \<Rightarrow> bool \<Rightarrow> bool \<Rightarrow> rat \<Rightarrow> string list \<Rightarrow> bool \<Rightarrow>
   pyval list list \<Rightarrow> forwarder \<Rightarrow> (bool \<times> bool \<times> bool) \<times> forwarder" where
  "forward_chunks clock transport over_http discover deadline known whole [] s = ((True, True, whole), s)"
| "forward_chunks clock transport over_http discover deadline known whole (original # rest) s =
     (let s1 = s\<lparr>reads := Suc (reads s)\<rparr> in
      if deadline \<le> clock (reads s) then ((True, False, False), s1)
      else (case select_batch (fw_features s1) original of
          None \<Rightarrow> ((True, False, False), s1)
        | Some batch \<Rightarrow>
            let (success, canonical, s2) = send_chunk clock transport over_http discover deadline batch s1;
                known' = filter (\<lambda>f. f \<in> set (fw_features s2)) known;
                s3 = s2\<lparr>fw_features := known'\<rparr>
            in if \<not> success then ((True, False, False), s3)
               else if deadline \<le> clock (reads s3) then ((True, False, False), s3\<lparr>reads := Suc (reads s3)\<rparr>)
               else forward_chunks clock transport over_http discover deadline known' (whole \<and> canonical) rest
                 (s3\<lparr>reads := Suc (reads s3)\<rparr>)))"

text \<open>\<open>send_verified\<close>: whether the relay is configured, whether all was sent, whether all was accepted.\<close>

definition send_verified ::
  "(rat \<Rightarrow> string) \<Rightarrow> (nat \<Rightarrow> rat) \<Rightarrow> (nat \<Rightarrow> rat \<Rightarrow> pyval list \<Rightarrow> TransportResponse option) \<Rightarrow> bool \<Rightarrow> string \<Rightarrow>
   pydict list \<Rightarrow> bool \<Rightarrow> forwarder \<Rightarrow> (bool \<times> bool \<times> bool) \<times> forwarder" where
  "send_verified fr clock transport over_http token events discover s =
     (if token = [] then ((False, False, False), s)
      else
        let deadline = clock (reads s) + 5; s1 = s\<lparr>reads := Suc (reads s)\<rparr> in
        case chunks fr (map PDict (attach_project_token events token)) of
          Inl _ \<Rightarrow> ((True, False, False), s1)
        | Inr cs \<Rightarrow> forward_chunks clock transport over_http discover deadline FEATURES True cs s1)"

definition relay_send ::
  "(rat \<Rightarrow> string) \<Rightarrow> (nat \<Rightarrow> rat) \<Rightarrow> (nat \<Rightarrow> rat \<Rightarrow> pyval list \<Rightarrow> TransportResponse option) \<Rightarrow> bool \<Rightarrow> string \<Rightarrow>
   pydict list \<Rightarrow> bool \<Rightarrow> forwarder \<Rightarrow> (bool \<times> bool) \<times> forwarder" where
  "relay_send fr clock transport over_http token events discover s =
     (let ((configured, success, _), s') = send_verified fr clock transport over_http token events discover s
      in ((configured, success), s'))"

subsection \<open>Spool files\<close>

definition is_name_char :: "char \<Rightarrow> bool" where
  "is_name_char c \<longleftrightarrow> is_digit c \<or> (let n = ord_of c in (65 \<le> n \<and> n \<le> 90) \<or> (97 \<le> n \<and> n \<le> 122)) \<or>
     c \<in> {CHR ''.'', CHR ''_'', CHR ''-''}"

text \<open>\<open>re.sub("P+", "-", s)\<close>: every maximal run of such characters becomes one hyphen.\<close>

function squeeze :: "(char \<Rightarrow> bool) \<Rightarrow> string \<Rightarrow> string" where
  "squeeze P [] = []"
| "squeeze P (c # s) = (if P c then CHR ''-'' # squeeze P (dropWhile P s) else c # squeeze P s)"
  by pat_completeness auto
termination by (relation "measure (\<lambda>(P, s). length s)") (auto simp: le_imp_less_Suc length_dropWhile_le)

definition strip_hyphens :: "string \<Rightarrow> string" where
  "strip_hyphens s = rev (dropWhile (\<lambda>c. c = CHR ''-'') (rev (dropWhile (\<lambda>c. c = CHR ''-'') s)))"

definition sanitize_service_name :: "string \<Rightarrow> string" where
  "sanitize_service_name s =
     (let n = strip_hyphens (squeeze (\<lambda>c. c = CHR ''-'') (squeeze (\<lambda>c. \<not> is_name_char c) (str_strip s)))
      in if n = [] then ''service'' else n)"

record spool =
  events_dir :: string
  service_name :: string
  sequence :: int
  dir_ensured :: bool

record RelayWriteResult =
  write_status :: int
  written_file_path :: "string option"

definition file_name :: "int \<Rightarrow> int \<Rightarrow> string \<Rightarrow> string" where
  "file_name now_ms n name = dec_int now_ms @ ''-'' @ dec_int n @ ''-'' @ name @ ''.events.json''"

text \<open>\<open>made\<close> and \<open>written\<close> say whether creating the directory and writing the file succeed.\<close>

definition spool_write :: "bool \<Rightarrow> bool \<Rightarrow> int \<Rightarrow> pydict list \<Rightarrow> spool \<Rightarrow> RelayWriteResult \<times> spool" where
  "spool_write made written now_ms events s =
     (if events = [] then (\<lparr>write_status = 202, written_file_path = None\<rparr>, s)
      else if \<not> dir_ensured s \<and> \<not> made then (\<lparr>write_status = 500, written_file_path = None\<rparr>, s)
      else
        let s1 = s\<lparr>dir_ensured := True, sequence := sequence s + 1\<rparr> in
        if written then (\<lparr>write_status = 202, written_file_path =
            Some (events_dir s1 @ ''/'' @ file_name now_ms (sequence s1) (service_name s1))\<rparr>, s1)
        else (\<lparr>write_status = 500, written_file_path = None\<rparr>, s1))"

end
