(* ===== verification/Relay.thy ===== *)
theory Relay
  imports Redaction Before_Send Relay_Delivery
begin

text \<open>
  \<open>relay.py\<close>: the handler that takes batches of events from browsers. The result of \<open>handle\<close> is the response,
  what was handed to \<open>on_accept\<close> and the new state; \<open>None\<close> is an exception that leaves the handler. Parameters:
  the JSON reader \<open>loads\<close>, the sanitizer and the validators of the other theories, the outcome of file operations,
  the network and the clocks.
\<close>

definition DEFAULT_MAX_BODY_BYTES :: int where "DEFAULT_MAX_BODY_BYTES = 262144"
definition DEFAULT_RATE_LIMIT_PER_MINUTE :: int where "DEFAULT_RATE_LIMIT_PER_MINUTE = 60"
definition BROWSER_SDK_NAME :: string where "BROWSER_SDK_NAME = ''@debugbundle/sdk-browser''"

definition ACCEPTED_EVENT_TYPES :: "string list" where
  "ACCEPTED_EVENT_TYPES = [''frontend_exception'', ''error_suppressed'', ''frontend_breadcrumb'', ''request_event'',
     ''probe_event'', ''analytics_event'', ''diagnostic_context'']"

type_synonym headers = "(string \<times> string) list"

record BrowserRelayResponse =
  rs_status :: int
  rs_body :: "pydict option"
  rs_headers :: headers

record BrowserRelayAcceptedBatch =
  ab_events :: "pydict list"
  ab_headers :: headers
  ab_ip_address :: "string option"

text \<open>The handler: its options after \<open>__post_init__\<close>, then its state.\<close>

record relay =
  allowed_origins :: "string list"
  max_body_bytes :: int
  rate_limit_per_minute :: int
  project_mode :: "string option"
  relay_token :: string
  has_forwarder :: bool
  http_forwarder :: bool
  durable_write :: bool
  service_override :: string
  environment_override :: string
  local_dir :: string
  spool_dir :: string
  rate_limit_state :: "(string \<times> int list) list"
  local_transports :: "(string \<times> spool) list"
  spool_transports :: "(string \<times> spool) list"
  relay_forwarder :: forwarder
  delivered_marks :: "string list"

definition post_init :: "bool \<Rightarrow> string option \<Rightarrow> relay \<Rightarrow> relay" where
  "post_init endpoint_given mode r =
     (let m = (case mode of None \<Rightarrow> [] | Some s \<Rightarrow> str_lower (str_strip s));
          m = (if m = ''connected'' \<or> m = ''local-only'' then Some m else None)
      in r\<lparr>allowed_origins := filter (\<lambda>x. x \<noteq> []) (allowed_origins r),
           max_body_bytes := max 1 (max_body_bytes r),
           rate_limit_per_minute := max 1 (rate_limit_per_minute r),
           project_mode := m,
           has_forwarder := (m = Some ''connected'' \<and> endpoint_given),
           rate_limit_state := [], local_transports := [], spool_transports := [], delivered_marks := []\<rparr>)"

subsection \<open>Headers and origins\<close>

abbreviation header :: "headers \<Rightarrow> string \<Rightarrow> string" where
  "header hs k \<equiv> (case map_of hs k of None \<Rightarrow> [] | Some v \<Rightarrow> v)"

definition normalize_headers :: "(string \<times> string) list \<Rightarrow> headers" where
  "normalize_headers hs = fold (\<lambda>(k, v) d. AList.update (str_lower k) v d) hs []"

fun occurs_in :: "string \<Rightarrow> string \<Rightarrow> bool" where
  "occurs_in p [] = (p = [])"
| "occurs_in p (c # s) = (starts_with p (c # s) \<or> occurs_in p s)"

definition is_supported_content_type :: "string option \<Rightarrow> bool" where
  "is_supported_content_type t = (case t of None \<Rightarrow> False | Some s \<Rightarrow> occurs_in ''application/json'' (str_lower s))"

definition cors_headers :: "string \<Rightarrow> headers" where
  "cors_headers origin = [(''access-control-allow-origin'', origin), (''access-control-allow-methods'', ''POST, OPTIONS''),
     (''access-control-allow-headers'', ''content-type, x-debugbundle-evidence''), (''access-control-max-age'', ''600''),
     (''vary'', ''Origin'')]"

text \<open>\<open>urlparse(u).hostname\<close> from the authority; the empty string is its None.\<close>

definition host_of :: "string \<Rightarrow> string" where
  "host_of netloc =
     (let hostinfo = snd (snd (rpartition_at CHR ''@'' netloc));
          (_, bracket, rest) = partition_at CHR ''['' hostinfo;
          host = (if bracket then fst (partition_at CHR '']'' rest) else fst (partition_at CHR '':'' hostinfo));
          (name, zoned, zone) = partition_at CHR ''%'' host
      in if host = [] then [] else str_lower name @ (if zoned then CHR ''%'' # zone else []))"

definition url_hostname :: "urllib \<Rightarrow> string \<Rightarrow> string option" where
  "url_hostname lib u = map_option (\<lambda>(scheme, netloc, path, query). host_of netloc) (urlsplit lib u)"

definition source_origin :: "urllib \<Rightarrow> headers \<Rightarrow> string option" where
  "source_origin lib hs =
     (let origin = str_strip (header hs ''origin''); referer = str_strip (header hs ''referer'') in
      if origin \<noteq> [] then Some origin
      else if referer = [] then None
      else (case urlsplit lib referer of
          None \<Rightarrow> None
        | Some (scheme, netloc, path, query) \<Rightarrow>
            if scheme \<noteq> [] \<and> host_of netloc \<noteq> [] then Some (scheme @ ''://'' @ host_of netloc) else None))"

definition normalize_origin :: "string \<Rightarrow> string" where
  "normalize_origin s = rev (dropWhile (\<lambda>c. c = CHR ''/'') (rev (str_lower (str_strip s))))"

definition is_origin_allowed :: "urllib \<Rightarrow> relay \<Rightarrow> headers \<Rightarrow> bool" where
  "is_origin_allowed lib r hs =
     (case source_origin lib hs of
        None \<Rightarrow> False
      | Some origin \<Rightarrow>
          if allowed_origins r \<noteq> [] then
            list_ex (\<lambda>c. normalize_origin c = normalize_origin origin) (allowed_origins r)
          else
            let host = header hs ''host'' in
            host \<noteq> [] \<and> (case url_hostname lib origin of
               None \<Rightarrow> False
             | Some h \<Rightarrow> h \<noteq> [] \<and> str_lower h = fst (partition_at CHR '':'' (str_lower host))))"

definition strip_sensitive_headers :: "headers \<Rightarrow> headers" where
  "strip_sensitive_headers hs = filter (\<lambda>(k, v). k \<notin> {''authorization'', ''cookie'', ''x-api-key''}) hs"

subsection \<open>Rate limit\<close>

definition is_rate_limited :: "string option \<Rightarrow> int \<Rightarrow> relay \<Rightarrow> bool \<times> relay" where
  "is_rate_limited ip now r =
     (let key = (case ip of None \<Rightarrow> ''unknown'' | Some s \<Rightarrow> if s = [] then ''unknown'' else s);
          timestamps = filter (\<lambda>ts. now - 60 < ts) (case map_of (rate_limit_state r) key of None \<Rightarrow> [] | Some ts \<Rightarrow> ts)
      in if rate_limit_per_minute r \<le> int (length timestamps)
         then (True, r\<lparr>rate_limit_state := AList.update key timestamps (rate_limit_state r)\<rparr>)
         else (False, r\<lparr>rate_limit_state := AList.update key (timestamps @ [now]) (rate_limit_state r)\<rparr>))"

subsection \<open>Sanitizing an event\<close>

definition nonempty_text :: "pydict \<Rightarrow> string \<Rightarrow> bool" where
  "nonempty_text d k \<longleftrightarrow> (case dgetn d k of PStr s \<Rightarrow> s \<noteq> [] | _ \<Rightarrow> False)"

definition text_or_none :: "pyval \<Rightarrow> bool" where
  "text_or_none v \<longleftrightarrow> is_str v \<or> v = PNone"

definition relay_service :: "pydict \<Rightarrow> pyval \<Rightarrow> pyval \<Rightarrow> pyval" where
  "relay_service serv name env = PDict ([(PStr ''name'', name), (PStr ''environment'', env)] @
     concat (map (\<lambda>k. if text_or_none (dgetn serv k) then [(PStr k, dgetn serv k)] else []) [''runtime'', ''framework'']))"

definition relay_correlation :: "pydict \<Rightarrow> pydict" where
  "relay_correlation event =
     (case dgetn event ''correlation'' of
        PDict c \<Rightarrow>
          let keys = (if dgetn event ''event_type'' = PStr ''analytics_event''
              then [''session_id'', ''visitor_id_hash'', ''user_id_hash'', ''trace_id'', ''deploy_id'']
              else [''request_id'', ''trace_id'', ''session_id'', ''user_id_hash''])
          in concat (map (\<lambda>k. case dget c k of Some v \<Rightarrow> if text_or_none v then [(PStr k, v)] else [] | None \<Rightarrow> []) keys)
      | _ \<Rightarrow> [])"

definition override :: "string \<Rightarrow> pyval \<Rightarrow> pyval" where
  "override s v = (if s = [] then v else PStr s)"

text \<open>The event that is built from the recognised fields; None when a required one is missing.\<close>

definition relay_base :: "string \<Rightarrow> string \<Rightarrow> pydict \<Rightarrow> pydict option" where
  "relay_base serv_over env_over event =
     (case (dgetn event ''service'', dgetn event ''payload'') of
        (PDict serv, PDict payload) \<Rightarrow>
          if \<not> list_all (nonempty_text event) [''schema_version'', ''event_id'', ''occurred_at'', ''sdk_version'']
             \<or> \<not> is_str (dgetn event ''event_type'') \<or> \<not> nonempty_text serv ''name'' \<or> \<not> nonempty_text serv ''environment''
          then None
          else Some (map (\<lambda>k. (PStr k, dgetn event k)) [''schema_version'', ''event_id'', ''event_type'', ''occurred_at''] @
            [(PStr ''sdk_name'', PStr BROWSER_SDK_NAME), (PStr ''sdk_version'', dgetn event ''sdk_version''),
             (PStr ''service'', relay_service serv (override serv_over (dgetn serv ''name''))
                (override env_over (dgetn serv ''environment''))),
             (PStr ''payload'', PDict payload)] @
            (if relay_correlation event = [] then [] else [(PStr ''correlation'', PDict (relay_correlation event))]) @
            (if is_dict (dgetn event ''context'') then [(PStr ''context'', dgetn event ''context'')] else []))
      | _ \<Rightarrow> None)"

definition carries_evidence :: "pydict \<Rightarrow> bool" where
  "carries_evidence event \<longleftrightarrow>
     dgetn event ''event_type'' \<noteq> PStr ''analytics_event'' \<and>
     (dgetn event ''event_type'' = PStr ''diagnostic_context'' \<or>
      (\<exists>f \<in> set optional_fields. has_key f (payload_of event)))"

datatype cleaning = Withheld | Unsafe_at pydict | Cleaned pydict

text \<open>The calls inside the \<open>try\<close>: what has been replaced when a sanitizer raises stays replaced.\<close>

definition clean_field :: "(pyval \<Rightarrow> unsafe + pyval) \<Rightarrow> string \<Rightarrow> cleaning \<Rightarrow> cleaning" where
  "clean_field sanitize k c =
     (case c of
        Cleaned e \<Rightarrow> (case sanitize (dgetn e k) of Inl _ \<Rightarrow> Unsafe_at e | Inr v \<Rightarrow> Cleaned (dput k v e))
      | _ \<Rightarrow> c)"

definition clean_event :: "(pyval \<Rightarrow> unsafe + pyval) \<Rightarrow> pydict \<Rightarrow> cleaning" where
  "clean_event sanitize e =
     (case has_safe_event_identity sanitize e of
        Inl _ \<Rightarrow> Unsafe_at e
      | Inr safe \<Rightarrow>
          if \<not> safe then Withheld
          else
            let c = clean_field sanitize ''service'' (clean_field sanitize ''payload'' (Cleaned e)) in
            if has_key ''context'' e then clean_field sanitize ''context'' c else c)"

datatype sanitized = Rejected | Kept pydict | Again pyval

definition fall_back :: "pydict \<Rightarrow> sanitized" where
  "fall_back e = (case without_optional (PDict e) of None \<Rightarrow> Rejected | Some f \<Rightarrow> Again f)"

text \<open>One call of \<open>_sanitize_event\<close> up to its recursive call.\<close>

definition sanitize_once ::
  "(pyval \<Rightarrow> unsafe + pyval) \<Rightarrow> (pyval \<Rightarrow> bool) \<Rightarrow> (pyval \<Rightarrow> bool) \<Rightarrow> string \<Rightarrow> string \<Rightarrow> pydict \<Rightarrow> sanitized" where
  "sanitize_once sanitize valid evidence_ok serv_over env_over event =
     (case relay_base serv_over env_over event of
        None \<Rightarrow> Rejected
      | Some e \<Rightarrow>
          if carries_evidence e \<and> \<not> valid (PDict e) then Rejected
          else (case clean_event sanitize e of
              Withheld \<Rightarrow> Rejected
            | Unsafe_at u \<Rightarrow> if carries_evidence e then fall_back u else Rejected
            | Cleaned u \<Rightarrow>
                if carries_evidence e \<and> (\<not> valid (PDict u) \<or> \<not> evidence_ok (PDict u)) then fall_back u else Kept u))"

partial_function (option) sanitize_event ::
  "(pyval \<Rightarrow> unsafe + pyval) \<Rightarrow> (pyval \<Rightarrow> bool) \<Rightarrow> (pyval \<Rightarrow> bool) \<Rightarrow> string \<Rightarrow> string \<Rightarrow> pydict \<Rightarrow> pydict option option" where
  "sanitize_event sanitize valid evidence_ok serv_over env_over event =
     (case sanitize_once sanitize valid evidence_ok serv_over env_over event of
        Rejected \<Rightarrow> Some None
      | Kept e \<Rightarrow> Some (Some e)
      | Again f \<Rightarrow> (case f of PDict e \<Rightarrow> sanitize_event sanitize valid evidence_ok serv_over env_over e | _ \<Rightarrow> None))"

subsection \<open>Delivering a batch\<close>

text \<open>What the file system does with a write: \<open>files n\<close> for the n-th write says whether directory and file work.\<close>

record file_outcome =
  dir_made :: bool
  file_written :: bool
  write_ms :: int

definition new_spool :: "string \<Rightarrow> string \<Rightarrow> spool" where
  "new_spool dir name = \<lparr>events_dir = dir, service_name = sanitize_service_name name, sequence = 0, dir_ensured = False\<rparr>"

definition write_through ::
  "file_outcome \<Rightarrow> string \<Rightarrow> string \<Rightarrow> pydict list \<Rightarrow> (string \<times> spool) list \<Rightarrow> RelayWriteResult \<times> (string \<times> spool) list" where
  "write_through io dir name events transports =
     (let t = (case map_of transports name of None \<Rightarrow> new_spool dir name | Some t \<Rightarrow> t);
          (result, t') = spool_write (dir_made io) (file_written io) (write_ms io) events t
      in (result, AList.update name t' transports))"

definition forward_connected_events ::
  "(rat \<Rightarrow> string) \<Rightarrow> (nat \<Rightarrow> rat) \<Rightarrow> (nat \<Rightarrow> rat \<Rightarrow> pyval list \<Rightarrow> TransportResponse option) \<Rightarrow> pydict list \<Rightarrow> bool \<Rightarrow> relay \<Rightarrow>
   (bool \<times> bool \<times> bool) \<times> relay" where
  "forward_connected_events fr clock transport events discover r =
     (if \<not> has_forwarder r \<or> relay_token r = [] then ((False, False, False), r)
      else
        let (result, f) = send_verified fr clock transport (http_forwarder r) (relay_token r) events discover (relay_forwarder r)
        in (result, r\<lparr>relay_forwarder := f\<rparr>))"

text \<open>\<open>self.service or str(accepted_events[0]["service"]["name"])\<close>; None is a KeyError or TypeError.\<close>

definition service_of :: "relay \<Rightarrow> pydict list \<Rightarrow> string option" where
  "service_of r events =
     (if service_override r \<noteq> [] then Some (service_override r)
      else (case dgetn (hd events) ''service'' of
          PDict serv \<Rightarrow> (case dget serv ''name'' of Some (PStr s) \<Rightarrow> Some s | _ \<Rightarrow> None)
        | _ \<Rightarrow> None))"

definition deliver_spooled ::
  "(rat \<Rightarrow> string) \<Rightarrow> (nat \<Rightarrow> rat) \<Rightarrow> (nat \<Rightarrow> rat \<Rightarrow> pyval list \<Rightarrow> TransportResponse option) \<Rightarrow> file_outcome \<Rightarrow> string \<Rightarrow>
   pydict list \<Rightarrow> bool \<Rightarrow> relay \<Rightarrow> bool \<times> relay" where
  "deliver_spooled fr clock transport io name events discover r =
     (let (result, ts) = write_through io (spool_dir r) name events (spool_transports r);
          r1 = r\<lparr>spool_transports := ts\<rparr>
      in if write_status result \<noteq> 202 then (False, r1)
         else
           let ((configured, _, fully), r2) = forward_connected_events fr clock transport events discover r1;
               r3 = (case written_file_path result of
                   Some p \<Rightarrow> if fully then r2\<lparr>delivered_marks := delivered_marks r2 @ [p]\<rparr> else r2
                 | None \<Rightarrow> r2)
           in (configured \<or> written_file_path result \<noteq> None, r3))"

definition deliver_events ::
  "(rat \<Rightarrow> string) \<Rightarrow> (nat \<Rightarrow> rat) \<Rightarrow> (nat \<Rightarrow> rat \<Rightarrow> pyval list \<Rightarrow> TransportResponse option) \<Rightarrow> file_outcome \<Rightarrow>
   pydict list \<Rightarrow> bool \<Rightarrow> relay \<Rightarrow> (bool \<times> relay) option" where
  "deliver_events fr clock transport io events discover r =
     (case project_mode r of
        None \<Rightarrow> Some (True, r)
      | Some mode \<Rightarrow>
          map_option (\<lambda>name.
            if mode = ''local-only'' then
              (let (result, ts) = write_through io (local_dir r) name events (local_transports r)
               in (write_status result = 202, r\<lparr>local_transports := ts\<rparr>))
            else if mode \<noteq> ''connected'' then (True, r)
            else if durable_write r then deliver_spooled fr clock transport io name events discover r
            else
              (let ((configured, succeeded, _), r') = forward_connected_events fr clock transport events discover r
               in (configured \<and> succeeded, r'))) (service_of r events))"

subsection \<open>Handling a request\<close>

record relay_request =
  rq_method :: string
  rq_headers :: "(string \<times> string) list"
  rq_url :: string
  rq_body :: string
  rq_ip_address :: "string option"

text \<open>Everything outside the handler that one request meets; \<open>query_flags\<close> is \<open>parse_qs(q).get("debugbundle_evidence")\<close>.\<close>

record surroundings =
  env_fr :: "rat \<Rightarrow> string"
  env_lib :: urllib
  env_loads :: "string \<Rightarrow> pyval option"
  env_query_flags :: "string \<Rightarrow> string list"
  env_valid :: "pyval \<Rightarrow> bool"
  env_evidence_ok :: "pyval \<Rightarrow> bool"
  env_clock :: "nat \<Rightarrow> rat"
  env_transport :: "nat \<Rightarrow> rat \<Rightarrow> pyval list \<Rightarrow> TransportResponse option"
  env_io :: file_outcome
  env_now :: int
  env_accept :: "(BrowserRelayAcceptedBatch \<Rightarrow> bool) option"

abbreviation env_sanitize :: "surroundings \<Rightarrow> pyval \<Rightarrow> unsafe + pyval" where
  "env_sanitize env \<equiv> sanitize_telemetry (env_lib env) (env_loads env) (env_fr env) []"

definition indexed :: "nat \<Rightarrow> string \<Rightarrow> string" where
  "indexed i t = ''batch['' @ dec_nat i @ '']: '' @ t"

text \<open>One turn of the loop over the batch: an error text or the event to accept; None is an exception.\<close>

definition take_candidate :: "surroundings \<Rightarrow> relay \<Rightarrow> nat \<Rightarrow> pyval \<Rightarrow> (string + pydict) option" where
  "take_candidate env r i v =
     (case v of
        PDict candidate \<Rightarrow>
          if \<not> one_str (dgetn candidate ''event_type'') ACCEPTED_EVENT_TYPES then
            Some (Inl (indexed i (''Unsupported browser relay event type '' @
              (case dgetn candidate ''event_type'' of PStr t \<Rightarrow> t | _ \<Rightarrow> ''unknown'') @ ''.'')))
          else (case sanitize_event (env_sanitize env) (env_valid env) (env_evidence_ok env) (service_override r)
                  (environment_override r) candidate of
              None \<Rightarrow> None
            | Some s \<Rightarrow>
                let s1 = (case s of
                    Some e \<Rightarrow> if dgetn e ''event_type'' = PStr ''analytics_event'' then Some e
                      else (case strip_unsupported (PDict e) (fw_features (relay_forwarder r)) of Some (PDict u) \<Rightarrow> Some u | _ \<Rightarrow> None)
                  | None \<Rightarrow> None)
                in (case s1 of
                    None \<Rightarrow> Some (Inl (indexed i ''Invalid browser relay event payload.''))
                  | Some e \<Rightarrow>
                      if has_forwarder r \<and> relay_token r \<noteq> [] then
                        (case prepare_event (env_fr env) e (relay_token r) of
                           Inl _ \<Rightarrow> None
                         | Inr None \<Rightarrow> Some (Inl (indexed i ''Invalid browser relay event payload.''))
                         | Inr (Some p) \<Rightarrow> Some (Inr p))
                      else Some (Inr e)))
      | _ \<Rightarrow> Some (Inl (indexed i ''Relay events must be objects.'')))"

text \<open>The loop: the accepted events, the error texts and the indices of the rejected candidates.\<close>

fun take_batch :: "surroundings \<Rightarrow> relay \<Rightarrow> nat \<Rightarrow> pyval list \<Rightarrow> (pydict list \<times> string list \<times> nat list) option" where
  "take_batch env r i [] = Some ([], [], [])"
| "take_batch env r i (v # vs) =
     (case take_candidate env r i v of
        None \<Rightarrow> None
      | Some c \<Rightarrow> map_option (\<lambda>(events, errors, ixs). case c of
            Inl t \<Rightarrow> (events, t # errors, i # ixs) | Inr e \<Rightarrow> (e # events, errors, ixs))
          (take_batch env r (Suc i) vs))"

definition error_body :: "string \<Rightarrow> pydict" where
  "error_body t = [(PStr ''accepted'', PInt 0), (PStr ''rejected'', PInt 0), (PStr ''errors'', PList [PStr t])]"

definition outcome_body :: "pydict list \<Rightarrow> string list \<Rightarrow> pydict" where
  "outcome_body events errors = [(PStr ''accepted'', PInt (int (length events))), (PStr ''rejected'', PInt (int (length errors))),
     (PStr ''errors'', PList (map PStr errors))]"

definition with_headers :: "bool \<Rightarrow> string list \<Rightarrow> nat list \<Rightarrow> headers \<Rightarrow> int \<Rightarrow> pydict option \<Rightarrow> BrowserRelayResponse" where
  "with_headers discover known ixs hs code reply =
     \<lparr>rs_status = code,
      rs_body = map_option (\<lambda>b. if discover then
          (let b1 = dput ''evidence_capabilities'' (PDict [(PStr ''version'', PInt 1), (PStr ''features'', PList (map PStr known))]) b
           in if has_key ''errors'' b1 \<and> ixs \<noteq> [] then
             dput ''evidence_errors'' (PList (map (\<lambda>i. PDict [(PStr ''index'', PInt (int i)), (PStr ''reason'', PStr ''invalid_event'')]) ixs)) b1
             else b1) else b) reply,
      rs_headers = hs\<rparr>"

text \<open>Delivery, \<open>on_accept\<close> and the response, once the batch has been read.\<close>

definition conclude ::
  "surroundings \<Rightarrow> headers \<Rightarrow> headers \<Rightarrow> bool \<Rightarrow> string option \<Rightarrow> pydict list \<Rightarrow> string list \<Rightarrow> nat list \<Rightarrow> relay \<Rightarrow>
   BrowserRelayResponse \<times> BrowserRelayAcceptedBatch option \<times> relay" where
  "conclude env hs reply_headers discover ip events errors ixs r =
     (let reply = (\<lambda>code b r. with_headers discover (fw_features (relay_forwarder r)) ixs reply_headers code b);
          handed = \<lparr>ab_events = events, ab_headers = strip_sensitive_headers hs, ab_ip_address = ip\<rparr>;
          (ok, given, r1) =
            (if events = [] then (True, None, r)
             else (case deliver_events (env_fr env) (env_clock env) (env_transport env) (env_io env) events discover r of
                 None \<Rightarrow> (False, None, r)
               | Some (delivered, r1) \<Rightarrow>
                   if \<not> delivered then (False, None, r1)
                   else (case env_accept env of None \<Rightarrow> (True, None, r1) | Some f \<Rightarrow> (f handed, Some handed, r1))))
      in if \<not> ok then (reply 500 None r1, given, r1)
         else (reply (if errors = [] \<or> discover then 202 else 400) (Some (outcome_body events errors)) r1, given, r1))"

text \<open>A response that hands nothing over and delivers nothing.\<close>

definition turn_away ::
  "bool \<Rightarrow> headers \<Rightarrow> int \<Rightarrow> pydict option \<Rightarrow> relay \<Rightarrow> BrowserRelayResponse \<times> BrowserRelayAcceptedBatch option \<times> relay" where
  "turn_away discover reply_headers code b r =
     (with_headers discover (fw_features (relay_forwarder r)) [] reply_headers code b, None, r)"

text \<open>From the decoded body on.\<close>

definition answer_decoded ::
  "surroundings \<Rightarrow> headers \<Rightarrow> headers \<Rightarrow> bool \<Rightarrow> string option \<Rightarrow> pyval option \<Rightarrow> relay \<Rightarrow>
   (BrowserRelayResponse \<times> BrowserRelayAcceptedBatch option \<times> relay) option" where
  "answer_decoded env hs reply_headers discover ip decoded r =
     (case decoded of
        Some (PDict d) \<Rightarrow>
          (case dgetn d ''batch'' of
             PList batch \<Rightarrow>
               map_option (\<lambda>(events, errors, ixs). conclude env hs reply_headers discover ip events errors ixs r)
                 (take_batch env r 0 batch)
           | _ \<Rightarrow> Some (turn_away discover reply_headers 400
               (Some (error_body ''Relay request body must include a batch array.'')) r))
      | _ \<Rightarrow> Some (turn_away discover reply_headers 400 (Some (error_body ''Relay request body must be valid JSON.'')) r))"

text \<open>From the request method on.\<close>

definition answer_method ::
  "surroundings \<Rightarrow> headers \<Rightarrow> headers \<Rightarrow> bool \<Rightarrow> relay_request \<Rightarrow> relay \<Rightarrow>
   (BrowserRelayResponse \<times> BrowserRelayAcceptedBatch option \<times> relay) option" where
  "answer_method env hs reply_headers discover rq r =
     (if str_upper (rq_method rq) = ''OPTIONS'' then Some (turn_away discover reply_headers 204 None r)
      else if str_upper (rq_method rq) \<noteq> ''POST'' then Some (turn_away discover reply_headers 405 None r)
      else if \<not> is_supported_content_type (map_of hs ''content-type'') then
        Some (turn_away discover reply_headers 400
          (Some (error_body ''Relay requests must use Content-Type: application/json.'')) r)
      else if max_body_bytes r < int (utf8_len (rq_body rq)) then Some (turn_away discover reply_headers 413 None r)
      else
        let (limited, r1) = is_rate_limited (rq_ip_address rq) (env_now env) r in
        if limited then Some (turn_away discover reply_headers 429 None r1)
        else answer_decoded env hs reply_headers discover (rq_ip_address rq) (env_loads env (rq_body rq)) r1)"

definition handle ::
  "surroundings \<Rightarrow> relay_request \<Rightarrow> relay \<Rightarrow> (BrowserRelayResponse \<times> BrowserRelayAcceptedBatch option \<times> relay) option" where
  "handle env rq r =
     (let hs = normalize_headers (rq_headers rq) in
      if \<not> is_origin_allowed (env_lib env) r hs then Some (\<lparr>rs_status = 403, rs_body = None, rs_headers = []\<rparr>, None, r)
      else
        let reply_headers = (case source_origin (env_lib env) hs of None \<Rightarrow> [] | Some origin \<Rightarrow> cors_headers origin);
            asked = (if map_of hs ''x-debugbundle-evidence'' = Some ''1'' then Some True
               else map_option (\<lambda>(scheme, netloc, path, query). env_query_flags env query = [''1'']) (urlsplit (env_lib env) (rq_url rq)))
        in (case asked of None \<Rightarrow> None | Some discover \<Rightarrow> answer_method env hs reply_headers discover rq r))"

end
