(* ===== verification/Redaction_Facts.thy ===== *)
theory Redaction_Facts
  imports Redaction
begin

text \<open>
  What sanitizing guarantees: the shape of sanitized telemetry, the detection of card numbers, and what
  \<open>redact_value\<close> leaves.
\<close>

subsection \<open>Sanitized telemetry\<close>

text \<open>
  \<open>clean scrub sens fr structured depth v\<close>: every text of \<open>v\<close> is the marker, a scrubbed text or the JSON text
  of a clean value, every key is a short string that scrubbing leaves alone, a sensitive key has the
  marker as its value, and depth and widths keep their bounds.
\<close>

inductive clean :: "(string \<Rightarrow> string) \<Rightarrow> (string \<Rightarrow> bool) \<Rightarrow> (rat \<Rightarrow> string) \<Rightarrow> bool \<Rightarrow> nat \<Rightarrow> pyval \<Rightarrow> bool"
  for scrub :: "string \<Rightarrow> string" and sens :: "string \<Rightarrow> bool" and fr :: "rat \<Rightarrow> string" where
  marker: "clean scrub sens fr structured depth (PStr REDACTED_VALUE)"
| scrubbed: "utf8_len s \<le> 16 * 1024 \<Longrightarrow> clean scrub sens fr structured depth (PStr (scrub s))"
| nested: "clean scrub sens fr False 0 v \<Longrightarrow> json_val False True fr v = Some t \<Longrightarrow>
    clean scrub sens fr True depth (PStr t)"
| none: "clean scrub sens fr structured depth PNone"
| bool: "clean scrub sens fr structured depth (PBool x)"
| int: "clean scrub sens fr structured depth (PInt i)"
| float: "clean scrub sens fr structured depth (PFloat q)"
| list: "depth \<le> 16 \<Longrightarrow> length xs \<le> 256 \<Longrightarrow> (\<And>x. x \<in> set xs \<Longrightarrow> clean scrub sens fr structured (Suc depth) x) \<Longrightarrow>
    clean scrub sens fr structured depth (PList xs)"
| dict: "depth \<le> 16 \<Longrightarrow> length d \<le> 256 \<Longrightarrow>
    (\<And>k x. (k, x) \<in> set d \<Longrightarrow> \<exists>key. k = PStr key \<and> length key \<le> 128 \<and> scrub key = key) \<Longrightarrow>
    (\<And>key x. (PStr key, x) \<in> set d \<Longrightarrow> sens key \<Longrightarrow> x = PStr REDACTED_VALUE) \<Longrightarrow>
    (\<And>k x. (k, x) \<in> set d \<Longrightarrow> clean scrub sens fr structured (Suc depth) x) \<Longrightarrow>
    clean scrub sens fr structured depth (PDict d)"

inductive_cases clean_dictE: "clean scrub sens fr structured depth (PDict d)"

lemma clean_plain_text: "utf8_len s \<le> 16 * 1024 \<Longrightarrow> clean scrub sens fr structured depth (PStr (plain_text scrub s))"
  by (simp add: plain_text_def marker scrubbed)

definition item_clean :: "(string \<Rightarrow> string) \<Rightarrow> (string \<Rightarrow> bool) \<Rightarrow> (rat \<Rightarrow> string) \<Rightarrow> bool \<Rightarrow> nat \<Rightarrow> pyval \<times> pyval \<Rightarrow> bool" where
  "item_clean scrub sens fr structured depth x \<longleftrightarrow> (\<exists>key. fst x = PStr key \<and> length key \<le> 128 \<and> scrub key = key \<and>
     (sens key \<longrightarrow> snd x = PStr REDACTED_VALUE)) \<and> clean scrub sens fr structured depth (snd x)"

lemma clean_items: "depth \<le> 16 \<Longrightarrow> length d \<le> 256 \<Longrightarrow> list_all (item_clean scrub sens fr structured (Suc depth)) d \<Longrightarrow>
    clean scrub sens fr structured depth (PDict d)"
  by (rule dict) (force simp: list_all_iff item_clean_def)+

lemma clean_values: "depth \<le> 16 \<Longrightarrow> length xs \<le> 256 \<Longrightarrow> list_all (clean scrub sens fr structured (Suc depth)) xs \<Longrightarrow>
    clean scrub sens fr structured depth (PList xs)"
  by (rule list) (auto simp: list_all_iff)

lemma map_sum_Inr: "map_sum id f x = Inr y \<longleftrightarrow> (\<exists>z. x = Inr z \<and> y = f z)"
  by (cases x) auto

lemma visit_clean:
  "visit_value scrub sens loads fr structured depth v s0 = Inr (out, st) \<Longrightarrow>
     clean scrub sens fr structured depth out"
  "visit_list scrub sens loads fr structured depth vs st0 = Inr (outs, st) \<Longrightarrow>
     list_all (clean scrub sens fr structured depth) outs \<and> length outs = length vs"
  "visit_items scrub sens loads fr structured depth d st0 = Inr (items, st) \<Longrightarrow>
     list_all (item_clean scrub sens fr structured depth) items \<and> length items \<le> length d"
proof (induction scrub sens loads fr structured depth v s0 and scrub sens loads fr structured depth vs st0
    and scrub sens loads fr structured depth d st0 arbitrary: out st and outs st and items st
    rule: visit_value_visit_list_visit_items.induct)
  case (1 scrub sens loads fr structured depth v n b)
  show ?case
  proof (cases "4096 < Suc n \<or> 16 < depth")
    case True
    with "1.prems" show ?thesis by (auto simp: visit_value.simps marker split: if_splits)
  next
    case False
    then have go: "\<not> 4096 < Suc n" "\<not> 16 < depth" "depth \<le> 16" by auto
    note r = "1.prems" [unfolded visit_value.simps [of scrub sens loads fr structured depth v n b]]
    show ?thesis
    proof (cases v)
      case (PStr s)
      show ?thesis
      proof (cases "16 * 1024 < utf8_len s")
        case True
        with r go PStr show ?thesis by (auto simp: marker)
      next
        case len: False
        show ?thesis
        proof (cases "nested_json loads structured s")
          case None
          with r go PStr len show ?thesis by (auto simp: clean_plain_text split: if_splits)
        next
          case (Some w)
          then have st: structured by (simp add: nested_json_def split: if_splits)
          from r go PStr len Some obtain u st2 t where u: "256 * 1024 \<ge> b + utf8_len s"
            "visit_value scrub sens loads fr False 0 w (Suc n, b + utf8_len s) = Inr (u, st2)"
            "json_val False True fr u = Some t" "out = PStr t"
            by (auto split: if_splits sum.splits option.splits)
          have "clean scrub sens fr False 0 u" using "1.IH"(1) [OF go(1,2) PStr len _ Some u(2)] u(1) by simp
          from nested [OF this u(3)] st u(4) show ?thesis by simp
        qed
      qed
    next
      case (PList xs)
      with r go obtain ys where "length xs \<le> 256 \<longrightarrow>
          visit_list scrub sens loads fr structured (Suc depth) xs (Suc n, b) = Inr (ys, st) \<and> out = PList ys"
        "256 < length xs \<longrightarrow> out = PStr REDACTED_VALUE"
        by (auto simp: map_sum_Inr split: if_splits)
      with "1.IH"(2) [OF go(1,2) PList] go(3) show ?thesis
        by (cases "256 < length xs") (auto simp: marker intro: clean_values)
    next
      case (PTuple xs)
      with r go obtain ys where "length xs \<le> 256 \<longrightarrow>
          visit_list scrub sens loads fr structured (Suc depth) xs (Suc n, b) = Inr (ys, st) \<and> out = PList ys"
        "256 < length xs \<longrightarrow> out = PStr REDACTED_VALUE"
        by (auto simp: map_sum_Inr split: if_splits)
      with "1.IH"(3) [OF go(1,2) PTuple] go(3) show ?thesis
        by (cases "256 < length xs") (auto simp: marker intro: clean_values)
    next
      case (PDict d)
      with r go obtain ys where "length d \<le> 256 \<longrightarrow>
          visit_items scrub sens loads fr structured (Suc depth) d (Suc n, b) = Inr (ys, st) \<and> out = PDict ys"
        "256 < length d \<longrightarrow> out = PStr REDACTED_VALUE"
        by (auto simp: map_sum_Inr split: if_splits)
      with "1.IH"(4) [OF go(1,2) PDict] go(3) show ?thesis
        by (cases "256 < length d") (auto simp: marker intro: clean_items)
    qed (use r go in \<open>auto intro: none bool int float\<close>)
  qed
next
  case (3 scrub sens loads fr structured depth v vs st)
  then show ?case
    by (fastforce simp: map_sum_Inr split: sum.splits)
next
  case (5 scrub sens loads fr structured depth k v d n b)
  from "5.prems" obtain key where k: "k = PStr key" by (cases k) auto
  let ?st = "(n, b + utf8_len key)"
  let ?head = "if sens key then Inr (PStr REDACTED_VALUE, ?st) else visit_value scrub sens loads fr structured depth v ?st"
  consider (skip) st1 where "visit_items scrub sens loads fr structured depth d st1 = Inr (items, st)"
      "length key \<le> 128 \<longrightarrow> st1 = ?st" "128 < length key \<longrightarrow> st1 = (n, b)" "128 < length key \<or> scrub key \<noteq> key"
      "\<not> 128 < length key \<longrightarrow> \<not> 256 * 1024 < b + utf8_len key"
    | (keep) w st1 rest where "\<not> 128 < length key" "\<not> 256 * 1024 < b + utf8_len key" "scrub key = key" "?head = Inr (w, st1)"
      "visit_items scrub sens loads fr structured depth d st1 = Inr (rest, st)" "items = (k, w) # rest"
    using "5.prems" k by (auto simp: map_sum_Inr split: if_splits sum.splits)
  then show ?case
  proof cases
    case (skip st1)
    then show ?thesis using "5.IH"(1) [OF k, of items st] "5.IH"(2) [OF k, of items st]
      by (cases "128 < length key") auto
  next
    case (keep w st1 rest)
    have rest: "list_all (item_clean scrub sens fr structured depth) rest \<and> length rest \<le> length d"
      using "5.IH"(4) [OF k keep(1,2) _ keep(4) _ keep(5)] keep(3) by auto
    moreover have "item_clean scrub sens fr structured depth (k, w)"
    proof (cases "sens key")
      case True
      with keep k show ?thesis by (auto simp: item_clean_def marker)
    next
      case False
      with keep k "5.IH"(3) [OF k keep(1,2), of w st1] show ?thesis by (auto simp: item_clean_def)
    qed
    ultimately show ?thesis using keep(6) by simp
  qed
qed auto

lemma sanitized_facts:
  assumes "sanitize_telemetry lib loads fr extra v = Inr out"
  shows "clean (scrub_text lib extra) (\<lambda>key. sensitive_key key (all_fields extra)) fr True 0 out \<and>
    (\<exists>n. json_bytes False True fr out = Some n \<and> n \<le> 256 * 1024)"
proof -
  from assms obtain st where "visit_value (scrub_text lib extra) (\<lambda>key. sensitive_key key (all_fields extra)) loads fr
      True 0 v (0, 0) = Inr (out, st)" "\<exists>n. json_bytes False True fr out = Some n \<and> n \<le> 256 * 1024"
    by (auto simp: sanitize_telemetry_def split: if_splits sum.splits option.splits)
  with visit_clean(1) show ?thesis by blast
qed

text \<open>
  C33: What \<open>sanitize_telemetry\<close> returns is clean for the scrubbing and the sensitive keys of the call: every text in
  it is the marker, the scrubbed form of a text of at most 16 KiB or the JSON text of a clean value, the value
  of every sensitive key is the marker, keys are strings that scrubbing leaves alone, depth and widths are
  bounded, and its JSON text has at most 256 KiB.
\<close>

theorem sanitized_clean:
  assumes "sanitize_telemetry lib loads fr extra v = Inr out"
  shows "clean (scrub_text lib extra) (\<lambda>key. sensitive_key key (all_fields extra)) fr True 0 out \<and>
    (\<exists>n. json_bytes False True fr out = Some n \<and> n \<le> 256 * 1024)"
  by (rule sanitized_facts [OF assms])

definition plain_lib :: urllib where
  "plain_lib = \<lparr>lib_unquote = Some, lib_parse_qsl = (\<lambda>q. []), lib_urlencode = (\<lambda>ps. []), lib_bracketed = (\<lambda>n. True)\<rparr>"

lemma hyphen_patterns: "needs (\<lambda>c. c = CHR ''-'') PEM_START" "needs (\<lambda>c. c = CHR ''-'') PEM"
proof -
  have "needs (\<lambda>c. c = CHR ''-'') (LitI ''-----BEGIN '')" by (rule needs_LitI [of "CHR ''-''"]) simp_all
  then show "needs (\<lambda>c. c = CHR ''-'') PEM_START" by (simp add: PEM_START_def)
  then show "needs (\<lambda>c. c = CHR ''-'') PEM" by (simp add: PEM_def)
qed

lemma colon_patterns: "needs (\<lambda>c. c = CHR '':'') HEADER_REST" "needs (\<lambda>c. c = CHR '':'') URL"
proof -
  show "needs (\<lambda>c. c = CHR '':'') HEADER_REST" by (simp add: HEADER_REST_def Lit_def)
  have "needs (\<lambda>c. c = CHR '':'') (LitI ''://'')" by (rule needs_LitI [of "CHR '':''"]) simp_all
  then show "needs (\<lambda>c. c = CHR '':'') URL" by (simp add: URL_def)
qed

lemma other_patterns: "needs is_space BEARER_REST" "needs (\<lambda>c. c = CHR ''_'') TOKEN" "needs (\<lambda>c. c = CHR ''%'') ENCODED_LABEL"
  "needs (\<lambda>c. c = CHR '':'' \<or> c = CHR ''='') (label_of names)" "needs is_digit CARD"
  by (simp_all add: BEARER_REST_def Plus_def TOKEN_def Lit_def ENCODED_LABEL_def label_of_def separator_def CARD_def)

lemma label_subs_no_match:
  "lacks (\<lambda>c. c = CHR '':'' \<or> c = CHR ''='') t \<Longrightarrow> fold (\<lambda>field. re_sub (label_of [field]) assigned repl) extra t = t"
  by (induction extra) (simp_all add: needs_no_sub [OF disjI1 [OF other_patterns(4)]])

lemma plain_text_kept:
  assumes "lacks (\<lambda>c. c \<in> set '':=-_%'' \<or> is_space c \<or> is_digit c) t"
  shows "scrub_text lib extra t = t"
proof -
  have l: "lacks (\<lambda>c. c = CHR ''-'') t" "lacks (\<lambda>c. c = CHR '':'') t" "lacks is_space t" "lacks (\<lambda>c. c = CHR ''_'') t"
    "lacks (\<lambda>c. c = CHR '':'' \<or> c = CHR ''='') t" "lacks is_digit t" "lacks (\<lambda>c. c = CHR ''%'') t"
    using assms by auto
  have "decoded_text lib t = Some t"
    using needs_no_search [OF hyphen_patterns(1) l(1)] needs_no_search [OF other_patterns(3) l(7)]
    by (simp add: decoded_text_def)
  moreover have "scrub_patterns extra t = t"
    using needs_no_sub [OF disjI2 [OF hyphen_patterns(2)] l(1)] needs_no_sub [OF disjI2 [OF colon_patterns(1)] l(2)]
      needs_no_sub [OF disjI2 [OF other_patterns(1)] l(3)] needs_no_sub [OF disjI2 [OF other_patterns(2)] l(4)]
      needs_no_sub [OF disjI1 [OF other_patterns(4)] l(5)] label_subs_no_match [OF l(5)]
      needs_no_sub [OF disjI2 [OF other_patterns(5)] l(6)]
    by (simp add: scrub_patterns_def scrub_cards_def)
  ultimately show ?thesis using needs_no_sub [OF disjI2 [OF colon_patterns(2)] l(2)] by (simp add: scrub_text_def)
qed

lemma only_cards_scrubbed:
  assumes "lacks (\<lambda>c. c \<in> set '':=-_%'' \<or> is_space c) t" "lacks (\<lambda>c. c = CHR '':'') (scrub_cards t)"
  shows "scrub_text lib extra t = scrub_cards t"
proof -
  have l: "lacks (\<lambda>c. c = CHR ''-'') t" "lacks (\<lambda>c. c = CHR '':'') t" "lacks is_space t" "lacks (\<lambda>c. c = CHR ''_'') t"
    "lacks (\<lambda>c. c = CHR '':'' \<or> c = CHR ''='') t" "lacks (\<lambda>c. c = CHR ''%'') t"
    using assms(1) by auto
  have "decoded_text lib t = Some t"
    using needs_no_search [OF hyphen_patterns(1) l(1)] needs_no_search [OF other_patterns(3) l(6)]
    by (simp add: decoded_text_def)
  moreover have "scrub_patterns extra t = scrub_cards t"
    using needs_no_sub [OF disjI2 [OF hyphen_patterns(2)] l(1)] needs_no_sub [OF disjI2 [OF colon_patterns(1)] l(2)]
      needs_no_sub [OF disjI2 [OF other_patterns(1)] l(3)] needs_no_sub [OF disjI2 [OF other_patterns(2)] l(4)]
      needs_no_sub [OF disjI1 [OF other_patterns(4)] l(5)] label_subs_no_match [OF l(5)]
    by (simp add: scrub_patterns_def)
  ultimately show ?thesis using needs_no_sub [OF disjI2 [OF colon_patterns(2)] assms(2)] by (simp add: scrub_text_def)
qed

theorem sanitized_clean_witness:
  "\<exists>out. sanitize_telemetry plain_lib (\<lambda>s. None) (\<lambda>q. []) []
      (PDict [(PStr ''pin'', PInt 7)]) = Inr out \<and>
    out = PDict [(PStr ''pin'', PStr REDACTED_VALUE)] \<and>
    clean (scrub_text plain_lib []) (\<lambda>key. sensitive_key key (all_fields [])) (\<lambda>q. []) True 0 out"
proof -
  have "scrub_text plain_lib [] ''pin'' = ''pin''" by (rule plain_text_kept) (simp add: is_space_def is_digit_def)
  moreover have "sensitive_key ''pin'' (all_fields [])"
  proof -
    have "segments_of (str_lower (camel_split (str_strip ''pin''))) = [''pin'']" by code_simp
    moreover have "''pin'' \<in> (\<lambda>f. filter lower_or_digit (str_lower f)) ` set (all_fields [])"
      by (rule image_eqI [of _ _ "''pin''"]) (code_simp, simp add: all_fields_def MANDATORY_FIELDS_def)
    ultimately show ?thesis by (simp add: sensitive_key_def)
  qed
  ultimately have "sanitize_telemetry plain_lib (\<lambda>s. None) (\<lambda>q. []) []
      (PDict [(PStr ''pin'', PInt 7)]) =
      Inr (PDict [(PStr ''pin'', PStr REDACTED_VALUE)])"
    by (simp add: sanitize_telemetry_def visit_value.simps json_bytes_def json_str_def json_char_def REDACTED_VALUE_def
        dec_int_def dec_nat.simps)
  from sanitized_clean [OF this] this show ?thesis by blast
qed

subsection \<open>Words as keys\<close>

abbreviation word :: "string \<Rightarrow> bool" where
  "word s \<equiv> s \<noteq> [] \<and> (\<forall>c \<in> set s. 97 \<le> ord_of c \<and> ord_of c \<le> 122)"

lemma word_strip: "word s \<Longrightarrow> str_strip s = s"
proof -
  assume w: "word s"
  then have ns: "\<not> is_space c" if "c \<in> set s" for c using that by (force simp: is_space_def)
  then have "dropWhile is_space s = s" "dropWhile is_space (rev s) = rev s"
    using w by (simp_all add: dropWhile_eq_self_iff hd_rev)
  then show ?thesis by (simp add: str_strip_def)
qed

lemma word_lower: "word s \<Longrightarrow> str_lower s = s"
  by (auto simp: str_lower_def lower_char_def intro!: map_idI)

lemma word_segments: "word s \<Longrightarrow> segments_of s = [s]"
proof -
  assume w: "word s"
  then have l: "\<forall>c \<in> set s. lower_or_digit c" by (simp add: lower_or_digit_def)
  with w have d: "dropWhile (\<lambda>c. \<not> lower_or_digit c) s = s" by (simp add: dropWhile_eq_self_iff)
  have t: "takeWhile lower_or_digit s = s" "dropWhile lower_or_digit s = []" using l by simp_all
  have n: "segments_of [] = []" by (subst segments_of.simps) simp
  have "s \<noteq> []" using w by blast
  then show ?thesis by (subst segments_of.simps) (simp only: Let_def d t n if_False)
qed

lemma word_camel: "word s \<Longrightarrow> camel_split s = s"
  unfolding camel_split_def by (rule needs_no_sub [of upper_ascii]) (auto simp: upper_ascii_def)

lemma word_sensitive:
  "word k \<Longrightarrow> sensitive_key k names \<longleftrightarrow> k \<in> set (map (\<lambda>f. filter lower_or_digit (str_lower f)) names)"
  by (simp add: sensitive_key_def word_strip word_camel word_lower word_segments)

lemma word_kept: "word s \<Longrightarrow> scrub_text lib extra s = s"
  by (rule plain_text_kept) (force simp: is_space_def is_digit_def)

lemma canonical_fields:
  "map (\<lambda>f. filter lower_or_digit (str_lower f)) (all_fields []) =
    [''authorization'', ''cookie'', ''creditcard'', ''password'', ''secret'', ''ssn'', ''token'', ''apikey'', ''apikey'', ''accesstoken'',
     ''refreshtoken'', ''privatekey'', ''bearer'', ''sessionid'', ''passwd'', ''cardnumber'', ''cvv'', ''cvc'', ''pin'', ''expiry'', ''phone'',
     ''otp'', ''verificationcode'']"
  by code_simp

lemma sanitize_text:
  "scrub_text lib extra s = s \<Longrightarrow> \<not> opens_json s \<Longrightarrow> utf8_len s \<le> 1000 \<Longrightarrow> utf8_len (json_str False s) \<le> 1000 \<Longrightarrow>
   length extra \<le> 128 \<Longrightarrow> \<not> list_ex (\<lambda>f. f = [] \<or> 64 < length f) extra \<Longrightarrow>
   sanitize_telemetry lib loads fr extra (PStr s) = Inr (PStr s)"
  by (simp add: sanitize_telemetry_def visit_value.simps nested_json_def plain_text_def json_bytes_def)

subsection \<open>Card numbers\<close>

abbreviation luhn_digit :: "nat \<Rightarrow> nat \<Rightarrow> nat" where
  "luhn_digit i d \<equiv> (if odd i then (if 9 < 2 * d then 2 * d - 9 else 2 * d) else d)"

lemma luhn_sum_append: "luhn_sum i (xs @ ys) = luhn_sum i xs + luhn_sum (i + length xs) ys"
  by (induction i xs rule: luhn_sum.induct) auto

lemma luhn_digit_less: "d < 10 \<Longrightarrow> luhn_digit i d < 10"
  by auto

lemma luhn_digit_inj: "d < 10 \<Longrightarrow> e < 10 \<Longrightarrow> luhn_digit i d = luhn_digit i e \<Longrightarrow> d = e"
  by (auto split: if_splits) presburger+

lemma digit_value: "is_digit c \<Longrightarrow> ord_of c - 48 < 10"
  by (auto simp: is_digit_def)

lemma digit_value_inj: "is_digit c \<Longrightarrow> is_digit c' \<Longrightarrow> ord_of c - 48 = ord_of c' - 48 \<Longrightarrow> c = c'"
  by (metis is_digit_def eq_diff_iff of_char_eq_iff)

text \<open>The checksum of a text.\<close>

definition checksum :: "string \<Rightarrow> nat" where
  "checksum s = luhn_sum 0 (map (\<lambda>c. ord_of c - 48) (rev (filter is_digit s)))"

lemma luhn_checksum: "luhn s \<Longrightarrow> checksum s mod 10 = 0"
  by (simp add: luhn_def checksum_def Let_def)

lemma checksum_split:
  "\<exists>k i. \<forall>c. is_digit c \<longrightarrow> checksum (a @ c # t) = k + luhn_digit i (ord_of c - 48)"
proof -
  let ?t = "map (\<lambda>c. ord_of c - 48) (rev (filter is_digit t))"
  let ?a = "map (\<lambda>c. ord_of c - 48) (rev (filter is_digit a))"
  show ?thesis
    by (intro exI [of _ "luhn_sum 0 ?t + luhn_sum (Suc (length ?t)) ?a"] exI [of _ "length ?t"])
      (simp add: checksum_def luhn_sum_append)
qed

lemma checksum_split_two:
  "\<exists>k i. \<forall>c c'. is_digit c \<longrightarrow> is_digit c' \<longrightarrow> checksum (a @ c # c' # t) =
     k + (luhn_digit i (ord_of c' - 48) + luhn_digit (Suc i) (ord_of c - 48))"
proof -
  let ?t = "map (\<lambda>c. ord_of c - 48) (rev (filter is_digit t))"
  let ?a = "map (\<lambda>c. ord_of c - 48) (rev (filter is_digit a))"
  show ?thesis
    by (intro exI [of _ "luhn_sum 0 ?t + luhn_sum (Suc (Suc (length ?t))) ?a"] exI [of _ "length ?t"])
      (simp add: checksum_def luhn_sum_append)
qed

lemma nat_mod_cancel:
  assumes "(k + d) mod n = (k + e) mod (n::nat)"
  shows "d mod n = e mod n"
proof (cases "d \<le> e")
  case True
  then have "n dvd e - d" using assms mod_eq_dvd_iff_nat [of "k + d" "k + e" n] by simp
  then show ?thesis using mod_eq_dvd_iff_nat [OF True, of n] by simp
next
  case False
  then have "n dvd d - e" using assms mod_eq_dvd_iff_nat [of "k + e" "k + d" n] by simp
  then show ?thesis using mod_eq_dvd_iff_nat [of e d n] False by simp
qed

lemma luhn_swap:
  fixes d e :: nat
  defines "w \<equiv> \<lambda>d :: nat. if 9 < 2 * d then 2 * d - 9 else 2 * d"
  assumes "d < 10" "e < 10" "(w d + e) mod 10 = (w e + d) mod 10"
  shows "d = e \<or> d = 0 \<and> e = 9 \<or> d = 9 \<and> e = 0"
proof -
  let ?f = "\<lambda>d. int (w d) - int d"
  have "int (w d + e) mod 10 = int (w e + d) mod 10" using arg_cong [OF assms(4), of int] by (simp only: zmod_int of_nat_numeral)
  then have "10 dvd int (w d + e) - int (w e + d)" by (simp add: mod_eq_dvd_iff)
  then have "10 dvd ?f d - ?f e" by (simp add: algebra_simps)
  moreover have "-4 \<le> ?f d" "?f d \<le> 4" "-4 \<le> ?f e" "?f e \<le> 4" using assms(2,3) by (auto simp: w_def)
  ultimately have "?f d = ?f e" by presburger
  with assms(2,3) show ?thesis by (auto simp: w_def split: if_splits)
qed

lemma checksum_change:
  assumes "is_digit c" "is_digit c'" "c \<noteq> c'" "checksum (a @ c # t) mod 10 = 0"
  shows "checksum (a @ c' # t) mod 10 \<noteq> 0"
proof
  assume z: "checksum (a @ c' # t) mod 10 = 0"
  obtain k i where k: "\<And>c. is_digit c \<Longrightarrow> checksum (a @ c # t) = k + luhn_digit i (ord_of c - 48)"
    using checksum_split by blast
  let ?d = "luhn_digit i (ord_of c - 48)" and ?e = "luhn_digit i (ord_of c' - 48)"
  have b: "?d < 10" "?e < 10" using luhn_digit_less digit_value assms(1,2) by blast+
  have "checksum (a @ c # t) mod 10 = checksum (a @ c' # t) mod 10" by (rule trans [OF assms(4) sym [OF z]])
  then have "(k + ?d) mod 10 = (k + ?e) mod 10" by (simp only: k [OF assms(1)] k [OF assms(2)])
  then have "?d mod 10 = ?e mod 10" by (rule nat_mod_cancel)
  with b have "?d = ?e" by (simp only: mod_less)
  with luhn_digit_inj [OF digit_value digit_value, OF assms(1,2)] digit_value_inj [OF assms(1,2)] assms(3) show False
    by blast
qed

lemma luhn_swap_digits:
  assumes "d < 10" "e < 10"
    and "(luhn_digit i e + luhn_digit (Suc i) d) mod 10 = (luhn_digit i d + luhn_digit (Suc i) e) mod 10"
  shows "d = e \<or> d = 0 \<and> e = 9 \<or> d = 9 \<and> e = 0"
proof (cases "even i")
  case True
  with assms(3) show ?thesis by (intro luhn_swap [OF assms(1,2)]) (simp only: even_Suc not_not not_True_eq_False not_False_eq_True if_True if_False add.commute [of e] add.commute [of d])
next
  case False
  with assms(3) have "e = d \<or> e = 0 \<and> d = 9 \<or> e = 9 \<and> d = 0"
    by (intro luhn_swap [OF assms(2,1)]) (simp only: even_Suc not_not not_True_eq_False not_False_eq_True if_True if_False)
  then show ?thesis by blast
qed

lemma checksum_swap:
  assumes "is_digit c" "is_digit c'" "c \<noteq> c'" "{c, c'} \<noteq> {CHR ''0'', CHR ''9''}" "checksum (a @ c # c' # t) mod 10 = 0"
  shows "checksum (a @ c' # c # t) mod 10 \<noteq> 0"
proof
  assume z: "checksum (a @ c' # c # t) mod 10 = 0"
  let ?v = "\<lambda>c. ord_of c - 48"
  obtain k i where k: "\<And>c c'. is_digit c \<Longrightarrow> is_digit c' \<Longrightarrow>
      checksum (a @ c # c' # t) = k + (luhn_digit i (?v c') + luhn_digit (Suc i) (?v c))"
    using checksum_split_two by blast
  have "checksum (a @ c # c' # t) mod 10 = checksum (a @ c' # c # t) mod 10" by (rule trans [OF assms(5) sym [OF z]])
  then have "(k + (luhn_digit i (?v c') + luhn_digit (Suc i) (?v c))) mod 10 =
      (k + (luhn_digit i (?v c) + luhn_digit (Suc i) (?v c'))) mod 10"
    by (simp only: k [OF assms(1,2)] k [OF assms(2,1)])
  from nat_mod_cancel [OF this] have "?v c = ?v c' \<or> ?v c = 0 \<and> ?v c' = 9 \<or> ?v c = 9 \<and> ?v c' = 0"
    by (rule luhn_swap_digits [OF digit_value [OF assms(1)] digit_value [OF assms(2)]])
  then show False
  proof (elim disjE)
    assume "?v c = ?v c'"
    with digit_value_inj assms(1-3) show False by blast
  next
    assume v: "?v c = 0 \<and> ?v c' = 9"
    have "c = CHR ''0''" "c' = CHR ''9''"
      by (rule digit_value_inj; use assms(1,2) v in \<open>simp add: is_digit_def\<close>)+
    with assms(4) show False by simp
  next
    assume v: "?v c = 9 \<and> ?v c' = 0"
    have "c = CHR ''9''" "c' = CHR ''0''"
      by (rule digit_value_inj; use assms(1,2) v in \<open>simp add: is_digit_def\<close>)+
    with assms(4) show False by auto
  qed
qed

text \<open>
  The checksum that decides whether a run of digits is a card number catches every single wrong digit and
  every swap of two neighbouring digits other than 0 and 9: when a text with separators passes, the text with
  that change does not.
\<close>

theorem luhn_detects_typos:
  assumes "is_digit c" "is_digit c'" "c \<noteq> c'"
  shows "(luhn (a @ c # t) \<longrightarrow> \<not> luhn (a @ c' # t)) \<and>
    ({c, c'} \<noteq> {CHR ''0'', CHR ''9''} \<longrightarrow> luhn (a @ c # c' # t) \<longrightarrow> \<not> luhn (a @ c' # c # t))"
proof (intro conjI impI notI)
  show False if "luhn (a @ c # t)" "luhn (a @ c' # t)"
    using checksum_change [OF assms luhn_checksum [OF that(1)]] luhn_checksum [OF that(2)] by contradiction
  show False if "{c, c'} \<noteq> {CHR ''0'', CHR ''9''}" "luhn (a @ c # c' # t)" "luhn (a @ c' # c # t)"
    using checksum_swap [OF assms that(1) luhn_checksum [OF that(2)]] luhn_checksum [OF that(3)] by contradiction
qed

theorem luhn_detects_typos_witness:
  "luhn ''4111 1111 1111 1111'' \<and> \<not> luhn ''4111 1111 1111 1112'' \<and> \<not> luhn ''1411 1111 1111 1111''"
proof (intro conjI)
  show l: "luhn ''4111 1111 1111 1111''" by (simp add: luhn_def is_digit_def Let_def)
  show "\<not> luhn ''4111 1111 1111 1112''"
    using luhn_detects_typos [of "CHR ''1''" "CHR ''2''" "''4111 1111 1111 111''" "[]"] l by (simp add: is_digit_def)
  show "\<not> luhn ''1411 1111 1111 1111''"
    using luhn_detects_typos [of "CHR ''4''" "CHR ''1''" "[]" "''11 1111 1111 1111''"] l
    by (simp add: is_digit_def doubleton_eq_iff)
qed

subsection \<open>A card number in a text\<close>

abbreviation no_digits :: "string \<Rightarrow> bool" where
  "no_digits \<equiv> lacks is_digit"

definition card_unit :: rx where
  "card_unit = Cat (One is_digit) (Opt (One (\<lambda>c. c = CHR '' '' \<or> c = CHR ''-'')))"

definition card_end :: rx where
  "card_end = Cat (One is_digit) (NotAhead card_border)"

lemma CARD_eq: "CARD = Cat (NotBehind card_border) (Cat (Rep 12 6 card_unit) card_end)"
  by (simp add: CARD_def card_unit_def card_end_def)

lemma separator_no_digit: "is_digit c \<Longrightarrow> \<not> (c = CHR '' '' \<or> c = CHR ''-'')"
  by (auto simp: is_digit_def)

text \<open>Before another digit a unit is one digit; the last digit may take a separator with it.\<close>

lemma unit_inside: "is_digit c \<Longrightarrow> is_digit c' \<Longrightarrow> ends card_unit (b, c # c' # s) = [(Some c, c' # s)]"
  using separator_no_digit by (simp add: card_unit_def Opt_def)

lemma unit_last: "is_digit c \<Longrightarrow> no_digits s \<Longrightarrow> q \<in> set (ends card_unit (b, c # s)) \<Longrightarrow> no_digits (snd q)"
  by (cases s) (auto simp: card_unit_def Opt_def)

lemma unit_none: "no_digits (snd p) \<Longrightarrow> ends card_unit p = []"
  by (rule needs_no_match [of is_digit]) (simp_all add: card_unit_def)

lemma end_none: "no_digits (snd p) \<Longrightarrow> ends card_end p = []"
  by (rule needs_no_match [of is_digit]) (simp_all add: card_end_def)

abbreviation tails :: "nat \<Rightarrow> pos \<Rightarrow> pos list" where
  "tails k p \<equiv> concat (map (ends card_end) (many_ends k (ends card_unit) p))"

lemma tails_none: "no_digits (snd p) \<Longrightarrow> tails k p = []"
  by (cases k) (simp_all add: unit_none end_none)

lemma end_here: "is_digit c \<Longrightarrow> post = [] \<or> \<not> card_border (hd post) \<Longrightarrow> ends card_end (b, c # post) = [(Some c, post)]"
  by (cases post) (simp_all add: card_end_def)

lemma tails_first:
  assumes "list_all is_digit ds" "ds \<noteq> []" "length ds \<le> Suc k" "no_digits post" "post = [] \<or> \<not> card_border (hd post)"
  shows "\<exists>rest. tails k (b, ds @ post) = (Some (last ds), post) # rest"
  using assms(1-3)
proof (induction k arbitrary: ds b)
  case 0
  then obtain c where "ds = [c]" by (cases ds) auto
  with 0 assms(5) end_here show ?case by simp
next
  case (Suc k)
  obtain c t where ds: "ds = c # t" using Suc.prems(2) by (cases ds) auto
  show ?case
  proof (cases t)
    case Nil
    have "tails k q = []" if "q \<in> set (ends card_unit (b, c # post))" for q
      using tails_none [OF unit_last [OF _ assms(4) that]] Suc.prems(1) ds by simp
    then have "concat (map (ends card_end) (concat (map (many_ends k (ends card_unit))
        (filter (\<lambda>q. length (snd q) < Suc (length post)) (ends card_unit (b, c # post)))))) = []"
      by (auto simp: concat_eq_Nil_conv simp del: split_paired_All)
    with Nil ds Suc.prems(1) end_here [OF _ assms(5)] show ?thesis by (simp del: concat_eq_Nil_conv)
  next
    case (Cons c' u)
    with Suc.prems ds have "\<exists>rest. tails k (Some c, t @ post) = (Some (last t), post) # rest"
      by (intro Suc.IH) auto
    then obtain rest where "tails k (Some c, t @ post) = (Some (last t), post) # rest" by blast
    with Cons ds Suc.prems(1) unit_inside [of c c' b "u @ post"] show ?thesis by simp
  qed
qed

lemma units_inside:
  "list_all is_digit ds \<Longrightarrow> n < length ds \<Longrightarrow>
   times_ends n (ends card_unit) (b, ds @ post) = [(if n = 0 then b else Some (ds ! (n - 1)), drop n ds @ post)]"
proof (induction n arbitrary: b ds)
  case (Suc n)
  obtain c c' u where ds: "ds = c # c' # u" using Suc.prems(2) by (cases ds; cases "tl ds") auto
  with Suc.prems Suc.IH [of "c' # u" "Some c"] unit_inside [of c c' b "u @ post"] show ?case
    by (cases n) auto
qed simp

lemma card_first:
  assumes "list_all is_digit ds" "13 \<le> length ds" "length ds \<le> 19" "no_digits post"
    and "post = [] \<or> \<not> card_border (hd post)" "b = None \<or> (\<exists>c. b = Some c \<and> \<not> card_border c)"
  shows "\<exists>rest. ends CARD (b, ds @ post) = (Some (last ds), post) # rest"
proof -
  let ?d = "drop 12 ds"
  have d: "list_all is_digit ?d" "?d \<noteq> []" "length ?d \<le> Suc 6" "last ?d = last ds"
    using assms(1-3) by (auto simp: list_all_iff dest: in_set_dropD)
  from tails_first [OF d(1-3) assms(4,5)] obtain rest where
    "tails 6 (Some (ds ! 11), ?d @ post) = (Some (last ds), post) # rest" using d(4) by metis
  moreover have "times_ends 12 (ends card_unit) (b, ds @ post) = [(Some (ds ! 11), ?d @ post)]"
    using units_inside [of ds 12 b post] assms(1,2) by simp
  moreover have "ends (NotBehind card_border) (b, ds @ post) = [(b, ds @ post)]" using assms(6) by auto
  ultimately show ?thesis by (simp add: CARD_eq del: times_ends.simps many_ends.simps)
qed

lemma match_first: "ends keep p = [q] \<Longrightarrow> ends gone q = e # rest \<Longrightarrow> match_at keep gone p = Some (q, e)"
  by (simp add: match_at_def)

lemma sub_skip: "ends (Cat keep gone) (b, c # s) = [] \<Longrightarrow>
    sub_from keep gone repl (b, c # s) = c # sub_from keep gone repl (Some c, s)"
  using match_at_None [of keep gone "(b, c # s)"] by (subst sub_from.simps) simp

lemma no_card_here: "\<not> is_digit c \<Longrightarrow> ends CARD (b, c # s) = []"
proof -
  assume c: "\<not> is_digit c"
  then have "ends card_unit (b, c # s) = []" by (simp add: card_unit_def)
  then have "times_ends 12 (ends card_unit) (b, c # s) = []" by (rule times_ends_Nil) simp
  then show ?thesis by (simp add: CARD_eq)
qed

lemma card_skip:
  "no_digits pre \<Longrightarrow> sub_from Eps CARD repl (b, pre @ s) = pre @ sub_from Eps CARD repl (if pre = [] then b else Some (last pre), s)"
  by (induction pre arbitrary: b) (auto simp: sub_skip no_card_here)

lemma card_facts:
  assumes "list_all is_digit ds" "13 \<le> length ds" "length ds \<le> 19" "no_digits pre" "no_digits post"
    and "pre = [] \<or> \<not> card_border (last pre)" "post = [] \<or> \<not> card_border (hd post)"
  shows "scrub_cards (pre @ ds @ post) = pre @ (if luhn ds then REDACTED_VALUE else ds) @ post"
proof -
  let ?repl = "\<lambda>m. if luhn m then REDACTED_VALUE else m"
  let ?b = "if pre = [] then None else Some (last pre)"
  have "?b = None \<or> (\<exists>c. ?b = Some c \<and> \<not> card_border c)" using assms(6) by auto
  from card_first [OF assms(1-3,5,7) this] obtain rest where
    "ends CARD (?b, ds @ post) = (Some (last ds), post) # rest" by blast
  then have "match_at Eps CARD (?b, ds @ post) = Some ((?b, ds @ post), (Some (last ds), post))"
    by (rule match_first [rotated]) simp
  moreover have "ds \<noteq> []" using assms(2) by auto
  ultimately have "sub_from Eps CARD ?repl (?b, ds @ post) = ?repl ds @ sub_from Eps CARD ?repl (Some (last ds), post)"
    by (subst sub_from.simps) (simp add: consumed_def)
  moreover have "sub_from Eps CARD ?repl (Some (last ds), post) = post"
    by (rule sub_from_no_match, rule needs_no_search [of is_digit]) (use other_patterns(5) assms(5) in simp_all)
  ultimately show ?thesis using card_skip [OF assms(4), of ?repl None "ds @ post"]
    by (simp add: scrub_cards_def re_sub_def)
qed



subsection \<open>Redacting by name\<close>

text \<open>No entry under a key with a given name, at any depth, has a value other than the marker.\<close>

fun redacted :: "string set \<Rightarrow> pyval \<Rightarrow> bool" where
  "redacted names (PDict d) = (\<forall>(k, v) \<in> set d. \<exists>key. k = PStr key \<and>
     (if str_lower key \<in> names then v = PStr REDACTED_VALUE else redacted names v))"
| "redacted names (PList xs) = (\<forall>v \<in> set xs. redacted names v)"
| "redacted names (PTuple xs) = False"
| "redacted names v = True"

lemma redact_facts:
  "redact_value names v = Some w \<Longrightarrow> redacted names w \<and> redact_value names w = Some w"
  "redact_list names vs = Some ws \<Longrightarrow> (\<forall>w \<in> set ws. redacted names w) \<and> redact_list names ws = Some ws"
  "redact_items names d = Some d' \<Longrightarrow> redacted names (PDict d') \<and> redact_items names d' = Some d' \<and> map fst d' = map fst d"
proof (induction names v and names vs and names d arbitrary: w and ws and d' rule: redact_value_redact_list_redact_items.induct)
  case (8 names k v d)
  from "8.prems" obtain key where k: "k = PStr key" by (cases k) auto
  let ?head = "if str_lower key \<in> names then Some (PStr REDACTED_VALUE) else redact_value names v"
  from "8.prems" k obtain x z where x: "?head = Some x" "redact_items names d = Some z" "d' = (PStr key, x) # z"
    by (auto split: option.splits)
  have "if str_lower key \<in> names then x = PStr REDACTED_VALUE else redacted names x \<and> redact_value names x = Some x"
    using x(1) "8.IH"(1) [OF k] by (simp split: if_splits)
  with k x "8.IH"(2) [OF k x(1,2)] show ?case by (auto split: if_splits)
qed (auto split: option.splits)

text \<open>
  \<open>redact_value\<close> leaves no value other than the marker under any of the given names at any depth, keeps the keys
  of a dictionary and their order, and redacting its result once more changes nothing.
\<close>

theorem redact_value_complete:
  assumes "redact_value names v = Some w"
  shows "redacted names w \<and> redact_value names w = Some w \<and>
    (\<forall>d. v = PDict d \<longrightarrow> (\<exists>d'. w = PDict d' \<and> map fst d' = map fst d))"
  using redact_facts(1) [OF assms] assms redact_facts(3) by auto

theorem redact_value_complete_witness:
  "redact_value {''token''} (PDict [(PStr ''Token'', PInt 5)]) = Some (PDict [(PStr ''Token'', PStr REDACTED_VALUE)]) \<and>
    redacted {''token''} (PDict [(PStr ''Token'', PStr REDACTED_VALUE)])"
proof -
  have r: "redact_value {''token''} (PDict [(PStr ''Token'', PInt 5)]) = Some (PDict [(PStr ''Token'', PStr REDACTED_VALUE)])"
    by code_simp
  with redact_value_complete [OF this] show ?thesis by blast
qed

end
