(* ===== verification/Relay_Delivery_Facts.thy ===== *)
theory Relay_Delivery_Facts
  imports Relay_Delivery
begin

text \<open>
  What forwarding guarantees: what is fully was accepted event by event, no request carries evidence
  its destination has not proved to read, and an event the relay prepared can always be sent.
\<close>

subsection \<open>Requests and their evidence\<close>

lemma forwardable_idem:
  assumes "forwardable fs v = Some w"
  shows "forwardable fs w = Some w"
proof -
  from assms obtain e where v: "v = PDict e" by (auto simp: forwardable_def split: pyval.splits)
  show ?thesis
  proof (cases "dgetn e ''event_type'' = PStr ''analytics_event''")
    case True
    with assms v have "w = PDict e" by (simp add: forwardable_def del: strip_unsupported.simps)
    with True show ?thesis by (simp add: forwardable_def)
  next
    case False
    with assms v have st: "strip_unsupported (PDict e) fs = Some w"
      by (simp add: forwardable_def del: strip_unsupported.simps)
    from strip_facts [OF st] have w: "strip_unsupported w fs = Some w" by (rule conjunct1)
    have "\<exists>e'. w = PDict e' \<and> dget e' ''event_type'' = dget e ''event_type''"
      using strip_facts [OF st, THEN conjunct2] by (cases "one_str (dgetn e ''event_type'') [''diagnostic_context'']") force+
    then obtain e' where e': "w = PDict e'" "dget e' ''event_type'' = dget e ''event_type''" by blast
    with False have "dgetn e' ''event_type'' \<noteq> PStr ''analytics_event''" by (simp add: dgetn_def)
    with e' w show ?thesis by (simp add: forwardable_def del: strip_unsupported.simps)
  qed
qed

lemma select_batch_forwardable:
  "select_batch fs vs = Some ws \<Longrightarrow> length ws = length vs \<and> (\<forall>w \<in> set ws. forwardable fs w = Some w)"
  by (induction vs arbitrary: ws) (auto split: option.splits dest: forwardable_idem)

lemma relay_retries_forwardable:
  "relay_retries fs events errors = Some ws \<Longrightarrow> \<forall>w \<in> set ws. forwardable fs w = Some w"
proof (induction errors arbitrary: ws)
  case (Cons x errors)
  obtain index reason where x: "x = (index, reason)" by (cases x)
  let ?o = "events ! nat index"
  let ?kind = "case ?o of PDict d \<Rightarrow> dgetn d ''event_type'' | _ \<Rightarrow> PNone"
  from Cons.prems x obtain rest where rest: "relay_retries fs events errors = Some rest"
    and ws: "ws = rest \<or> (\<exists>r. ?kind = PStr ''frontend_exception'' \<and> strip_unsupported ?o fs = Some r \<and> ws = r # rest)"
    by (auto simp: Let_def simp del: strip_unsupported.simps split: if_splits option.splits)
  from ws show ?case
  proof
    assume "\<exists>r. ?kind = PStr ''frontend_exception'' \<and> strip_unsupported ?o fs = Some r \<and> ws = r # rest"
    then obtain r where r: "?kind = PStr ''frontend_exception''" "strip_unsupported ?o fs = Some r" "ws = r # rest" by blast
    then have "forwardable fs ?o = Some r" by (auto simp: forwardable_def simp del: strip_unsupported.simps split: pyval.splits)
    then show ?case using forwardable_idem r(3) Cons.IH [OF rest] by auto
  qed (use Cons.IH [OF rest] in simp)
qed simp

lemma forwardable_shape:
  "forwardable fs w = Some w \<Longrightarrow>
   \<exists>e. w = PDict e \<and> (dgetn e ''event_type'' = PStr ''analytics_event'' \<or> strip_unsupported w fs = Some w)"
  by (auto simp: forwardable_def simp del: strip_unsupported.simps split: pyval.splits if_splits)

lemma chunks_concat: "chunks fr events = Inr cs \<Longrightarrow> concat cs = events"
proof (induction fr events arbitrary: cs rule: chunks.induct)
  case (1 fr events)
  show ?case
  proof (cases "events = []")
    case False
    with "1.prems" obtain selected rest where w: "wire_prefix fr events = Inr selected" "selected \<noteq> []"
      "chunks fr (drop (length selected) events) = Inr rest" "cs = selected # rest"
      by (subst (asm) chunks.simps) (auto split: sum.splits if_splits)
    then obtain n where "selected = take n events" by (auto simp: wire_prefix_def split: sum.splits)
    then have "events = selected @ drop (length selected) events" by (simp add: min_def)
    with "1.IH" [OF False w(1,2,3)] w(4) show ?thesis by simp
  qed (use "1.prems" in \<open>simp add: chunks.simps\<close>)
qed

text \<open>What a run adds to the trace of requests.\<close>

definition proved :: "(string list \<times> pyval list \<times> TransportResponse option) list \<Rightarrow> bool" where
  "proved tr \<longleftrightarrow> (\<forall>(fs, batch, r) \<in> set tr. \<forall>w \<in> set batch. forwardable fs w = Some w)"

fun accepted_of :: "string list \<times> pyval list \<times> TransportResponse option \<Rightarrow> int" where
  "accepted_of (fs, batch, None) = 0"
| "accepted_of (fs, batch, Some r) = (case decide_acknowledgement (body r) (int (length batch)) True of
     Acknowledged a _ _ \<Rightarrow> a | _ \<Rightarrow> 0)"

abbreviation accepted_total :: "(string list \<times> pyval list \<times> TransportResponse option) list \<Rightarrow> int" where
  "accepted_total tr \<equiv> sum_list (map accepted_of tr)"

definition adds :: "forwarder \<Rightarrow> forwarder \<Rightarrow> (string list \<times> pyval list \<times> TransportResponse option) list \<Rightarrow> bool" where
  "adds s s' new \<longleftrightarrow> trace s' = trace s @ new \<and> proved new"

lemma proved_append [simp]: "proved (xs @ ys) \<longleftrightarrow> proved xs \<and> proved ys"
  by (simp add: proved_def ball_Un)

lemma proved_Nil [simp]: "proved []" by (simp add: proved_def)

lemma adds_refl: "trace s' = trace s \<Longrightarrow> adds s s' []"
  by (simp add: adds_def)

lemma adds_trans: "adds s t xs \<Longrightarrow> adds t u ys \<Longrightarrow> adds s u (xs @ ys)"
  by (simp add: adds_def)

lemma adds_cong: "trace s1 = trace s \<Longrightarrow> trace t1 = trace t \<Longrightarrow> adds s1 t1 xs = adds s t xs"
  by (simp add: adds_def)

lemma forward_adds:
  assumes "forward clock transport deadline batch s = (r, s')" "\<forall>w \<in> set batch. forwardable (fw_features s) w = Some w"
  shows "\<exists>new. adds s s' new \<and> (r \<noteq> None \<longrightarrow> new = [(fw_features s, batch, r)])" "fw_features s' = fw_features s"
  using assms by (auto simp: forward_def Let_def adds_def proved_def split: if_splits)

lemma accepted_any:
  "decide_acknowledgement b n req = Acknowledged a r t \<Longrightarrow> decide_acknowledgement b n True = Acknowledged a r t"
  by (simp add: ack_iff)

lemma send_again_adds:
  assumes "send_again clock transport required deadline a n retries s = (fully, s')"
    and "\<forall>w \<in> set retries. forwardable (fw_features s) w = Some w"
  shows "\<exists>new. adds s s' new \<and> (fully \<longrightarrow> a + accepted_total new = n)"
proof -
  obtain r s1 where f: "forward clock transport deadline retries s = (r, s1)" by fastforce
  from forward_adds [OF this assms(2)] obtain new where new: "adds s s1 new"
    "r \<noteq> None \<longrightarrow> new = [(fw_features s, retries, r)]" by blast
  show ?thesis
  proof (cases "\<exists>q. r = Some q \<and> is_success q")
    case False
    with assms(1) f have "s' = s1 \<and> \<not> fully" by (auto simp: send_again_def split: option.splits)
    with new show ?thesis by blast
  next
    case True
    then obtain q where q: "r = Some q" "is_success q" by blast
    with assms(1) f have "trace s' = trace s1"
      "fully = (case decide_acknowledgement (body q) (int (length retries)) True of
         Acknowledged b _ _ \<Rightarrow> a + b = n | _ \<Rightarrow> False)"
      by (auto simp: send_again_def Let_def)
    with new q show ?thesis by (intro exI [of _ new]) (auto simp: adds_def split: decision.splits)
  qed
qed

lemma settle_chunk_adds:
  assumes "settle_chunk clock transport required deadline lost events s ack = (ok, canonical, s')"
  shows "\<exists>new. adds s s' new \<and> (canonical \<longrightarrow> ok \<and> (\<exists>a r t. ack = Acknowledged a r t \<and> a + accepted_total new = int (length events)))"
proof (cases ack)
  case (Acknowledged a retryable terminal)
  let ?rt = "if lost then relay_retries (fw_features s) events terminal else Some []"
  show ?thesis
  proof (cases "a \<noteq> int (length events) \<and> (\<exists>ws. ?rt = Some ws \<and> ws \<noteq> [])")
    case False
    with assms Acknowledged have "s' = s \<and> (canonical \<longrightarrow> ok \<and> a = int (length events))"
      by (auto simp: settle_chunk_def split: option.splits if_splits)
    with Acknowledged show ?thesis by (intro exI [of _ "[]"]) (simp add: adds_def)
  next
    case True
    then obtain ws where ws: "?rt = Some ws" "ws \<noteq> []" by blast
    then have ok: "\<forall>w \<in> set ws. forwardable (fw_features s) w = Some w"
      using relay_retries_forwardable [of "fw_features s" events terminal ws] by (auto split: if_splits)
    obtain c s1 where "send_again clock transport required deadline a (int (length events)) ws s = (c, s1)" by fastforce
    from send_again_adds [OF this ok] this assms Acknowledged True ws show ?thesis
      by (auto simp: settle_chunk_def)
  qed
qed (use assms in \<open>auto simp: settle_chunk_def adds_def intro: exI [of _ "[]"]\<close>)

lemma send_chunk_adds:
  assumes "send_chunk clock transport over_http discover deadline events s = (ok, canonical, s')"
    and "\<forall>w \<in> set events. forwardable (fw_features s) w = Some w"
  shows "\<exists>new. adds s s' new \<and> (canonical \<longrightarrow> ok \<and> accepted_total new = int (length events))"
proof -
  obtain r s1 where f: "forward clock transport deadline events s = (r, s1)" by fastforce
  from forward_adds [OF this assms(2)] obtain new where new: "adds s s1 new"
    "r \<noteq> None \<longrightarrow> new = [(fw_features s, events, r)]" by blast
  show ?thesis
  proof (cases "\<exists>q. r = Some q \<and> is_success q")
    case False
    with assms(1) f have "s' = s1 \<and> \<not> canonical" by (auto simp: send_chunk_def split: option.splits)
    with new show ?thesis by blast
  next
    case True
    then obtain q where q: "r = Some q" "is_success q" by blast
    let ?req = "discover \<or> over_http"
    let ?ack = "decide_acknowledgement (body q) (int (length events)) ?req"
    obtain lost fs where o: "observe_features (fw_features s1) (body q) ?req (is_acknowledged ?ack) = (lost, fs)"
      by fastforce
    from assms(1) f q o have
      "settle_chunk clock transport ?req deadline lost events (s1\<lparr>fw_features := fs\<rparr>) ?ack = (ok, canonical, s')"
      by (simp add: send_chunk_def Let_def)
    from settle_chunk_adds [OF this] obtain new2 where n2: "adds (s1\<lparr>fw_features := fs\<rparr>) s' new2"
      "canonical \<longrightarrow> ok \<and> (\<exists>a r t. ?ack = Acknowledged a r t \<and> a + accepted_total new2 = int (length events))" by blast
    have "adds s s' (new @ new2)" using new(1) n2(1) by (simp add: adds_def)
    moreover have "accepted_total (new @ new2) = int (length events)" if c: canonical
    proof -
      from n2(2) c obtain a rr t where a: "?ack = Acknowledged a rr t" "a + accepted_total new2 = int (length events)" by blast
      with new(2) q(1) accepted_any [OF a(1)] show ?thesis by simp
    qed
    ultimately show ?thesis using n2(2) by blast
  qed
qed

lemma forward_chunks_adds:
  "forward_chunks clock transport over_http discover deadline known whole cs s = ((configured, success, fully), s') \<Longrightarrow>
   \<exists>new. adds s s' new \<and> configured \<and> (fully \<longrightarrow> success \<and> whole \<and> accepted_total new = int (length (concat cs)))"
proof (induction cs arbitrary: known whole s)
  case Nil
  then show ?case by (auto simp: adds_def intro: exI [of _ "[]"])
next
  case (Cons original rest)
  let ?s1 = "s\<lparr>reads := Suc (reads s)\<rparr>"
  show ?case
  proof (cases "deadline \<le> clock (reads s) \<or> select_batch (fw_features ?s1) original = None")
    case True
    with Cons.prems have "s' = ?s1 \<and> configured \<and> \<not> fully" by (elim disjE) (auto simp: Let_def split: if_splits)
    then show ?thesis by (intro exI [of _ "[]"]) (simp add: adds_def)
  next
    case False
    then obtain batch where b: "select_batch (fw_features ?s1) original = Some batch" by blast
    obtain ok canonical s2 where sc: "send_chunk clock transport over_http discover deadline batch ?s1 = (ok, canonical, s2)"
      by (metis surj_pair)
    from send_chunk_adds [OF this] select_batch_forwardable [OF b] obtain new1 where
      n1: "adds ?s1 s2 new1" "canonical \<longrightarrow> ok \<and> accepted_total new1 = int (length original)" by auto
    let ?known = "filter (\<lambda>f. f \<in> set (fw_features s2)) known"
    let ?s3 = "s2\<lparr>fw_features := ?known\<rparr>"
    let ?s4 = "?s3\<lparr>reads := Suc (reads ?s3)\<rparr>"
    show ?thesis
    proof (cases "\<not> ok \<or> deadline \<le> clock (reads ?s3)")
      case True
      with Cons.prems False b sc have "trace s' = trace s2 \<and> configured \<and> \<not> fully"
        by (auto simp: Let_def split: if_splits)
      with n1 show ?thesis by (intro exI [of _ new1]) (simp add: adds_def)
    next
      case go: False
      with Cons.prems False b sc have
        "forward_chunks clock transport over_http discover deadline ?known (whole \<and> canonical) rest ?s4 =
          ((configured, success, fully), s')"
        by (simp add: Let_def)
      from Cons.IH [OF this] obtain new2 where "adds ?s4 s' new2" "configured"
        "fully \<longrightarrow> success \<and> (whole \<and> canonical) \<and> accepted_total new2 = int (length (concat rest))" by blast
      with n1 show ?thesis by (intro exI [of _ "new1 @ new2"]) (simp add: adds_def)
    qed
  qed
qed

lemma complete_facts:
  assumes "send_verified fr clock transport over_http token events discover s = ((configured, success, True), s')"
  shows "configured \<and> success \<and>
    (\<exists>new. trace s' = trace s @ new \<and> accepted_total new = int (length events))"
proof -
  let ?es = "map PDict (attach_project_token events token)"
  from assms have t: "token \<noteq> []" by (auto simp: send_verified_def)
  show ?thesis
  proof (cases "chunks fr ?es")
    case (Inl e)
    with assms t show ?thesis by (simp add: send_verified_def)
  next
    case (Inr cs)
    with assms t have "forward_chunks clock transport over_http discover (clock (reads s) + 5) FEATURES True cs
        (s\<lparr>reads := Suc (reads s)\<rparr>) = ((configured, success, True), s')"
      by (simp add: send_verified_def Let_def)
    from forward_chunks_adds [OF this] obtain new where
      "adds (s\<lparr>reads := Suc (reads s)\<rparr>) s' new" "configured" "success"
      "accepted_total new = int (length (concat cs))" by blast
    with chunks_concat [OF Inr] show ?thesis by (auto simp: adds_def attach_project_token_def)
  qed
qed

text \<open>
  C31: When \<open>send_verified\<close> reports a complete delivery, the relay is configured, the sending succeeded, and
  the destination's acknowledgements of the requests that were made account for every event given, each
  accepted exactly once; no reading of the clock and no answer of the transport can produce that report
  otherwise.
\<close>

theorem complete_means_accepted:
  assumes "send_verified fr clock transport over_http token events discover s = ((configured, success, True), s')"
  shows "configured \<and> success \<and>
    (\<exists>new. trace s' = trace s @ new \<and> accepted_total new = int (length events))"
  by (rule complete_facts [OF assms])

text \<open>
  C32: No request of \<open>send_verified\<close> carries evidence its destination has not proved to read: every event of
  every request is an analytics event, or one that stripping for the features known at that moment leaves
  unchanged.
\<close>

theorem requests_carry_proved_evidence:
  assumes "send_verified fr clock transport over_http token events discover s = (result, s')"
  shows "\<exists>new. trace s' = trace s @ new \<and>
    (\<forall>(fs, batch, r) \<in> set new. \<forall>w \<in> set batch. \<exists>e. w = PDict e \<and>
      (dgetn e ''event_type'' = PStr ''analytics_event'' \<or> strip_unsupported w fs = Some w))"
proof -
  let ?es = "map PDict (attach_project_token events token)"
  have "\<exists>new. adds s s' new"
  proof (cases "token = [] \<or> (\<exists>e. chunks fr ?es = Inl e)")
    case True
    with assms have "trace s' = trace s" by (elim disjE exE) (auto simp: send_verified_def Let_def split: if_splits)
    then show ?thesis using adds_refl by blast
  next
    case False
    then obtain cs where cs: "chunks fr ?es = Inr cs" by (cases "chunks fr ?es") auto
    obtain a b c where r: "result = (a, b, c)" by (cases result)
    from assms False cs r have "forward_chunks clock transport over_http discover (clock (reads s) + 5) FEATURES True cs
        (s\<lparr>reads := Suc (reads s)\<rparr>) = ((a, b, c), s')"
      by (simp add: send_verified_def Let_def)
    from forward_chunks_adds [OF this] show ?thesis by (auto simp: adds_def)
  qed
  then show ?thesis unfolding adds_def proved_def by (fast dest: forwardable_shape)
qed

text \<open>A destination that accepts every event of a request.\<close>

definition accepting :: "nat \<Rightarrow> rat \<Rightarrow> pyval list \<Rightarrow> TransportResponse option" where
  "accepting n deadline batch = Some \<lparr>status_code = 202, retry_after_ms = PNone,
     body = PDict [(PStr ''accepted'', PInt (int (length batch))), (PStr ''rejected'', PInt 0),
       (PStr ''errors'', PList [])]\<rparr>"

definition idle_forwarder :: forwarder where
  "idle_forwarder = \<lparr>fw_features = [], reads = 0, calls = 0, trace = []\<rparr>"

definition page_view :: pydict where
  "page_view = [(PStr ''event_type'', PStr ''analytics_event''), (PStr ''payload'', PDict [])]"

lemma page_view_sent:
  "\<exists>s'. send_verified (\<lambda>q. []) (\<lambda>n. 0) accepting True ''t'' [page_view] False idle_forwarder = ((True, True, True), s') \<and>
    length (trace s') = 1"
proof -
  let ?fr = "\<lambda>q::rat. []::string"
  let ?e = "PDict (dput ''project_token'' (PStr ''t'') page_view)"
  have b: "json_bytes False False ?fr ?e = Some 65"
    by (simp add: page_view_def dput_def json_bytes_def json_str_def json_char_def)
  then have "wire_prefix ?fr [?e] = Inr [?e]"
    by (simp add: wire_prefix_def event_bytes_def MAX_EVENT_BYTES_def MAX_BODY_BYTES_def)
  then have "chunks ?fr [?e] = Inr [[?e]]" by (simp add: chunks.simps)
  moreover have "forwardable fs ?e = Some ?e" for fs
    by (simp add: forwardable_def page_view_def dput_def dgetn_def)
  moreover have "decide_acknowledgement (PDict [(PStr ''accepted'', PInt 1), (PStr ''rejected'', PInt 0),
      (PStr ''errors'', PList [])]) 1 True = Acknowledged 1 [] []"
    by (simp add: decide_acknowledgement_def dgetn_def has_key_def)
  ultimately show ?thesis
    by (simp add: send_verified_def attach_project_token_def idle_forwarder_def send_chunk_def forward_def
        accepting_def is_success_def settle_chunk_def observe_features_def Let_def split_beta)
qed

theorem complete_means_accepted_witness:
  "\<exists>s'. send_verified (\<lambda>q. []) (\<lambda>n. 0) accepting True ''t'' [page_view] False idle_forwarder = ((True, True, True), s') \<and>
    accepted_total (trace s') = 1"
proof -
  from page_view_sent obtain s' where s': "send_verified (\<lambda>q. []) (\<lambda>n. 0) accepting True ''t'' [page_view] False
    idle_forwarder = ((True, True, True), s')" by blast
  from complete_means_accepted [OF this] s' show ?thesis by (auto simp: idle_forwarder_def)
qed

theorem requests_carry_proved_evidence_witness:
  "\<exists>fs batch r s'. send_verified (\<lambda>q. []) (\<lambda>n. 0) accepting True ''t'' [page_view] False idle_forwarder =
      ((True, True, True), s') \<and> trace s' = [(fs, batch, r)] \<and>
      list_all (\<lambda>w. \<exists>e. w = PDict e \<and>
        (dgetn e ''event_type'' = PStr ''analytics_event'' \<or> strip_unsupported w fs = Some w)) batch"
proof -
  from page_view_sent obtain s' where s': "send_verified (\<lambda>q. []) (\<lambda>n. 0) accepting True ''t'' [page_view] False
    idle_forwarder = ((True, True, True), s')" "length (trace s') = 1" by blast
  then obtain t where "trace s' = [t]" by (cases "trace s'") auto
  with requests_carry_proved_evidence [OF s'(1)] s' show ?thesis
    by (cases t) (auto simp: idle_forwarder_def list_all_iff simp del: strip_unsupported.simps)
qed

subsection \<open>Prepared events can be sent\<close>

definition item_text :: "(rat \<Rightarrow> string) \<Rightarrow> pyval \<times> pyval \<Rightarrow> string option" where
  "item_text fr x = (case json_items False False fr [x] of Some [t] \<Rightarrow> Some t | _ \<Rightarrow> None)"

lemma json_items_texts:
  "json_items False False fr d = Some ts \<longleftrightarrow> map (item_text fr) d = map Some ts"
proof (induction d arbitrary: ts)
  case (Cons x d)
  obtain k v where x: "x = (k, v)" by (cases x)
  show ?case
  proof (cases "json_key False False fr k = None \<or> json_val False False fr v = None")
    case True
    with x show ?thesis by (elim disjE) (auto simp: item_text_def split: option.splits)
  next
    case False
    then obtain a b where "json_key False False fr k = Some a" "json_val False False fr v = Some b" by auto
    with x have "item_text fr x = Some (a @ CHR '':'' # b)" by (simp add: item_text_def)
    with x \<open>json_key False False fr k = Some a\<close> \<open>json_val False False fr v = Some b\<close>
    show ?thesis using Cons.IH by (cases ts) (auto simp: map_eq_Cons_conv)
  qed
qed auto

lemma moved_sum:
  "(PStr k, v) \<in> set r \<Longrightarrow> sum_list (map w (without_keys [k] r @ [(PStr k, v)])) \<le> (sum_list (map w r) :: nat) \<and>
    length (without_keys [k] r @ [(PStr k, v)]) \<le> length r"
proof (induction r)
  case (Cons x r)
  have drop: "sum_list (map w (without_keys [k] r)) \<le> sum_list (map w r) \<and> length (without_keys [k] r) \<le> length r"
    unfolding without_keys_def by (rule conjI, induction r) auto
  show ?case
  proof (cases "x = (PStr k, v)")
    case True
    then have "without_keys [k] (x # r) = without_keys [k] r" by (simp add: without_keys_def)
    with drop True show ?thesis by simp
  next
    case False
    with Cons show ?thesis by (cases x) (auto simp: without_keys_def le_SucI)
  qed
qed simp

lemma update_absent: "k \<notin> fst ` set d \<Longrightarrow> AList.update k v d = d @ [(k, v)]"
  by (induction d) auto

lemma moved_entry_size:
  assumes "json_bytes False False fr (PDict r) = Some n" "dget r k = Some v"
  shows "\<exists>m. json_bytes False False fr (PDict (dput k v (without_keys [k] r))) = Some m \<and> m \<le> n"
proof -
  from assms(1) obtain ts where ts: "json_items False False fr r = Some ts"
    and n: "n = 2 + sum_list (map utf8_len ts) + (length ts - 1)"
    by (auto simp: json_bytes_def utf8_len_join)
  let ?w = "\<lambda>x. utf8_len (the (item_text fr x))"
  let ?r = "without_keys [k] r"
  let ?ts = "map (the \<circ> item_text fr) (?r @ [(PStr k, v)])"
  from ts have m: "map (item_text fr) r = map Some ts" by (simp add: json_items_texts)
  then have all: "item_text fr x \<noteq> None" if "x \<in> set r" for x
  proof -
    have "item_text fr x \<in> set (map Some ts)" unfolding m [symmetric] using that by simp
    then show ?thesis by auto
  qed
  have member: "(PStr k, v) \<in> set r" using assms(2) by (rule map_of_SomeD)
  have sub: "set (?r @ [(PStr k, v)]) \<subseteq> set r" using member by (auto simp: without_keys_def)
  have new: "dput k v ?r = ?r @ [(PStr k, v)]"
    unfolding dput_def by (rule update_absent) (auto simp: without_keys_def)
  have "map (item_text fr) (?r @ [(PStr k, v)]) = map Some ?ts"
  proof -
    have "item_text fr x = Some (the (item_text fr x))" if "x \<in> set (?r @ [(PStr k, v)])" for x
      using all [OF subsetD [OF sub that]] by simp
    then show ?thesis unfolding map_map by (intro map_cong) simp_all
  qed
  then have items: "json_items False False fr (dput k v ?r) = Some ?ts"
    unfolding new json_items_texts .
  have tsr: "ts = map (the \<circ> item_text fr) r" using arg_cong [OF m, of "map the"] by (simp add: comp_def)
  have "sum_list (map ?w (?r @ [(PStr k, v)])) \<le> sum_list (map ?w r) \<and> length (?r @ [(PStr k, v)]) \<le> length r"
    using member by (rule moved_sum)
  then show ?thesis using items n tsr by (auto simp: json_bytes_def utf8_len_join comp_def)
qed

lemma prepared_size:
  assumes "prepare_event fr e token = Inr (Some p)"
  shows "\<exists>n. json_bytes False False fr (PDict (dput ''project_token'' (PStr token) p)) = Some n \<and> n \<le> MAX_EVENT_BYTES"
proof -
  let ?owned = "dput ''project_token'' (PStr token) e"
  from assms obtain r n where r: "json_bytes False False fr (PDict r) = Some n" "n \<le> MAX_EVENT_BYTES"
    "dget r ''project_token'' = Some (PStr token)" "p = without_keys [''project_token''] r"
  proof (cases "dgetn e ''event_type'' = PStr ''analytics_event''")
    case True
    with assms have "\<exists>n. json_bytes False False fr (PDict ?owned) = Some n \<and> n \<le> MAX_EVENT_BYTES"
      "p = without_keys [''project_token''] ?owned"
      by (auto simp: prepare_event_def Let_def event_bytes_def split: option.splits sum.splits if_splits)
    then show ?thesis using that [of ?owned] by auto
  next
    case False
    with assms obtain r where f: "fit_event fr (Some ?owned) = Inr (Some (PDict r))" "p = without_keys [''project_token''] r"
      by (auto simp: prepare_event_def Let_def split: option.splits sum.splits if_splits pyval.splits)
    from fit_facts [OF f(1)] have fit: "\<exists>n. json_bytes False False fr (PDict r) = Some n \<and> n \<le> MAX_EVENT_BYTES"
      "same_identity ?owned r" by (auto simp: fitted_def)
    from fit(2) have "dget r ''project_token'' = dget ?owned ''project_token''" by (auto simp: same_identity_def)
    with fit(1) f(2) show ?thesis using that [of r] by auto
  qed
  from moved_entry_size [OF r(1,3)] r(2,4) show ?thesis by fastforce
qed

text \<open>
  Events that \<open>prepare_event\<close> let through for a token can always be divided into requests for that token:
  no prepared batch is too large to be sent, whatever was taken off the events, and the pieces carry
  exactly the prepared events in order.
\<close>

theorem prepared_events_divide:
  assumes "\<forall>p \<in> set events. \<exists>e. prepare_event fr e token = Inr (Some p)"
  shows "\<exists>cs. chunks fr (map PDict (attach_project_token events token)) = Inr cs \<and>
    concat cs = map PDict (attach_project_token events token)"
proof -
  have "\<forall>v \<in> set (map PDict (attach_project_token events token)). \<exists>n. json_bytes False False fr v = Some n \<and> n \<le> MAX_EVENT_BYTES"
    using assms prepared_size by (fastforce simp: attach_project_token_def)
  from chunks_ok [OF this] show ?thesis by blast
qed

theorem prepared_events_divide_witness:
  "\<exists>cs. chunks (\<lambda>q. []) (map PDict (attach_project_token [page_view, page_view] ''t'')) = Inr cs \<and>
    length (concat cs) = 2"
proof -
  let ?e = "PDict (dput ''project_token'' (PStr ''t'') page_view)"
  have "json_bytes False False (\<lambda>q::rat. []::string) ?e = Some 65"
    by (simp add: page_view_def dput_def json_bytes_def json_str_def json_char_def)
  then have "prepare_event (\<lambda>q. []) page_view ''t'' = Inr (Some page_view)"
    by (simp add: prepare_event_def page_view_def dgetn_def event_bytes_def MAX_EVENT_BYTES_def MAX_BODY_BYTES_def
        dput_def without_keys_def)
  then have "\<forall>p \<in> set [page_view, page_view]. \<exists>e. prepare_event (\<lambda>q. []) e ''t'' = Inr (Some p)" by auto
  from prepared_events_divide [OF this] show ?thesis by (auto simp: attach_project_token_def)
qed

subsection \<open>Names of spool files\<close>

lemma squeeze_set: "set (squeeze P s) \<subseteq> insert (CHR ''-'') {c \<in> set s. \<not> P c}"
  by (induction P s rule: squeeze.induct) (auto dest: set_dropWhileD)

lemma strip_hyphens_set: "set (strip_hyphens s) \<subseteq> set s"
  unfolding strip_hyphens_def by (auto dest!: set_dropWhileD)

lemma dropWhile_hd: "dropWhile P s \<noteq> [] \<Longrightarrow> \<not> P (hd (dropWhile P s))"
  by (induction s) auto

text \<open>No two hyphens in a row.\<close>

fun single_hyphens :: "string \<Rightarrow> bool" where
  "single_hyphens (a # b # s) = (\<not> (a = CHR ''-'' \<and> b = CHR ''-'') \<and> single_hyphens (b # s))"
| "single_hyphens s = True"

lemma single_hyphens_iff:
  "single_hyphens s \<longleftrightarrow> (\<forall>xs ys. s \<noteq> xs @ CHR ''-'' # CHR ''-'' # ys)"
proof (induction s rule: single_hyphens.induct)
  case (1 a b s)
  show ?case
  proof
    assume "single_hyphens (a # b # s)"
    with 1 show "\<forall>xs ys. a # b # s \<noteq> xs @ CHR ''-'' # CHR ''-'' # ys" by (auto simp: Cons_eq_append_conv)
  next
    assume r: "\<forall>xs ys. a # b # s \<noteq> xs @ CHR ''-'' # CHR ''-'' # ys"
    have "\<not> (a = CHR ''-'' \<and> b = CHR ''-'')" using r [rule_format, of "[]"] by auto
    moreover have "\<forall>xs ys. b # s \<noteq> xs @ CHR ''-'' # CHR ''-'' # ys"
      using r by (metis append_Cons)
    ultimately show "single_hyphens (a # b # s)" using 1 by simp
  qed
qed (auto simp: Cons_eq_append_conv)

lemma squeeze_hd:
  "t = [] \<or> hd t \<noteq> CHR ''-'' \<Longrightarrow>
   squeeze (\<lambda>c. c = CHR ''-'') t = [] \<or> hd (squeeze (\<lambda>c. c = CHR ''-'') t) \<noteq> CHR ''-''"
  by (cases t) auto

lemma squeeze_single: "single_hyphens (squeeze (\<lambda>c. c = CHR ''-'') s)"
proof (induction "\<lambda>c. c = CHR ''-''" s rule: squeeze.induct)
  case (2 c s)
  have head: "single_hyphens (a # t)" if "single_hyphens t" "t = [] \<or> hd t \<noteq> CHR ''-'' \<or> a \<noteq> CHR ''-''" for a t
    using that by (cases t) auto
  show ?case
  proof (cases "c = CHR ''-''")
    case True
    let ?d = "dropWhile (\<lambda>c. c = CHR ''-'') s"
    have "squeeze (\<lambda>c. c = CHR ''-'') ?d = [] \<or> hd (squeeze (\<lambda>c. c = CHR ''-'') ?d) \<noteq> CHR ''-''"
      by (rule squeeze_hd) (use dropWhile_hd [of "\<lambda>c. c = CHR ''-''" s] in blast)
    with "2.hyps"(1) [OF True] have "single_hyphens (CHR ''-'' # squeeze (\<lambda>c. c = CHR ''-'') ?d)" by (intro head) auto
    with True show ?thesis by simp
  qed (use 2 head in simp)
qed simp

lemma strip_hyphens_single: "single_hyphens s \<Longrightarrow> single_hyphens (strip_hyphens s)"
proof -
  assume s: "single_hyphens s"
  obtain a b where ab: "s = a @ strip_hyphens s @ b"
  proof -
    let ?p = "\<lambda>c. c = CHR ''-''"
    let ?d = "dropWhile ?p s"
    have "s = takeWhile ?p s @ ?d" by simp
    moreover have "?d = strip_hyphens s @ rev (takeWhile ?p (rev ?d))"
      unfolding strip_hyphens_def by (metis rev_append rev_rev_ident takeWhile_dropWhile_id)
    ultimately show thesis using that by metis
  qed
  show ?thesis unfolding single_hyphens_iff
  proof (intro allI notI)
    fix xs ys
    assume "strip_hyphens s = xs @ CHR ''-'' # CHR ''-'' # ys"
    with ab have "s = (a @ xs) @ CHR ''-'' # CHR ''-'' # (ys @ b)" by simp
    with s show False unfolding single_hyphens_iff by blast
  qed
qed

lemma hd_of_append: "d = n @ r \<Longrightarrow> n \<noteq> [] \<Longrightarrow> hd d = hd n \<and> d \<noteq> []"
  by auto

lemma strip_hyphens_ends:
  "strip_hyphens s \<noteq> [] \<Longrightarrow> hd (strip_hyphens s) \<noteq> CHR ''-'' \<and> last (strip_hyphens s) \<noteq> CHR ''-''"
proof -
  let ?p = "\<lambda>c. c = CHR ''-''"
  let ?d = "dropWhile ?p s"
  let ?n = "strip_hyphens s"
  assume n: "?n \<noteq> []"
  have r: "?n = rev (dropWhile ?p (rev ?d))" by (simp add: strip_hyphens_def)
  with n have l: "last ?n \<noteq> CHR ''-''" using dropWhile_hd [of ?p "rev ?d"] by (simp add: last_rev)
  have "?d = ?n @ rev (takeWhile ?p (rev ?d))"
    unfolding r by (metis rev_append rev_rev_ident takeWhile_dropWhile_id)
  from hd_of_append [OF this n] have "hd ?d = hd ?n" "?d \<noteq> []" by blast+
  with dropWhile_hd [of ?p s] l show ?thesis by metis
qed

text \<open>
  The service part of a spool file name is never empty, has only letters, digits, dots, underscores and
  hyphens (so no path separator), has no two hyphens in a row and begins and ends with something else.
\<close>

theorem service_name_safe:
  shows "sanitize_service_name s \<noteq> [] \<and> (\<forall>c \<in> set (sanitize_service_name s). is_name_char c \<and> c \<noteq> CHR ''/'') \<and>
    single_hyphens (sanitize_service_name s) \<and> hd (sanitize_service_name s) \<noteq> CHR ''-'' \<and>
    last (sanitize_service_name s) \<noteq> CHR ''-''"
proof -
  let ?t = "squeeze (\<lambda>c. c = CHR ''-'') (squeeze (\<lambda>c. \<not> is_name_char c) (str_strip s))"
  let ?n = "strip_hyphens ?t"
  have nc: "is_name_char (CHR ''-'')" "\<not> is_name_char (CHR ''/'')"
    by (simp_all add: is_name_char_def is_digit_def)
  have "set (strip_hyphens ?t) \<subseteq> {c. is_name_char c}"
    using strip_hyphens_set [of ?t] squeeze_set [of "\<lambda>c. c = CHR ''-''" "squeeze (\<lambda>c. \<not> is_name_char c) (str_strip s)"]
      squeeze_set [of "\<lambda>c. \<not> is_name_char c" "str_strip s"] nc by auto
  moreover have "\<forall>c \<in> set ''service''. is_name_char c" by (simp add: is_name_char_def is_digit_def)
  ultimately have "\<forall>c \<in> set (sanitize_service_name s). is_name_char c"
    unfolding sanitize_service_name_def Let_def by (simp only: split: if_split) blast
  moreover have "single_hyphens ?n" by (rule strip_hyphens_single [OF squeeze_single])
  moreover have "single_hyphens ''service'' \<and> hd ''service'' \<noteq> CHR ''-'' \<and> last ''service'' \<noteq> CHR ''-''" by simp
  moreover have "sanitize_service_name s = (if ?n = [] then ''service'' else ?n)"
    by (simp only: sanitize_service_name_def Let_def)
  ultimately show ?thesis using nc(2) strip_hyphens_ends [of ?t] by (metis list.distinct(1))
qed

theorem service_name_safe_witness:
  "sanitize_service_name '' web/api--v2! '' = ''web-api-v2'' \<and> CHR ''/'' \<notin> set (sanitize_service_name ''../x'')"
proof (rule conjI)
  show "sanitize_service_name '' web/api--v2! '' = ''web-api-v2''" by code_simp
  show "CHR ''/'' \<notin> set (sanitize_service_name ''../x'')" using service_name_safe [of "''../x''"] by blast
qed

end
