(* ===== verification/Relay_Facts.thy ===== *)
theory Relay_Facts
  imports Relay Redaction_Facts Relay_Delivery_Facts
begin

text \<open>
  What the relay guarantees: the rate limit, the accounting of a batch, the shape of what it accepts, the order of
  spooling and forwarding, and what a refused request leaves alone.
\<close>

subsection \<open>Rate limit\<close>

abbreviation rate_key :: "string option \<Rightarrow> string" where
  "rate_key ip \<equiv> (case ip of None \<Rightarrow> ''unknown'' | Some s \<Rightarrow> if s = [] then ''unknown'' else s)"

abbreviation stamps :: "relay \<Rightarrow> string \<Rightarrow> int list" where
  "stamps r key \<equiv> (case map_of (rate_limit_state r) key of None \<Rightarrow> [] | Some ts \<Rightarrow> ts)"

text \<open>A run of requests of addresses at times, newest first: who asked, when, and whether it was let through.\<close>

fun rate_run :: "relay \<Rightarrow> (string option \<times> int) list \<Rightarrow> (string \<times> int \<times> bool) list \<times> relay" where
  "rate_run r [] = ([], r)"
| "rate_run r ((ip, now) # qs) =
     (let (hist, r1) = rate_run r qs; (limited, r2) = is_rate_limited ip now r1
      in ((rate_key ip, now, \<not> limited) # hist, r2))"

text \<open>The specification: the requests of a key let through in the minute before a time.\<close>

definition passed :: "string \<Rightarrow> int \<Rightarrow> (string \<times> int \<times> bool) list \<Rightarrow> int list" where
  "passed key now hist = map (fst \<circ> snd) (filter (\<lambda>(k, t, ok). k = key \<and> ok \<and> now - 60 < t) hist)"

fun newest_first :: "(string option \<times> int) list \<Rightarrow> bool" where
  "newest_first [] = True"
| "newest_first ((ip, now) # qs) = ((\<forall>(ip', t) \<in> set qs. t \<le> now) \<and> newest_first qs)"

lemma rate_limited_simps:
  "fst (is_rate_limited ip now r) \<longleftrightarrow> rate_limit_per_minute r \<le> int (length (filter (\<lambda>t. now - 60 < t) (stamps r (rate_key ip))))"
  "stamps (snd (is_rate_limited ip now r)) key =
     (if key = rate_key ip then filter (\<lambda>t. now - 60 < t) (stamps r key) @ (if fst (is_rate_limited ip now r) then [] else [now])
      else stamps r key)"
  "rate_limit_per_minute (snd (is_rate_limited ip now r)) = rate_limit_per_minute r"
  by (auto simp: is_rate_limited_def Let_def update_conv')

lemma filter_window: "now \<le> later \<Longrightarrow> filter (\<lambda>t. later - 60 < t) (filter (\<lambda>t. now - 60 < t) ts) = filter (\<lambda>t. later - 60 < t) ts"
  for now later :: int
  by (auto simp: filter_filter intro: filter_cong)

lemma passed_Cons: "passed key now ((k, t, ok) # hist) = (if k = key \<and> ok \<and> now - 60 < t then [t] else []) @ passed key now hist"
  by (simp add: passed_def)

text \<open>The state holds, up to what has left the window, the times of the requests let through.\<close>

lemma rate_run_stamps:
  assumes "newest_first qs" "rate_limit_state r = []" "\<forall>(ip, t) \<in> set qs. t \<le> now"
  shows "rev (filter (\<lambda>t. now - 60 < t) (stamps (snd (rate_run r qs)) key)) = passed key now (fst (rate_run r qs)) \<and>
    rate_limit_per_minute (snd (rate_run r qs)) = rate_limit_per_minute r"
  using assms
proof (induction qs arbitrary: now)
  case Nil
  then show ?case by (simp add: passed_def)
next
  case (Cons q qs)
  obtain ip t where q: "q = (ip, t)" by (cases q)
  obtain hist r1 where run: "rate_run r qs = (hist, r1)" by fastforce
  obtain limited r2 where lim: "is_rate_limited ip t r1 = (limited, r2)" by fastforce
  have le: "t \<le> now" "\<forall>(ip, u) \<in> set qs. u \<le> t" using Cons.prems q by auto
  then have le': "\<forall>(ip, u) \<in> set qs. u \<le> now" by force
  have s: "stamps r2 key = (if key = rate_key ip then filter (\<lambda>u. t - 60 < u) (stamps r1 key) @ (if limited then [] else [t])
      else stamps r1 key)" "rate_limit_per_minute r2 = rate_limit_per_minute r1"
    using rate_limited_simps(2,3) [of ip t r1] lim by auto
  have ih: "rev (filter (\<lambda>u. now - 60 < u) (stamps r1 key)) = passed key now hist" "rate_limit_per_minute r1 = rate_limit_per_minute r"
    using Cons.IH [OF _ Cons.prems(2) le'] Cons.prems(1) q run by auto
  have "rev (filter (\<lambda>u. now - 60 < u) (stamps r2 key)) = passed key now ((rate_key ip, t, \<not> limited) # hist)"
  proof (cases "key = rate_key ip")
    case True
    with s(1) have "filter (\<lambda>u. now - 60 < u) (stamps r2 key) =
        filter (\<lambda>u. now - 60 < u) (stamps r1 key) @ (if \<not> limited \<and> now - 60 < t then [t] else [])"
      by (simp add: filter_window [OF le(1)] del: filter_filter)
    with True ih(1) show ?thesis by (simp add: passed_Cons)
  next
    case False
    with s(1) ih(1) show ?thesis by (simp add: passed_Cons)
  qed
  with run lim q s(2) ih(2) show ?case by simp
qed

lemma rate_run_bound:
  "0 \<le> rate_limit_per_minute r \<Longrightarrow> rate_limit_state r = [] \<Longrightarrow>
   int (length (stamps (snd (rate_run r qs)) key)) \<le> rate_limit_per_minute r \<and>
   rate_limit_per_minute (snd (rate_run r qs)) = rate_limit_per_minute r"
proof (induction qs arbitrary: key)
  case (Cons q qs)
  obtain ip t where q: "q = (ip, t)" by (cases q)
  obtain hist r1 where run: "rate_run r qs = (hist, r1)" by fastforce
  obtain limited r2 where lim: "is_rate_limited ip t r1 = (limited, r2)" by fastforce
  have ih: "int (length (stamps r1 k)) \<le> rate_limit_per_minute r1" "rate_limit_per_minute r1 = rate_limit_per_minute r" for k
    using Cons.IH [OF Cons.prems, of k] run by auto
  have "int (length (filter (\<lambda>u. t - 60 < u) (stamps r1 key))) \<le> rate_limit_per_minute r1"
    using ih(1) [of key] length_filter_le [of "\<lambda>u. t - 60 < u" "stamps r1 key"] by linarith
  then have "int (length (stamps r2 key)) \<le> rate_limit_per_minute r1"
    using rate_limited_simps(1,2) [of ip t r1] lim ih(1) [of key] by auto
  then show ?case using rate_limited_simps(3) [of ip t r1] lim run q ih(2) by simp
qed simp

text \<open>
  C30: The rate limit is a sliding window: when requests arrive in the order of their times, one is let through exactly when
  fewer than the limit of the same address were let through in the sixty seconds before it, so that within any sixty
  seconds at most the limit pass.
\<close>

theorem rate_limit_exact:
  assumes "newest_first ((ip, now) # qs)" "rate_limit_state r = []" "1 \<le> rate_limit_per_minute r"
  shows "fst (is_rate_limited ip now (snd (rate_run r qs))) =
      (rate_limit_per_minute r \<le> int (length (passed (rate_key ip) now (fst (rate_run r qs))))) \<and>
    int (length (passed key now (fst (rate_run r ((ip, now) # qs))))) \<le> rate_limit_per_minute r"
proof
  have le: "\<forall>(ip', t) \<in> set qs. t \<le> now" "newest_first qs" using assms(1) by auto
  have "length (filter (\<lambda>t. now - 60 < t) (stamps (snd (rate_run r qs)) (rate_key ip))) =
      length (passed (rate_key ip) now (fst (rate_run r qs)))"
    using arg_cong [OF rate_run_stamps [OF le(2) assms(2) le(1), of "rate_key ip", THEN conjunct1], of length] by (simp only: length_rev)
  then show "fst (is_rate_limited ip now (snd (rate_run r qs))) =
      (rate_limit_per_minute r \<le> int (length (passed (rate_key ip) now (fst (rate_run r qs)))))"
    using rate_run_stamps [OF le(2) assms(2) le(1), of "rate_key ip", THEN conjunct2]
    by (simp only: rate_limited_simps(1))
  let ?r = "snd (rate_run r ((ip, now) # qs))"
  have "\<forall>(ip', t) \<in> set ((ip, now) # qs). t \<le> now" using le(1) by auto
  from arg_cong [OF rate_run_stamps [OF assms(1,2) this, of key, THEN conjunct1], of length]
  have "length (passed key now (fst (rate_run r ((ip, now) # qs)))) = length (filter (\<lambda>t. now - 60 < t) (stamps ?r key))"
    by (simp only: length_rev)
  also have "\<dots> \<le> length (stamps ?r key)" by (rule length_filter_le)
  finally show "int (length (passed key now (fst (rate_run r ((ip, now) # qs))))) \<le> rate_limit_per_minute r"
    using rate_run_bound [of r "(ip, now) # qs" key] assms(2,3) by linarith
qed

definition idle_relay :: relay where
  "idle_relay = \<lparr>allowed_origins = [''http://app.test''], max_body_bytes = 262144, rate_limit_per_minute = 2, project_mode = None,
     relay_token = [], has_forwarder = False, http_forwarder = False, durable_write = True, service_override = [],
     environment_override = [], local_dir = ''/l'', spool_dir = ''/s'', rate_limit_state = [], local_transports = [],
     spool_transports = [], relay_forwarder = idle_forwarder, delivered_marks = []\<rparr>"

theorem rate_limit_exact_witness:
  "fst (is_rate_limited None 30 (snd (rate_run idle_relay [(None, 10), (None, 0)]))) \<and>
   \<not> fst (is_rate_limited None 60 (snd (rate_run idle_relay [(None, 30), (None, 10), (None, 0)])))"
proof
  have "passed ''unknown'' 30 (fst (rate_run idle_relay [(None, 10), (None, 0)])) = [10, 0]"
    by (simp add: idle_relay_def is_rate_limited_def passed_def)
  with rate_limit_exact [of None 30 "[(None, 10), (None, 0)]" idle_relay "''unknown''"]
  show "fst (is_rate_limited None 30 (snd (rate_run idle_relay [(None, 10), (None, 0)])))" by (simp add: idle_relay_def)
  have "passed ''unknown'' 60 (fst (rate_run idle_relay [(None, 30), (None, 10), (None, 0)])) = [10]"
    by (simp add: idle_relay_def is_rate_limited_def passed_def)
  with rate_limit_exact [of None 60 "[(None, 30), (None, 10), (None, 0)]" idle_relay "''unknown''"]
  show "\<not> fst (is_rate_limited None 60 (snd (rate_run idle_relay [(None, 30), (None, 10), (None, 0)])))"
    by (simp add: idle_relay_def)
qed

subsection \<open>Sanitizing an event returns\<close>

lemma relay_base_fields:
  assumes "relay_base serv_over env_over event = Some e"
  shows "dget e ''event_type'' = Some (dgetn event ''event_type'')" "dget e ''sdk_name'' = Some (PStr BROWSER_SDK_NAME)"
    "payload_of e = payload_of event" "is_str (dgetn event ''event_type'')"
    "k \<notin> {''schema_version'', ''event_id'', ''event_type'', ''occurred_at'', ''sdk_name'', ''sdk_version'', ''service'',
      ''payload'', ''correlation'', ''context''} \<longrightarrow> dget e k = None"
    "\<exists>p. dget e ''payload'' = Some (PDict p)"
proof -
  from assms obtain serv p where sp: "dgetn event ''service'' = PDict serv" "dgetn event ''payload'' = PDict p"
    by (auto simp: relay_base_def split: pyval.splits)
  let ?c = "if relay_correlation event = [] then [] else [(PStr ''correlation'', PDict (relay_correlation event))]"
  let ?x = "if is_dict (dgetn event ''context'') then [(PStr ''context'', dgetn event ''context'')] else []"
  from assms sp have e: "e = [(PStr ''schema_version'', dgetn event ''schema_version''), (PStr ''event_id'', dgetn event ''event_id''),
      (PStr ''event_type'', dgetn event ''event_type''), (PStr ''occurred_at'', dgetn event ''occurred_at''),
      (PStr ''sdk_name'', PStr BROWSER_SDK_NAME), (PStr ''sdk_version'', dgetn event ''sdk_version''), (PStr ''service'', relay_service serv
        (override serv_over (dgetn serv ''name'')) (override env_over (dgetn serv ''environment''))),
      (PStr ''payload'', PDict p)] @ ?c @ ?x"
    by (auto simp: relay_base_def split: if_splits)
  from assms sp show "is_str (dgetn event ''event_type'')" by (simp add: relay_base_def split: if_splits)
  have t: "map_of (?c @ ?x) (PStr k) = None" if "k \<noteq> ''correlation''" "k \<noteq> ''context''" for k
    using that by simp
  show "dget e ''event_type'' = Some (dgetn event ''event_type'')" "dget e ''sdk_name'' = Some (PStr BROWSER_SDK_NAME)"
    unfolding e by simp_all
  have p: "dget e ''payload'' = Some (PDict p)" unfolding e by simp
  then show "\<exists>p. dget e ''payload'' = Some (PDict p)" by blast
  from p sp show "payload_of e = payload_of event" by (simp add: payload_of_def dgetn_def [of e])
  show "k \<notin> {''schema_version'', ''event_id'', ''event_type'', ''occurred_at'', ''sdk_name'', ''sdk_version'', ''service'',
      ''payload'', ''correlation'', ''context''} \<longrightarrow> dget e k = None"
    unfolding e using t [of k] by simp
qed

lemma fall_back_Again:
  assumes "fall_back e = Again f"
  shows "\<exists>g. f = PDict g \<and> dgetn g ''event_type'' \<noteq> PStr ''diagnostic_context'' \<and>
    (\<forall>k \<in> set optional_fields. \<not> has_key k (payload_of g))"
proof -
  from assms have w: "without_optional (PDict e) = Some f"
    by (auto simp: fall_back_def simp del: without_optional.simps split: option.splits)
  then have "dgetn e ''event_type'' \<noteq> PStr ''diagnostic_context''" by (auto split: if_splits)
  moreover have "f = PDict (dput ''payload'' (PDict (without_keys optional_fields (payload_of e))) e)"
    by (rule without_optional_eq [OF w])
  ultimately show ?thesis by (auto simp: dgetn_def payload_of_def has_key_def)
qed

lemma once_settles:
  assumes "dgetn g ''event_type'' \<noteq> PStr ''diagnostic_context''" "\<forall>k \<in> set optional_fields. \<not> has_key k (payload_of g)"
  shows "sanitize_once sanitize valid evidence_ok serv_over env_over g \<noteq> Again f"
proof (cases "relay_base serv_over env_over g")
  case (Some e)
  from relay_base_fields [OF this] assms have "\<not> carries_evidence e"
    by (simp add: carries_evidence_def dgetn_def)
  with Some show ?thesis by (auto simp: sanitize_once_def split: cleaning.splits)
qed (simp add: sanitize_once_def)

lemma once_again:
  assumes "sanitize_once sanitize valid evidence_ok serv_over env_over event = Again f"
  shows "\<exists>e. fall_back e = Again f"
  using assms by (auto simp: sanitize_once_def split: option.splits if_splits cleaning.splits)

text \<open>
  Sanitizing a browser event always returns, and it takes at most one retry without the optional evidence: the
  event that is kept is the result of the first attempt or of the attempt on its reduction.
\<close>

theorem sanitize_event_total:
  shows "\<exists>out. sanitize_event sanitize valid evidence_ok serv_over env_over event = Some out \<and>
    (case out of None \<Rightarrow> True
     | Some e \<Rightarrow> sanitize_once sanitize valid evidence_ok serv_over env_over event = Kept e \<or>
         (\<exists>g. sanitize_once sanitize valid evidence_ok serv_over env_over event = Again (PDict g) \<and>
           sanitize_once sanitize valid evidence_ok serv_over env_over g = Kept e))"
proof (cases "sanitize_once sanitize valid evidence_ok serv_over env_over event")
  case (Again f)
  from once_again [OF this] fall_back_Again obtain g where g: "f = PDict g"
    "dgetn g ''event_type'' \<noteq> PStr ''diagnostic_context''" "\<forall>k \<in> set optional_fields. \<not> has_key k (payload_of g)" by blast
  have "\<exists>out. sanitize_event sanitize valid evidence_ok serv_over env_over g = Some out \<and>
    (case out of None \<Rightarrow> True | Some e \<Rightarrow> sanitize_once sanitize valid evidence_ok serv_over env_over g = Kept e)"
    using once_settles [OF g(2,3)] by (subst sanitize_event.simps) (auto split: sanitized.splits)
  moreover have "sanitize_event sanitize valid evidence_ok serv_over env_over event =
      sanitize_event sanitize valid evidence_ok serv_over env_over g"
    using Again g(1) by (subst sanitize_event.simps) simp
  ultimately show ?thesis using Again g(1) by (auto split: option.splits)
qed (subst sanitize_event.simps, simp)+

subsection \<open>What a batch becomes\<close>

lemma map_filter_of_map: "List.map_filter f (map g xs) = List.map_filter (f \<circ> g) xs"
  by (induction xs) (simp_all add: map_filter_simps split: option.split)

lemma take_batch_counts:
  "take_batch env r i vs = Some (events, errors, ixs) \<Longrightarrow>
   length events + length errors = length vs \<and> length ixs = length errors \<and> sorted_wrt (<) ixs \<and>
   (\<forall>n \<in> set ixs. i \<le> n) \<and>
   (\<forall>n < length vs. i + n \<in> set ixs \<longleftrightarrow> (\<exists>t. take_candidate env r (i + n) (vs ! n) = Some (Inl t))) \<and>
   events = List.map_filter (\<lambda>n. case take_candidate env r (i + n) (vs ! n) of Some (Inr e) \<Rightarrow> Some e | _ \<Rightarrow> None) [0..<length vs]"
proof (induction env r i vs arbitrary: events errors ixs rule: take_batch.induct)
  case (2 env r i v vs)
  from "2.prems" obtain c es ts js where c: "take_candidate env r i v = Some c"
    and rest: "take_batch env r (Suc i) vs = Some (es, ts, js)"
    and out: "(events, errors, ixs) = (case c of Inl t \<Rightarrow> (es, t # ts, i # js) | Inr e \<Rightarrow> (e # es, ts, js))"
    by (auto split: option.splits)
  note ih = "2.IH" [OF c rest]
  have at: "i + n \<in> set ixs \<longleftrightarrow> (\<exists>t. take_candidate env r (i + n) ((v # vs) ! n) = Some (Inl t))" if "n < length (v # vs)" for n
  proof (cases n)
    case 0
    with ih c out show ?thesis by (auto split: sum.splits)
  next
    case (Suc m)
    with that have "m < length vs" by simp
    with ih have "Suc i + m \<in> set js \<longleftrightarrow> (\<exists>t. take_candidate env r (Suc i + m) (vs ! m) = Some (Inl t))" by blast
    with Suc out show ?thesis by (auto split: sum.splits)
  qed
  have up: "[0..<length (v # vs)] = 0 # map Suc [0..<length vs]" by (metis length_Cons map_Suc_upt upt_conv_Cons zero_less_Suc)
  have "es = List.map_filter (\<lambda>n. case take_candidate env r (i + Suc n) (vs ! n) of Some (Inr e) \<Rightarrow> Some e | _ \<Rightarrow> None) [0..<length vs]"
    using ih by simp
  then have "events = List.map_filter (\<lambda>n. case take_candidate env r (i + n) ((v # vs) ! n) of Some (Inr e) \<Rightarrow> Some e | _ \<Rightarrow> None)
      [0..<length (v # vs)]"
    unfolding up using c out by (auto simp: map_filter_simps map_filter_of_map comp_def split: sum.splits)
  with at ih out show ?case by (auto split: sum.splits)
qed (simp add: map_filter_simps)

lemma with_headers_status [simp]: "rs_status (with_headers discover known ixs hs code b) = code"
  by (simp add: with_headers_def)

lemma answer_decoded_202:
  assumes "answer_decoded env hs rh discover ip decoded r = Some (resp, given, r')" "rs_status resp = 202"
  shows "\<exists>d batch events errors ixs. decoded = Some (PDict d) \<and> dgetn d ''batch'' = PList batch \<and>
    take_batch env r 0 batch = Some (events, errors, ixs) \<and> conclude env hs rh discover ip events errors ixs r = (resp, given, r')"
  using assms by (auto simp: answer_decoded_def turn_away_def split: option.splits pyval.splits)

lemma answer_method_202:
  assumes "answer_method env hs rh discover rq r = Some (resp, given, r')" "rs_status resp = 202"
  shows "\<exists>r1. is_rate_limited (rq_ip_address rq) (env_now env) r = (False, r1) \<and>
    answer_decoded env hs rh discover (rq_ip_address rq) (env_loads env (rq_body rq)) r1 = Some (resp, given, r')"
  using assms by (auto simp: answer_method_def turn_away_def split: if_splits prod.splits)

lemma handle_asks:
  assumes "handle env rq r = Some (resp, given, r')" "rs_status resp \<noteq> 403"
  shows "is_origin_allowed (env_lib env) r (normalize_headers (rq_headers rq)) \<and>
    (\<exists>rh discover. answer_method env (normalize_headers (rq_headers rq)) rh discover rq r = Some (resp, given, r'))"
  using assms by (auto simp: handle_def Let_def split: if_splits option.splits)

lemma handle_202:
  assumes "handle env rq r = Some (resp, given, r')" "rs_status resp = 202"
  shows "\<exists>hs rh discover d batch events errors ixs r1. env_loads env (rq_body rq) = Some (PDict d) \<and>
    dgetn d ''batch'' = PList batch \<and> take_batch env r1 0 batch = Some (events, errors, ixs) \<and>
    conclude env hs rh discover (rq_ip_address rq) events errors ixs r1 = (resp, given, r')"
proof -
  from handle_asks [OF assms(1)] assms(2) obtain rh discover where
    "answer_method env (normalize_headers (rq_headers rq)) rh discover rq r = Some (resp, given, r')" by auto
  from answer_method_202 [OF this assms(2)] obtain r1 where
    "answer_decoded env (normalize_headers (rq_headers rq)) rh discover (rq_ip_address rq) (env_loads env (rq_body rq)) r1 =
      Some (resp, given, r')" by blast
  from answer_decoded_202 [OF this assms(2)] show ?thesis by blast
qed

lemma outcome_reported:
  "\<exists>b. rs_body (with_headers discover known ixs rh code (Some (outcome_body events errors))) = Some b \<and>
    dget b ''accepted'' = Some (PInt (int (length events))) \<and> dget b ''rejected'' = Some (PInt (int (length errors)))"
  by (simp add: with_headers_def outcome_body_def Let_def)

lemma conclude_202:
  assumes "conclude env hs rh discover ip events errors ixs r1 = (resp, given, r')" "rs_status resp = 202"
  shows "\<exists>known. resp = with_headers discover known ixs rh 202 (Some (outcome_body events errors))"
    and "events \<noteq> [] \<longrightarrow> deliver_events (env_fr env) (env_clock env) (env_transport env) (env_io env) events discover r1 = Some (True, r')"
  using assms by (auto simp: conclude_def Let_def split: if_splits option.splits)

text \<open>
  A relay answers 202 only when it has read a batch and settled every entry of it once: each entry is either an accepted
  event, in order, or a rejected index with its error; the body reports exactly these two counts, and the accepted
  events have been delivered.
\<close>

theorem accepted_batch_settled:
  assumes "handle env rq r = Some (resp, given, r')" "rs_status resp = 202"
  shows "\<exists>r1 d batch events errors ixs b.
    env_loads env (rq_body rq) = Some (PDict d) \<and> dgetn d ''batch'' = PList batch \<and>
    take_batch env r1 0 batch = Some (events, errors, ixs) \<and> length events + length errors = length batch \<and>
    (\<forall>n < length batch. n \<in> set ixs \<longleftrightarrow> (\<exists>t. take_candidate env r1 n (batch ! n) = Some (Inl t))) \<and>
    rs_body resp = Some b \<and> dget b ''accepted'' = Some (PInt (int (length events))) \<and>
    dget b ''rejected'' = Some (PInt (int (length errors))) \<and>
    (events \<noteq> [] \<longrightarrow> (\<exists>discover. deliver_events (env_fr env) (env_clock env) (env_transport env) (env_io env) events discover r1
        = Some (True, r')))"
proof -
  from handle_202 [OF assms] obtain hs rh discover d batch events errors ixs r1 where
    h: "env_loads env (rq_body rq) = Some (PDict d)" "dgetn d ''batch'' = PList batch"
    "take_batch env r1 0 batch = Some (events, errors, ixs)"
    "conclude env hs rh discover (rq_ip_address rq) events errors ixs r1 = (resp, given, r')" by blast
  from conclude_202(1) [OF h(4) assms(2)] outcome_reported obtain b where b: "rs_body resp = Some b"
    "dget b ''accepted'' = Some (PInt (int (length events)))" "dget b ''rejected'' = Some (PInt (int (length errors)))" by blast
  from take_batch_counts [OF h(3)] have c: "length events + length errors = length batch"
    "\<forall>n < length batch. n \<in> set ixs \<longleftrightarrow> (\<exists>t. take_candidate env r1 n (batch ! n) = Some (Inl t))" by auto
  show ?thesis
    by (intro exI conjI) (rule h(1), rule h(2), rule h(3), rule c(1), rule c(2), rule b(1), rule b(2), rule b(3),
      use conclude_202(2) [OF h(4) assms(2)] in blast)
qed

definition test_surroundings :: "pyval option \<Rightarrow> surroundings" where
  "test_surroundings v = \<lparr>env_fr = (\<lambda>q. []), env_lib = plain_lib, env_loads = (\<lambda>s. v), env_query_flags = (\<lambda>q. []),
     env_valid = (\<lambda>v. True), env_evidence_ok = (\<lambda>v. True), env_clock = (\<lambda>n. 0), env_transport = accepting,
     env_io = \<lparr>dir_made = True, file_written = True, write_ms = 1\<rparr>, env_now = 30, env_accept = None\<rparr>"

definition test_request :: relay_request where
  "test_request = \<lparr>rq_method = ''POST'', rq_headers = [(''Origin'', ''http://app.test''), (''Content-Type'', ''application/json''),
     (''X-Debugbundle-Evidence'', ''1'')], rq_url = ''/'', rq_body = ''{}'', rq_ip_address = None\<rparr>"

lemma test_handled:
  "\<exists>resp r'. handle (test_surroundings (Some (PDict [(PStr ''batch'', PList [PInt 3])]))) test_request idle_relay = Some (resp, None, r') \<and>
     rs_status resp = 202"
proof -
  have n: "normalize_headers (rq_headers test_request) = [(''origin'', ''http://app.test''), (''content-type'', ''application/json''),
      (''x-debugbundle-evidence'', ''1'')]" unfolding test_request_def by code_simp
  have o: "source_origin plain_lib [(''origin'', ''http://app.test''), (''content-type'', ''application/json''),
      (''x-debugbundle-evidence'', ''1'')] = Some ''http://app.test''" by code_simp
  have c: "is_supported_content_type (Some ''application/json'')" "str_upper ''POST'' = ''POST''" by code_simp+
  have f: "rq_method test_request = ''POST''" "rq_body test_request = ''{}''" "rq_ip_address test_request = None"
    by (simp_all add: test_request_def)
  have r: "allowed_origins idle_relay = [''http://app.test'']" "max_body_bytes idle_relay = 262144"
    "rate_limit_per_minute idle_relay = 2" "rate_limit_state idle_relay = []"
    by (simp_all add: idle_relay_def)
  have e: "env_lib (test_surroundings v) = plain_lib" "env_loads (test_surroundings v) = (\<lambda>s. v)" for v
    by (simp_all add: test_surroundings_def)
  show ?thesis
    by (simp add: handle_def n o c f r e is_origin_allowed_def answer_method_def is_rate_limited_def answer_decoded_def dgetn_def
        take_candidate_def conclude_def)
qed

theorem accepted_batch_settled_witness:
  "\<exists>resp r' b. handle (test_surroundings (Some (PDict [(PStr ''batch'', PList [PInt 3])]))) test_request idle_relay = Some (resp, None, r') \<and>
     rs_status resp = 202 \<and> rs_body resp = Some b \<and> dget b ''accepted'' = Some (PInt 0) \<and> dget b ''rejected'' = Some (PInt 1)"
proof -
  let ?env = "test_surroundings (Some (PDict [(PStr ''batch'', PList [PInt 3])]))"
  obtain resp r' where h: "handle ?env test_request idle_relay = Some (resp, None, r')" "rs_status resp = 202"
    using test_handled by blast
  have l: "env_loads ?env (rq_body test_request) = Some (PDict [(PStr ''batch'', PList [PInt 3])])"
    by (simp add: test_surroundings_def)
  from accepted_batch_settled [OF h] obtain r1 d batch events errors ixs b where
    s: "env_loads ?env (rq_body test_request) = Some (PDict d)" "dgetn d ''batch'' = PList batch"
    "take_batch ?env r1 0 batch = Some (events, errors, ixs)" "rs_body resp = Some b"
    "dget b ''accepted'' = Some (PInt (int (length events)))" "dget b ''rejected'' = Some (PInt (int (length errors)))" by blast
  from s(1) l have "d = [(PStr ''batch'', PList [PInt 3])]" by simp
  with s(2) have "batch = [PInt 3]" by (simp add: dgetn_def)
  with s(3) have "events = [] \<and> length errors = 1" by (auto simp: take_candidate_def)
  with h s(4-6) show ?thesis by simp
qed

subsection \<open>What is accepted\<close>

lemma clean_field_facts:
  "clean_field sanitize k c = Cleaned u \<longleftrightarrow> (\<exists>e v. c = Cleaned e \<and> sanitize (dgetn e k) = Inr v \<and> u = dput k v e)"
  by (auto simp: clean_field_def split: cleaning.splits sum.splits)

lemma clean_event_facts:
  assumes "clean_event sanitize e = Cleaned u"
  shows "\<exists>v. sanitize (dgetn e ''payload'') = Inr v \<and> dget u ''payload'' = Some v"
    "k \<notin> {''payload'', ''service'', ''context''} \<Longrightarrow> dget u k = dget e k"
  using assms by (auto simp: clean_event_def Let_def clean_field_facts split: sum.splits if_splits)

lemma once_kept:
  assumes "sanitize_once sanitize valid evidence_ok serv_over env_over event = Kept u"
  shows "dget u ''sdk_name'' = Some (PStr BROWSER_SDK_NAME)" "dget u ''event_type'' = Some (dgetn event ''event_type'')"
    "\<exists>v w. sanitize v = Inr w \<and> dget u ''payload'' = Some w"
proof -
  from assms obtain e where e: "relay_base serv_over env_over event = Some e" "clean_event sanitize e = Cleaned u"
    by (auto simp: sanitize_once_def fall_back_def simp del: without_optional.simps
        split: option.splits if_splits cleaning.splits)
  from relay_base_fields [OF e(1)] clean_event_facts [OF e(2)]
  show "dget u ''sdk_name'' = Some (PStr BROWSER_SDK_NAME)" "dget u ''event_type'' = Some (dgetn event ''event_type'')"
    "\<exists>v w. sanitize v = Inr w \<and> dget u ''payload'' = Some w" by auto
qed

lemma once_again_type:
  assumes "sanitize_once sanitize valid evidence_ok serv_over env_over event = Again (PDict g)"
  shows "dgetn g ''event_type'' = dgetn event ''event_type''"
proof -
  from assms obtain e u where e: "relay_base serv_over env_over event = Some e" "fall_back u = Again (PDict g)"
    "clean_event sanitize e = Cleaned u \<or> clean_event sanitize e = Unsafe_at u"
    by (auto simp: sanitize_once_def split: option.splits if_splits cleaning.splits)
  have g: "dgetn g ''event_type'' = dgetn u ''event_type''"
    using e(2) without_optional_eq [of u "PDict g"]
    by (auto simp: fall_back_def dgetn_def simp del: without_optional.simps split: option.splits)
  have "dget u ''event_type'' = dget e ''event_type''"
    using e(3)
  proof
    assume "clean_event sanitize e = Unsafe_at u"
    then show ?thesis
      by (auto simp: clean_event_def Let_def clean_field_def split: sum.splits if_splits cleaning.splits)
  qed (rule clean_event_facts, simp_all)
  with g relay_base_fields [OF e(1)] show ?thesis by (simp add: dgetn_def)
qed

lemma sanitized_kept:
  assumes "sanitize_event sanitize valid evidence_ok serv_over env_over event = Some (Some u)"
  shows "dget u ''sdk_name'' = Some (PStr BROWSER_SDK_NAME) \<and> dget u ''event_type'' = Some (dgetn event ''event_type'') \<and>
    (\<exists>v w. sanitize v = Inr w \<and> dget u ''payload'' = Some w)"
proof (cases "sanitize_once sanitize valid evidence_ok serv_over env_over event")
  case Rejected
  with assms show ?thesis by (subst (asm) sanitize_event.simps) simp
next
  case (Kept e)
  with assms have "e = u" by (subst (asm) sanitize_event.simps) simp
  with once_kept [OF Kept] show ?thesis by blast
next
  case (Again f)
  from once_again [OF this] fall_back_Again obtain g where g: "f = PDict g"
    "dgetn g ''event_type'' \<noteq> PStr ''diagnostic_context''" "\<forall>k \<in> set optional_fields. \<not> has_key k (payload_of g)" by blast
  from assms Again g(1) have "sanitize_event sanitize valid evidence_ok serv_over env_over g = Some (Some u)"
    by (subst (asm) sanitize_event.simps) simp
  with once_settles [OF g(2,3)] have "sanitize_once sanitize valid evidence_ok serv_over env_over g = Kept u"
    by (subst (asm) sanitize_event.simps) (auto split: sanitized.splits)
  from once_kept [OF this] once_again_type [OF Again [unfolded g(1)]] show ?thesis by simp
qed

lemma strip_identity:
  assumes "strip_unsupported (PDict e) fs = Some (PDict u)"
  shows "k \<notin> {''payload'', ''context''} \<Longrightarrow> dget u k = dget e k"
    "dget (payload_of u) k = Some x \<Longrightarrow> dget (payload_of e) k = Some x"
proof -
  from strip_facts [OF assms, THEN conjunct2] obtain e0 p where e0: "PDict e = PDict e0" "dgetn e0 ''payload'' = PDict p"
    "if one_str (dgetn e0 ''event_type'') [''diagnostic_context''] then PDict u = PDict e
       else \<exists>e' p'. PDict u = PDict e' \<and> dgetn e' ''payload'' = PDict p' \<and>
         (\<forall>k. dget p' k = (if supported fs k then dget p k else None)) \<and>
         (\<forall>k. k \<notin> {''payload'', ''context''} \<longrightarrow> dget e' k = dget e0 k) \<and>
         (references_off fs \<longrightarrow> context_reference (dgetn e' ''context'') = None)" by (elim exE conjE)
  then have eq: "e0 = e" by simp
  have p: "dgetn e ''payload'' = PDict p" using e0(2) eq by simp
  have or: "u = e \<or> (\<exists>p'. dgetn u ''payload'' = PDict p' \<and> (\<forall>k. dget p' k = (if supported fs k then dget p k else None)) \<and>
       (\<forall>k. k \<notin> {''payload'', ''context''} \<longrightarrow> dget u k = dget e k))"
  proof (cases "one_str (dgetn e0 ''event_type'') [''diagnostic_context'']")
    case True
    with e0(3) have "u = e" by (simp only: if_True pyval.inject)
    then show ?thesis ..
  next
    case False
    with e0(3) eq show ?thesis by (simp only: if_False pyval.inject) blast
  qed
  show "dget u k = dget e k" if "k \<notin> {''payload'', ''context''}" using or that by auto
  show "dget (payload_of e) k = Some x" if "dget (payload_of u) k = Some x"
    using or
  proof (elim disjE exE conjE)
    fix p' assume "dgetn u ''payload'' = PDict p'" "\<forall>k. dget p' k = (if supported fs k then dget p k else None)"
    with p that show ?thesis by (simp add: payload_of_def split: if_splits)
  qed (use that in simp)
qed

lemma prepare_identity:
  assumes "prepare_event fr e token = Inr (Some p)"
  shows "k \<notin> {''payload'', ''context'', ''project_token''} \<Longrightarrow> dget p k = dget e k"
    "k \<notin> set optional_fields \<Longrightarrow> dget (payload_of p) k = dget (payload_of e) k"
proof -
  let ?owned = "dput ''project_token'' (PStr token) e"
  have "\<exists>r. same_identity ?owned r \<and> p = without_keys [''project_token''] r"
  proof (cases "dgetn e ''event_type'' = PStr ''analytics_event''")
    case True
    with assms have "p = without_keys [''project_token''] ?owned"
      by (auto simp: prepare_event_def Let_def event_bytes_def split: option.splits sum.splits if_splits)
    then show ?thesis using same_identity_refl by blast
  next
    case False
    with assms obtain r where f: "fit_event fr (Some ?owned) = Inr (Some (PDict r))" "p = without_keys [''project_token''] r"
      by (auto simp: prepare_event_def Let_def split: option.splits sum.splits if_splits pyval.splits)
    from fit_facts [OF f(1)] have "same_identity ?owned r" by (auto simp: fitted_def)
    with f(2) show ?thesis by blast
  qed
  then obtain r where r: "same_identity ?owned r" "p = without_keys [''project_token''] r" by blast
  then show "dget p k = dget e k" if "k \<notin> {''payload'', ''context'', ''project_token''}"
    using that by (auto simp: same_identity_def)
  have "payload_of p = payload_of r" "payload_of ?owned = payload_of e"
    using r(2) by (simp_all add: payload_of_def dgetn_def)
  then show "dget (payload_of p) k = dget (payload_of e) k" if "k \<notin> set optional_fields"
    using that r(1) by (auto simp: same_identity_def)
qed


definition quiet_event :: pydict where
  "quiet_event = [(PStr ''schema_version'', PStr ''v''), (PStr ''event_id'', PStr ''i''), (PStr ''event_type'', PStr ''error_suppressed''),
     (PStr ''occurred_at'', PStr ''t''), (PStr ''sdk_version'', PStr ''v''),
     (PStr ''service'', PDict [(PStr ''name'', PStr ''web''), (PStr ''environment'', PStr ''prod'')]), (PStr ''payload'', PDict [])]"

lemma browser_name_kept: "scrub_text plain_lib [] BROWSER_SDK_NAME = BROWSER_SDK_NAME"
proof -
  let ?t = "''@debugbundle/sdk-browser''"
  have "needs is_space (LitI ''-----BEGIN '')" by (rule needs_LitI [of "CHR '' ''"]) (simp_all add: is_space_def)
  then have pem: "needs is_space PEM_START" by (simp add: PEM_START_def)
  then have pem2: "needs is_space PEM" by (simp add: PEM_def)
  have l: "lacks is_space ?t" "lacks (\<lambda>c. c = CHR '':'') ?t" "lacks (\<lambda>c. c = CHR ''_'') ?t"
    "lacks (\<lambda>c. c = CHR '':'' \<or> c = CHR ''='') ?t" "lacks is_digit ?t" "lacks (\<lambda>c. c = CHR ''%'') ?t"
    by (simp_all add: is_space_def is_digit_def)
  have "decoded_text plain_lib ?t = Some ?t"
    using needs_no_search [OF pem l(1)] needs_no_search [OF other_patterns(3) l(6)] by (simp add: decoded_text_def)
  moreover have "scrub_patterns [] ?t = ?t"
    using needs_no_sub [OF disjI2 [OF pem2] l(1)] needs_no_sub [OF disjI2 [OF colon_patterns(1)] l(2)]
      needs_no_sub [OF disjI2 [OF other_patterns(1)] l(1)] needs_no_sub [OF disjI2 [OF other_patterns(2)] l(3)]
      needs_no_sub [OF disjI1 [OF other_patterns(4)] l(4)] needs_no_sub [OF disjI2 [OF other_patterns(5)] l(5)]
    by (simp add: scrub_patterns_def scrub_cards_def)
  ultimately show ?thesis using needs_no_sub [OF disjI2 [OF colon_patterns(2)] l(2)]
    by (simp add: scrub_text_def BROWSER_SDK_NAME_def)
qed

lemma quiet_taken:
  "\<exists>e. take_candidate (test_surroundings None) idle_relay 0 (PDict quiet_event) = Some (Inr e)"
proof -
  let ?san = "sanitize_telemetry plain_lib (\<lambda>s. None) (\<lambda>q. []) []"
  have e: "env_sanitize (test_surroundings None) = ?san" by (simp add: test_surroundings_def)
  have v: "?san (PStr ''v'') = Inr (PStr ''v'')"
    by (rule sanitize_text) (simp_all add: word_kept opens_json_def starts_with_def json_str_def json_char_def)
  have b: "?san (PStr BROWSER_SDK_NAME) = Inr (PStr BROWSER_SDK_NAME)"
    by (rule sanitize_text) (simp_all add: browser_name_kept, simp_all add: BROWSER_SDK_NAME_def opens_json_def starts_with_def
        json_str_def json_char_def)
  have p: "?san (PDict []) = Inr (PDict [])"
    by (simp add: sanitize_telemetry_def visit_value.simps json_bytes_def)
  let ?s = "PDict [(PStr ''name'', PStr ''web''), (PStr ''environment'', PStr ''prod''), (PStr ''runtime'', PNone), (PStr ''framework'', PNone)]"
  have k: "scrub_text plain_lib [] k = k \<and> \<not> sensitive_key k (all_fields []) \<and> length k \<le> 128"
    if "k \<in> {''name'', ''environment'', ''runtime'', ''framework''}" for k
  proof -
    have w: "word k" using that by auto
    then show ?thesis using that word_kept [OF w] unfolding word_sensitive [OF w] canonical_fields by auto
  qed
  have s: "?san ?s = Inr ?s"
    using k by (simp add: sanitize_telemetry_def visit_value.simps nested_json_def opens_json_def starts_with_def plain_text_def
        word_kept json_bytes_def json_str_def json_char_def)
  have base: "relay_base [] [] quiet_event = Some [(PStr ''schema_version'', PStr ''v''), (PStr ''event_id'', PStr ''i''),
      (PStr ''event_type'', PStr ''error_suppressed''), (PStr ''occurred_at'', PStr ''t''), (PStr ''sdk_name'', PStr BROWSER_SDK_NAME),
      (PStr ''sdk_version'', PStr ''v''), (PStr ''service'', ?s), (PStr ''payload'', PDict [])]" (is "_ = Some ?e")
    by (simp add: relay_base_def quiet_event_def dgetn_def nonempty_text_def relay_service_def text_or_none_def override_def
        relay_correlation_def)
  have c: "clean_event ?san ?e = Cleaned ?e"
    by (simp add: clean_event_def has_safe_event_identity_def dgetn_def py_or_def v b clean_field_def p s dput_def has_key_def)
  have ne: "\<not> carries_evidence ?e"
    by (simp add: carries_evidence_def dgetn_def payload_of_def has_key_def)
  have "sanitize_once ?san valid evidence_ok [] [] quiet_event = Kept ?e" for valid evidence_ok
    using c ne by (simp add: sanitize_once_def base)
  then have se: "sanitize_event ?san valid evidence_ok [] [] quiet_event = Some (Some ?e)" for valid evidence_ok
    by (subst sanitize_event.simps) simp
  have st: "strip_unsupported (PDict ?e) [] = Some (PDict ?e)"
    by (simp add: dgetn_def ddel_def dput_def str_keys_def)
  have t: "one_str (dgetn quiet_event ''event_type'') ACCEPTED_EVENT_TYPES"
    by (simp add: quiet_event_def dgetn_def ACCEPTED_EVENT_TYPES_def)
  have f: "fw_features (relay_forwarder idle_relay) = []" "has_forwarder idle_relay = False" "service_override idle_relay = []"
    "environment_override idle_relay = []"
    by (simp_all add: idle_relay_def idle_forwarder_def)
  have ne2: "dgetn ?e ''event_type'' \<noteq> PStr ''analytics_event''" by (simp add: dgetn_def)
  show ?thesis
    using ne2 by (simp add: take_candidate_def t e f se st Let_def del: strip_unsupported.simps)
qed


subsection \<open>Refused requests\<close>

lemma answer_decoded_refused:
  "answer_decoded env hs rh discover ip decoded r = Some (resp, given, r') \<Longrightarrow> decoded = None \<Longrightarrow> r' = r \<and> given = None"
  by (simp add: answer_decoded_def turn_away_def)

lemma answer_method_effects:
  assumes "answer_method env hs rh discover rq r = Some (resp, given, r')" "r' \<noteq> r \<or> given \<noteq> None"
  shows "str_upper (rq_method rq) = ''POST'' \<and> is_supported_content_type (map_of hs ''content-type'') \<and>
    int (utf8_len (rq_body rq)) \<le> max_body_bytes r"
    and "given \<noteq> None \<or> relay_forwarder r' \<noteq> relay_forwarder r \<Longrightarrow> \<not> fst (is_rate_limited (rq_ip_address rq) (env_now env) r)"
  using assms by (auto simp: answer_method_def turn_away_def is_rate_limited_def Let_def split: if_splits prod.splits)


definition foreign_request :: relay_request where
  "foreign_request = test_request\<lparr>rq_headers := [(''Origin'', ''http://evil.test'')]\<rparr>"


subsection \<open>Spool first\<close>

text \<open>
  C27: In the durable mode a batch is written before it is forwarded: delivering succeeds exactly when the spool file was
  written, nothing is forwarded without it, and the file is marked delivered only when the destination's
  acknowledgements account for every event of the batch.
\<close>

theorem spool_before_forward:
  assumes "deliver_events fr clock transport io events discover r = Some (ok, r')"
    and "project_mode r = Some ''connected''" "durable_write r" "events \<noteq> []"
  shows "\<exists>name result ts. service_of r events = Some name \<and>
    write_through io (spool_dir r) name events (spool_transports r) = (result, ts) \<and>
    ok = (write_status result = 202) \<and>
    (relay_forwarder r' \<noteq> relay_forwarder r \<longrightarrow> write_status result = 202) \<and>
    (delivered_marks r' = delivered_marks r \<or>
     (\<exists>path new. written_file_path result = Some path \<and> delivered_marks r' = delivered_marks r @ [path] \<and>
       trace (relay_forwarder r') = trace (relay_forwarder r) @ new \<and> accepted_total new = int (length events)))"
proof -
  from assms(1,2,3) obtain name where n: "service_of r events = Some name"
    and d: "deliver_spooled fr clock transport io name events discover r = (ok, r')"
    by (auto simp: deliver_events_def split: if_splits)
  obtain result ts where w: "write_through io (spool_dir r) name events (spool_transports r) = (result, ts)" by fastforce
  have path: "write_status result = 202 \<longleftrightarrow> written_file_path result \<noteq> None"
    using w assms(4) by (auto simp: write_through_def spool_write_def Let_def split: if_splits prod.splits)
  let ?r1 = "r\<lparr>spool_transports := ts\<rparr>"
  show ?thesis
  proof (cases "write_status result = 202")
    case False
    with d w have "ok = False" "r' = ?r1" by (simp_all add: deliver_spooled_def)
    with n w False show ?thesis by auto
  next
    case True
    then obtain p where p: "written_file_path result = Some p" using path by auto
    obtain configured success fully r2 where f: "forward_connected_events fr clock transport events discover ?r1 =
        ((configured, success, fully), r2)" by (metis surj_pair)
    with d w True p have ok: "ok = True" "r' = (if fully then r2\<lparr>delivered_marks := delivered_marks r2 @ [p]\<rparr> else r2)"
      by (auto simp: deliver_spooled_def Let_def)
    have m: "delivered_marks r2 = delivered_marks r"
      using f by (auto simp: forward_connected_events_def Let_def split: if_splits prod.splits)
    have "\<exists>new. trace (relay_forwarder r2) = trace (relay_forwarder r) @ new \<and> accepted_total new = int (length events)" if fully
    proof -
      from f that obtain fw where "send_verified fr clock transport (http_forwarder ?r1) (relay_token ?r1) events discover (relay_forwarder ?r1)
          = ((configured, success, True), fw)" "relay_forwarder r2 = fw"
        by (auto simp: forward_connected_events_def Let_def split: if_splits prod.splits)
      with complete_facts [OF this(1)] show ?thesis by simp
    qed
    with n w True ok p m show ?thesis by (cases fully) auto
  qed
qed

definition durable_relay :: relay where
  "durable_relay = idle_relay\<lparr>project_mode := Some ''connected'', service_override := ''web''\<rparr>"

theorem spool_before_forward_witness:
  "\<exists>r'. deliver_events (\<lambda>q. []) (\<lambda>n. 0) accepting \<lparr>dir_made = True, file_written = False, write_ms = 1\<rparr> [page_view] False durable_relay =
      Some (False, r') \<and> relay_forwarder r' = relay_forwarder durable_relay"
proof -
  let ?io = "\<lparr>dir_made = True, file_written = False, write_ms = 1\<rparr>"
  have m: "project_mode durable_relay = Some ''connected''" "durable_write durable_relay" "service_override durable_relay = ''web''"
    "spool_transports durable_relay = []"
    by (simp_all add: durable_relay_def idle_relay_def)
  have "\<exists>r'. deliver_events (\<lambda>q. []) (\<lambda>n. 0) accepting ?io [page_view] False durable_relay = Some (False, r')"
    by (simp add: deliver_events_def m service_of_def deliver_spooled_def write_through_def spool_write_def new_spool_def Let_def)
  then obtain r' where d: "deliver_events (\<lambda>q. []) (\<lambda>n. 0) accepting ?io [page_view] False durable_relay = Some (False, r')" by blast
  from spool_before_forward [OF d m(1,2)] have "relay_forwarder r' = relay_forwarder durable_relay" by auto
  with d show ?thesis by blast
qed

subsection \<open>Two behaviours of note\<close>

text \<open>
  The referer stands in for a missing origin without its port: a page on another port is taken for the allowed origin,
  and an allowed origin with a port is never matched by a referer.
\<close>

lemma referer_ignores_port:
  "is_origin_allowed plain_lib idle_relay [(''referer'', ''http://app.test:8080/x'')] \<and>
   \<not> is_origin_allowed plain_lib (idle_relay\<lparr>allowed_origins := [''http://app.test:8080'']\<rparr>) [(''referer'', ''http://app.test:8080/x'')]"
proof -
  have "source_origin plain_lib [(''referer'', ''http://app.test:8080/x'')] = Some ''http://app.test''"
    "normalize_origin ''http://app.test:8080'' \<noteq> normalize_origin ''http://app.test''" by code_simp+
  then show ?thesis by (simp add: is_origin_allowed_def idle_relay_def)
qed

text \<open>A NaN in a payload passes the sanitizer and makes the sizing of a forwarded event raise.\<close>

lemma nan_makes_sizing_raise:
  "sanitize_telemetry plain_lib loads fr [] (PFloat NaN) = Inr (PFloat NaN) \<and>
   prepare_event fr [(PStr ''event_type'', PStr ''analytics_event''), (PStr ''payload'', PList [PFloat NaN])] token = Inl Unserialisable"
  by (simp add: sanitize_telemetry_def visit_value.simps json_bytes_def prepare_event_def dgetn_def event_bytes_def dput_def)

end
