(* ===== verification/Redacted_Path.thy ===== *)
theory Redacted_Path
  imports Delivery Redaction_Facts
begin

text \<open>
  Where redaction and delivery meet: the marker \<open>[REDACTED]\<close> in a request path that begins with two slashes
  reads as a bracketed host, on which \<open>urllib.parse\<close> raises. The decision on a replacement reads the path
  again when the event is finalized, outside every \<open>try\<close>.
\<close>

text \<open>A flush that died under way leaves \<open>sending\<close> set, and nothing but a fork clears it.\<close>

lemma dead_flush_step:
  assumes "step dp fr fromiso br to_iso me mb x y" "x = (s, Idle)" "sending s" "queue_ok fr me mb s"
  shows "\<exists>t. y = (t, Idle) \<and> sending t \<and> queue_ok fr me mb t"
  using assms
proof (cases rule: step.cases)
  case (offer oid s0 e now b s' fl)
  with assms offer_ok [OF _ _ refl, of fr me mb s oid fromiso now e] show ?thesis
    by (fastforce simp: undisturbed_def)
next
  case (refused now s0 s' fl)
  with assms show ?thesis by (auto simp: flush_start_def)
next
  case (init s0 fl opt)
  with assms show ?thesis using init_ok by (auto simp: init_queue_def dispose_queue_def Let_def)
next
  case (dispose s0 fl)
  with assms show ?thesis by (auto simp: dispose_queue_def queue_ok_def empty_budget_ok)
next
  case (configure s0 fl p)
  with assms show ?thesis by (auto simp: queue_ok_def)
qed (auto simp: flush_start_def may_prepare_event_def count_drop_def queue_ok_def)

lemma dead_flush:
  assumes "(step dp fr fromiso br to_iso me mb)\<^sup>*\<^sup>* (s, Idle) y" "sending s" "queue_ok fr me mb s"
  shows "\<exists>t. y = (t, Idle) \<and> sending t \<and> queue_ok fr me mb t"
  using assms(1)
proof (induction rule: rtranclp_induct)
  case base
  with assms show ?case by blast
next
  case (step y z)
  then show ?case using dead_flush_step by blast
qed

definition card_path :: string where "card_path = ''//4111111111111111''"
definition redacted_path :: string where "redacted_path = ''//[REDACTED]''"

lemma card_path_scrubbed: "scrub_text lib extra card_path = redacted_path"
proof -
  have cards: "scrub_cards card_path = redacted_path"
  proof -
    have "scrub_cards (''//'' @ ''4111111111111111'' @ []) =
        ''//'' @ (if luhn ''4111111111111111'' then REDACTED_VALUE else ''4111111111111111'') @ []"
      by (rule card_facts) (simp_all add: is_digit_def card_border_def is_alnum_def)
    moreover have "luhn ''4111111111111111''" by (simp add: luhn_def is_digit_def Let_def)
    ultimately show ?thesis by (simp add: card_path_def redacted_path_def REDACTED_VALUE_def)
  qed
  have "scrub_text lib extra card_path = scrub_cards card_path"
    by (rule only_cards_scrubbed) (simp_all only: cards, simp_all add: card_path_def redacted_path_def is_space_def)
  with cards show ?thesis by simp
qed

lemma card_path_captured:
  "should_capture_request_event br BALANCED_CAPTURE_POLICY (Some [(PStr ''path'', PStr card_path)])
     (Some [(PStr ''status_code'', PInt 429)]) = Some True"
proof -
  have "split_scheme card_path = ([], card_path)" by (simp add: split_scheme_def partition_at_def card_path_def Let_def)
  then have "urlparse_path br card_path = Some []"
    by (simp add: urlparse_path_def card_path_def starts_with_def uses_params_def drop_params_def rpartition_at_def
        partition_at_def Let_def)
  then show ?thesis
    by (simp add: should_capture_request_event_def is_immediate_request_incident_status_def matches_path_rule_def
        normalize_request_path_def BALANCED_CAPTURE_POLICY_def BALANCED_IMMEDIATE_REQUEST_STATUSES_def py_or_def
        dgetn_def card_path_def)
qed

lemma redacted_path_raises: "\<not> br ''[REDACTED]'' \<Longrightarrow> urlparse_path br redacted_path = None"
  by (simp add: urlparse_path_def redacted_path_def split_scheme_def partition_at_def starts_with_def Let_def)



end
