(* ===== verification/Scopes.thy ===== *)
theory Scopes
  imports Evidence_Wire Capture_Policy
begin

text \<open>
  \<open>operation_context.py\<close> and \<open>scope_ownership.py\<close>: who owns the current operation, the scoped context and the
  directives of a request. Each is a \<open>ContextVar\<close>: a value per execution context, which are numbers here. A task
  starts with a copy of its creator's values, so an owner can end while copies of its value live on.

  The parent of an operation or a lease never changes, so a chain of owners is a value; \<open>active\<close> changes, so the
  identities of the owners that are no longer active are kept in a list. Every owner gets one token, and
  \<open>token_id\<close> is the identity of both (the token is alive as long as its holder can still end the owner).
  \<open>None\<close> of an operation that ends something is an exception of \<open>Token.reset\<close>.
\<close>

record 'v token =
  tk_id :: nat
  tk_context :: nat
  tk_old :: "'v option"

subsection \<open>Operations\<close>

datatype operation = Operation (op_ident: nat) (op_revision: nat) (op_scope: pyval) (op_kind: string)
  (op_name: pyval) (op_limit: pyval) (op_started: rat) (op_parent: "operation option")

record operations =
  op_current :: "nat \<Rightarrow> operation option"
  revision_now :: nat
  op_ended :: "nat list"
  op_reset :: "nat list"
  op_next :: nat

definition no_operations :: operations where
  "no_operations = \<lparr>op_current = (\<lambda>c. None), revision_now = 0, op_ended = [], op_reset = [], op_next = 0\<rparr>"

definition clear_operations :: "operations \<Rightarrow> operations" where
  "clear_operations s = s\<lparr>revision_now := revision_now s + 1\<rparr>"

text \<open>The loop of \<open>current\<close>, with the number of rounds left: whether it ends at the top of a living chain.\<close>

fun op_alive :: "nat \<Rightarrow> nat \<Rightarrow> nat list \<Rightarrow> operation option \<Rightarrow> bool" where
  "op_alive 0 rv ended v = False"
| "op_alive (Suc n) rv ended None = True"
| "op_alive (Suc n) rv ended (Some v) =
     (if op_ident v \<in> set ended \<or> op_revision v \<noteq> rv then False else op_alive n rv ended (op_parent v))"

definition current_operation :: "nat \<Rightarrow> operations \<Rightarrow> operation option" where
  "current_operation c s = (if op_alive 16 (revision_now s) (op_ended s) (op_current s c) then op_current s c else None)"

fun op_chain :: "operation option \<Rightarrow> operation list" where
  "op_chain None = []"
| "op_chain (Some (Operation i rv sc k n l t p)) = Operation i rv sc k n l t p # op_chain p"

definition operation_kind :: "pydict \<Rightarrow> string" where
  "operation_kind d =
     (case dgetn d ''kind'' of
        PStr k \<Rightarrow> if k \<in> {''request'', ''command'', ''job'', ''unknown''} then k else ''unknown'' | _ \<Rightarrow> ''unknown'')"

definition operation_name :: "pydict \<Rightarrow> pyval" where
  "operation_name d =
     (case dgetn d ''name'' of PStr n \<Rightarrow> if str_strip n \<noteq> [] \<and> utf8_len n \<le> 128 then PStr n else PNone | _ \<Rightarrow> PNone)"

definition operation_limit :: "pydict \<Rightarrow> pyval" where
  "operation_limit d =
     (case num_of (dgetn d ''limit_ms'') of
        Some q \<Rightarrow> if 0 \<le> q \<and> q \<le> of_int max_double then dgetn d ''limit_ms'' else PNone | None \<Rightarrow> PNone)"

text \<open>\<open>begin\<close> in context \<open>c\<close>; the new identifier and the monotonic clock are arguments.\<close>

definition begin_operation ::
  "nat \<Rightarrow> pyval \<Rightarrow> string \<Rightarrow> rat \<Rightarrow> operations \<Rightarrow> operation token option \<times> operations" where
  "begin_operation c options ident now s =
     (let d = (case options of PDict d \<Rightarrow> d | _ \<Rightarrow> []); above = current_operation c s in
      if 15 \<le> length (op_chain above) then (None, s)
      else
        let v = Operation (op_next s) (revision_now s)
              (PDict [(PStr ''kind'', PStr ''operation''), (PStr ''operation_id'', PStr ident)])
              (operation_kind d) (operation_name d) (operation_limit d) now above
        in (Some \<lparr>tk_id = op_next s, tk_context = c, tk_old = op_current s c\<rparr>,
            s\<lparr>op_current := (op_current s)(c := Some v), op_next := op_next s + 1\<rparr>))"

fun op_find :: "nat \<Rightarrow> nat \<Rightarrow> operation option \<Rightarrow> operation option" where
  "op_find 0 t v = None"
| "op_find (Suc n) t None = None"
| "op_find (Suc n) t (Some v) = (if op_ident v = t then Some v else op_find n t (op_parent v))"

definition end_operation :: "nat \<Rightarrow> operation token option \<Rightarrow> operations \<Rightarrow> operations option" where
  "end_operation c token s =
     (case token of
        None \<Rightarrow> Some s
      | Some t \<Rightarrow>
          (case op_find 16 (tk_id t) (op_current s c) of
             None \<Rightarrow> Some s
           | Some v \<Rightarrow>
               if map_option op_ident (op_current s c) = Some (op_ident v) then
                 (if tk_context t \<noteq> c \<or> tk_id t \<in> set (op_reset s) then None
                  else Some (s\<lparr>op_current := (op_current s)(c := tk_old t), op_reset := tk_id t # op_reset s,
                               op_ended := op_ident v # op_ended s\<rparr>))
               else Some (s\<lparr>op_ended := op_ident v # op_ended s\<rparr>)))"

text \<open>\<open>snapshot\<close>.\<close>

definition operation_snapshot :: "nat \<Rightarrow> rat \<Rightarrow> operations \<Rightarrow> pyval option" where
  "operation_snapshot c now s =
     map_option (\<lambda>v. PDict [(PStr ''version'', PInt 1), (PStr ''kind'', PStr (op_kind v)), (PStr ''name'', op_name v),
       (PStr ''elapsed_ms'', if 0 < now - op_started v then PFloat (Fin ((now - op_started v) * 1000)) else PInt 0),
       (PStr ''limit_ms'', op_limit v)]) (current_operation c s)"

text \<open>The context manager around a block, which is a function of the state.\<close>

definition operation_context ::
  "nat \<Rightarrow> pyval \<Rightarrow> string \<Rightarrow> rat \<Rightarrow> (operations \<Rightarrow> 'r \<times> operations) \<Rightarrow> operations \<Rightarrow> 'r \<times> operations" where
  "operation_context c options ident now block s =
     (let (token, s1) = begin_operation c options ident now s; (r, s2) = block s1
      in (r, case end_operation c token s2 of None \<Rightarrow> s2 | Some s3 \<Rightarrow> s3))"

subsection \<open>Scopes\<close>

datatype lease = Lease (ls_ident: nat) (ls_generation: nat) (ls_parent: "lease option") (ls_operation: "operation token option")

record 'v scopes =
  sc_value :: "nat \<Rightarrow> ('v \<times> lease) option"
  sc_ended :: "nat list"
  sc_reset :: "nat list"
  sc_next :: nat

definition no_scopes :: "'v scopes" where
  "no_scopes = \<lparr>sc_value = (\<lambda>c. None), sc_ended = [], sc_reset = [], sc_next = 0\<rparr>"

fun lease_alive :: "nat \<Rightarrow> nat \<Rightarrow> nat list \<Rightarrow> lease option \<Rightarrow> bool" where
  "lease_alive 0 gen ended l = False"
| "lease_alive (Suc n) gen ended None = True"
| "lease_alive (Suc n) gen ended (Some l) =
     (if ls_ident l \<in> set ended \<or> ls_generation l \<noteq> gen then False else lease_alive n gen ended (ls_parent l))"

fun lease_chain :: "lease option \<Rightarrow> lease list" where
  "lease_chain None = []"
| "lease_chain (Some (Lease i g p t)) = Lease i g p t # lease_chain p"

definition alive :: "nat \<Rightarrow> 'v scopes \<Rightarrow> ('v \<times> lease) option \<Rightarrow> bool" where
  "alive gen s v = (case v of None \<Rightarrow> False | Some (_, l) \<Rightarrow> lease_alive 16 gen (sc_ended s) (Some l))"

definition context_value :: "nat \<Rightarrow> nat \<Rightarrow> pydict scopes \<Rightarrow> pydict" where
  "context_value gen c s = (case sc_value s c of Some (d, _) \<Rightarrow> if alive gen s (sc_value s c) then d else [] | None \<Rightarrow> [])"

text \<open>\<open>bind_context\<close> and \<open>bind_directives\<close>, which differ in the value and the operation they tie to the lease.\<close>

definition bind_scope ::
  "nat \<Rightarrow> nat \<Rightarrow> 'v \<Rightarrow> operation token option \<Rightarrow> 'v scopes \<Rightarrow> ('v \<times> lease) token \<times> 'v scopes" where
  "bind_scope gen c v operation s =
     (let parent = (case sc_value s c of Some (_, l) \<Rightarrow> if alive gen s (sc_value s c) then Some l else None | None \<Rightarrow> None)
      in (\<lparr>tk_id = sc_next s, tk_context = c, tk_old = sc_value s c\<rparr>,
          s\<lparr>sc_value := (sc_value s)(c := Some (v, Lease (sc_next s) gen parent operation)), sc_next := sc_next s + 1\<rparr>))"

definition bind_context :: "nat \<Rightarrow> nat \<Rightarrow> pydict \<Rightarrow> pydict scopes \<Rightarrow> (pydict \<times> lease) token \<times> pydict scopes" where
  "bind_context gen c protected s = bind_scope gen c protected None s"

definition bind_directives ::
  "nat \<Rightarrow> nat \<Rightarrow> string \<Rightarrow> rat \<Rightarrow> RemoteProbeDirective list \<Rightarrow> operations \<times> RemoteProbeDirective list scopes \<Rightarrow>
   (RemoteProbeDirective list \<times> lease) token \<times> operations \<times> RemoteProbeDirective list scopes" where
  "bind_directives gen c ident now ds st =
     (let (operation, o1) = begin_operation c (PDict [(PStr ''kind'', PStr ''request'')]) ident now (fst st);
          (token, s1) = bind_scope gen c ds operation (snd st)
      in (token, o1, s1))"

fun lease_find :: "nat \<Rightarrow> nat \<Rightarrow> lease option \<Rightarrow> lease option" where
  "lease_find 0 t l = None"
| "lease_find (Suc n) t None = None"
| "lease_find (Suc n) t (Some l) = (if ls_ident l = t then Some l else lease_find n t (ls_parent l))"

text \<open>\<open>release\<close> on its variable: the lease that ended, with the new state.\<close>

definition release_lease :: "nat \<Rightarrow> ('v \<times> lease) token \<Rightarrow> 'v scopes \<Rightarrow> (lease option \<times> 'v scopes) option" where
  "release_lease c t s =
     (case lease_find 16 (tk_id t) (map_option snd (sc_value s c)) of
        None \<Rightarrow> Some (None, s)
      | Some l \<Rightarrow>
          if map_option (ls_ident \<circ> snd) (sc_value s c) = Some (ls_ident l) then
            (if tk_context t \<noteq> c \<or> tk_id t \<in> set (sc_reset s) then None
             else Some (Some l, s\<lparr>sc_value := (sc_value s)(c := tk_old t), sc_reset := tk_id t # sc_reset s,
                                  sc_ended := ls_ident l # sc_ended s\<rparr>))
          else Some (Some l, s\<lparr>sc_ended := ls_ident l # sc_ended s\<rparr>))"

definition release_context :: "nat \<Rightarrow> (pydict \<times> lease) token \<Rightarrow> pydict scopes \<Rightarrow> pydict scopes option" where
  "release_context c t s = map_option snd (release_lease c t s)"

text \<open>With \<open>directives=True\<close>: the operation of the lease ends too. The result says whether it raised.\<close>

definition release_directives ::
  "nat \<Rightarrow> (RemoteProbeDirective list \<times> lease) token \<Rightarrow> operations \<times> RemoteProbeDirective list scopes \<Rightarrow>
   bool \<times> operations \<times> RemoteProbeDirective list scopes" where
  "release_directives c t st =
     (case release_lease c t (snd st) of
        None \<Rightarrow> (True, st)
      | Some (None, s) \<Rightarrow> (False, fst st, s)
      | Some (Some l, s) \<Rightarrow>
          (case end_operation c (ls_operation l) (fst st) of None \<Rightarrow> (True, fst st, s) | Some o1 \<Rightarrow> (False, o1, s)))"

end
