(* ===== verification/Event_Support.thy ===== *)
theory Event_Support
  imports Redaction
begin

text \<open>
  The payloads of \<open>event_support.py\<close>. \<open>str(v)\<close> is written out for strings, ints, bools and None; for floats,
  containers and objects it is the parameter \<open>shown\<close>. A \<open>None\<close> result is an exception.
\<close>

fun py_str :: "(pyval \<Rightarrow> string) \<Rightarrow> pyval \<Rightarrow> string" where
  "py_str shown (PStr s) = s"
| "py_str shown (PInt i) = dec_int i"
| "py_str shown (PBool b) = (if b then ''True'' else ''False'')"
| "py_str shown PNone = ''None''"
| "py_str shown v = shown v"

text \<open>\<open>{str(key): value for key, value in d.items()}\<close>: of two keys with one spelling the later value stays.\<close>

definition str_dict :: "(pyval \<Rightarrow> string) \<Rightarrow> pydict \<Rightarrow> pydict" where
  "str_dict shown d = fold (\<lambda>(k, v). dput (py_str shown k) v) d []"

definition dict_from_object :: "(pyval \<Rightarrow> string) \<Rightarrow> pyval \<Rightarrow> pydict" where
  "dict_from_object shown v = (case v of PDict d \<Rightarrow> str_dict shown d | _ \<Rightarrow> [])"

text \<open>\<open>int(s)\<close>: digits with single underscores between them, a sign, surrounding whitespace, at most 4300 digits.\<close>

fun digit_groups :: "string \<Rightarrow> bool" where
  "digit_groups [] = False"
| "digit_groups [c] = is_digit c"
| "digit_groups (c # d # s) = (is_digit c \<and> (if d = CHR ''_'' then digit_groups s else digit_groups (d # s)))"

definition int_of_str :: "string \<Rightarrow> int option" where
  "int_of_str s =
     (let t = str_strip s;
          signed = (t \<noteq> [] \<and> hd t \<in> {CHR ''-'', CHR ''+''});
          u = (if signed then tl t else t);
          n = int (nat_of_digits (filter is_digit u))
      in if \<not> digit_groups u \<or> 4300 < length (filter is_digit u) then None
         else Some (if signed \<and> hd t = CHR ''-'' then - n else n))"

definition coerce_int :: "pyval \<Rightarrow> int \<Rightarrow> int option" where
  "coerce_int v dflt =
     (case v of
        PInt i \<Rightarrow> Some i
      | PFloat (Fin q) \<Rightarrow> Some (trunc_rat q)
      | PFloat _ \<Rightarrow> None
      | PStr s \<Rightarrow> Some (case int_of_str s of None \<Rightarrow> dflt | Some i \<Rightarrow> i)
      | _ \<Rightarrow> Some dflt)"

definition optional_string :: "(pyval \<Rightarrow> string) \<Rightarrow> pyval \<Rightarrow> pyval" where
  "optional_string shown v = (if v = PNone then PNone else PStr (py_str shown v))"

definition redact_mapping :: "string set \<Rightarrow> pyval \<Rightarrow> pyval option" where
  "redact_mapping names v = (if is_dict v then redact_value names v else Some v)"

definition correlation_payload :: "(pyval \<Rightarrow> string) \<Rightarrow> pydict \<Rightarrow> pydict" where
  "correlation_payload shown context_dict =
     map (\<lambda>k. (PStr k, optional_string shown (dgetn context_dict k))) [''request_id'', ''trace_id'', ''session_id'', ''user_id_hash'']"

definition event_context :: "(pyval \<Rightarrow> string) \<Rightarrow> pydict \<Rightarrow> pydict" where
  "event_context shown context_dict = str_dict shown (without_keys
     [''request'', ''response'', ''correlation'', ''request_id'', ''trace_id'', ''session_id'', ''user_id_hash''] context_dict)"

definition copy_if_key :: "string \<Rightarrow> string \<Rightarrow> pydict \<Rightarrow> pydict" where
  "copy_if_key k k' d = (if has_key k d then [(PStr k', dgetn d k)] else [])"

definition backend_exception_request_payload :: "(pyval \<Rightarrow> string) \<Rightarrow> pyval \<Rightarrow> pydict" where
  "backend_exception_request_payload shown candidate =
     (let m = dict_from_object shown candidate in
      [(PStr ''method'', PStr (py_str shown (py_or (dgetn m ''method'') (PStr ''UNKNOWN'')))),
       (PStr ''path'', PStr (py_str shown (py_or (dgetn m ''path'') (PStr ''/'')))),
       (PStr ''query'', PDict (dict_from_object shown (dgetn m ''query''))),
       (PStr ''headers'', PDict (dict_from_object shown (dgetn m ''headers'')))] @ copy_if_key ''body'' ''body'' m)"

definition backend_exception_response_payload :: "(pyval \<Rightarrow> string) \<Rightarrow> pyval \<Rightarrow> pydict option" where
  "backend_exception_response_payload shown candidate =
     (let m = dict_from_object shown candidate in
      map_option (\<lambda>code. [(PStr ''status_code'', PInt code)] @
         (if has_key ''headers'' m then [(PStr ''headers'', PDict (dict_from_object shown (dgetn m ''headers'')))] else []) @
         copy_if_key ''body'' ''body'' m)
       (coerce_int (py_or (dgetn m ''status_code'') (dgetn m ''response_status'')) 0))"

definition request_event_payload :: "(pyval \<Rightarrow> string) \<Rightarrow> pydict \<Rightarrow> pydict \<Rightarrow> pydict \<Rightarrow> pydict option" where
  "request_event_payload shown request response context_dict =
     (case (coerce_int (py_or (dgetn response ''response_status'') (dgetn response ''status_code'')) 0,
            coerce_int (dgetn response ''duration_ms'') 0) of
        (Some code, Some duration) \<Rightarrow>
          let route = py_or (dgetn context_dict ''route_template'')
                (py_or (dgetn response ''route_template'') (dgetn request ''route_template''));
              reply_headers = py_or (dgetn response ''response_headers'') (dgetn response ''headers'')
          in Some ([(PStr ''method'', PStr (py_str shown (py_or (dgetn request ''method'') (PStr ''UNKNOWN'')))),
              (PStr ''path'', PStr (py_str shown (py_or (dgetn request ''path'') (PStr ''/'')))),
              (PStr ''query'', PDict (dict_from_object shown (dgetn request ''query''))),
              (PStr ''headers'', PDict (dict_from_object shown (dgetn request ''headers''))),
              (PStr ''response_status'', PInt code), (PStr ''duration_ms'', PInt duration)] @
              copy_if_key ''body'' ''body'' request @
              (if route \<noteq> PNone then [(PStr ''route_template'', PStr (py_str shown route))] else []) @
              (if truthy reply_headers then [(PStr ''response_headers'', PDict (dict_from_object shown reply_headers))] else []) @
              (if has_key ''response_body'' response then copy_if_key ''response_body'' ''response_body'' response
               else if dgetn response ''body'' \<noteq> PNone then copy_if_key ''body'' ''response_body'' response else []))
      | _ \<Rightarrow> None)"

definition sdk_config_endpoint :: "string \<Rightarrow> string" where
  "sdk_config_endpoint endpoint =
     (if ends_with ''/v1/events'' endpoint then take (length endpoint - length ''/v1/events'') endpoint @ ''/v1/sdk/config''
      else rev (dropWhile (\<lambda>c. c = CHR ''/'') (rev endpoint)) @ ''/sdk/config'')"

end
