(* ===== verification/Trigger_Token.thy ===== *)
theory Trigger_Token
  imports Capture_Policy Event_Support
begin

text \<open>
  \<open>trigger_token.py\<close>: signed tokens in a request that switch probes on. The parameters of \<open>crypto\<close> are the HMAC
  of a text under a key, \<open>base64.urlsafe_b64decode\<close>, the UTF-8 decoding of bytes (None is an exception) and
  \<open>json.loads\<close>; bytes are strings.
\<close>

definition HEADER_KEY :: string where "HEADER_KEY = ''x-debugbundle-probe-trigger''"
definition QUERY_PARAMETER_NAME :: string where "QUERY_PARAMETER_NAME = ''_debug_probe''"
definition TOKEN_PREFIX :: string where "TOKEN_PREFIX = ''dbundle_probe_''"

record crypto =
  hmac :: "string \<Rightarrow> string \<Rightarrow> string"
  b64decode :: "string \<Rightarrow> string option"
  utf8_decode :: "string \<Rightarrow> string option"
  json_loads :: "string \<Rightarrow> pyval option"

definition base64url_decode_bytes :: "crypto \<Rightarrow> string \<Rightarrow> string option" where
  "base64url_decode_bytes cr s =
     (let padding = length s mod 4 in b64decode cr (if 0 < padding then s @ replicate (4 - padding) CHR ''='' else s))"

definition base64url_decode :: "crypto \<Rightarrow> string \<Rightarrow> string option" where
  "base64url_decode cr s = Option.bind (base64url_decode_bytes cr s) (utf8_decode cr)"

definition has_valid_signature :: "crypto \<Rightarrow> string \<Rightarrow> string \<Rightarrow> string \<Rightarrow> bool" where
  "has_valid_signature cr payload signature key =
     (case base64url_decode_bytes cr signature of None \<Rightarrow> False | Some actual \<Rightarrow> hmac cr key payload = actual)"

definition decode_payload_segment :: "crypto \<Rightarrow> (string \<Rightarrow> rat option) \<Rightarrow> string \<Rightarrow> RemoteProbeDirective option" where
  "decode_payload_segment cr fromiso segment =
     (case Option.bind (base64url_decode cr segment) (json_loads cr) of
        Some (PDict d) \<Rightarrow>
          (case map (\<lambda>k. as_non_empty_string (dgetn d k))
               [''activation_id'', ''label_pattern'', ''service'', ''environment'', ''trigger_expires_at''] of
             [Some i, Some p, Some s, Some e, Some x] \<Rightarrow>
               if expires_at_ms fromiso x = 0 then None
               else Some \<lparr>directive_id = i, label_pattern = p, dir_service = s, dir_environment = e, expires_at = x\<rparr>
           | _ \<Rightarrow> None)
      | _ \<Rightarrow> None)"

fun first_text :: "pyval list \<Rightarrow> string option" where
  "first_text [] = None"
| "first_text (v # vs) = (case as_non_empty_string v of None \<Rightarrow> first_text vs | Some s \<Rightarrow> Some s)"

fun extract_map_value :: "(pyval \<Rightarrow> string) \<Rightarrow> pydict \<Rightarrow> string \<Rightarrow> bool \<Rightarrow> string option" where
  "extract_map_value shown [] key folded = None"
| "extract_map_value shown ((k, v) # d) key folded =
     (if (if folded then str_lower (py_str shown k) \<noteq> str_lower key else py_str shown k \<noteq> key) then extract_map_value shown d key folded
      else (case (case v of PList xs \<Rightarrow> first_text xs | PTuple xs \<Rightarrow> first_text xs | _ \<Rightarrow> as_non_empty_string v) of
          Some s \<Rightarrow> Some s | None \<Rightarrow> extract_map_value shown d key folded))"

definition extract_trigger_token :: "(pyval \<Rightarrow> string) \<Rightarrow> pydict \<Rightarrow> string option" where
  "extract_trigger_token shown request =
     (case (case dgetn request ''headers'' of PDict hs \<Rightarrow> extract_map_value shown hs HEADER_KEY True | _ \<Rightarrow> None) of
        Some t \<Rightarrow> Some t
      | None \<Rightarrow> (case dgetn request ''query'' of PDict q \<Rightarrow> extract_map_value shown q QUERY_PARAMETER_NAME False | _ \<Rightarrow> None))"

definition resolve_request_trigger_directives ::
  "crypto \<Rightarrow> (string \<Rightarrow> rat option) \<Rightarrow> (pyval \<Rightarrow> string) \<Rightarrow> pydict option \<Rightarrow> string option \<Rightarrow> int \<Rightarrow> RemoteProbeDirective list" where
  "resolve_request_trigger_directives cr fromiso shown request key now_ms =
     (case (request, key) of
        (Some r, Some k) \<Rightarrow>
          if k = [] then []
          else (case extract_trigger_token shown r of
              None \<Rightarrow> []
            | Some token \<Rightarrow>
                if \<not> starts_with TOKEN_PREFIX token then []
                else
                  let (payload, found, signature) = partition_at CHR ''.'' (drop (length TOKEN_PREFIX) token) in
                  if \<not> found \<or> payload = [] \<or> signature = [] then []
                  else if \<not> has_valid_signature cr payload signature k then []
                  else (case decode_payload_segment cr fromiso payload of
                      None \<Rightarrow> []
                    | Some d \<Rightarrow> if expires_at_ms fromiso (expires_at d) \<le> now_ms then [] else [d]))
      | _ \<Rightarrow> [])"

lemma partition_at_split: "c \<notin> set a \<Longrightarrow> partition_at c (a @ c # b) = (a, True, b)"
  by (induction a) (auto simp: partition_at_def)



end
