(* ===== verification/Capture.thy ===== *)
theory Capture
  imports Flush Relay Scopes Trigger_Token
begin

text \<open>
  The capture side of \<open>core.py\<close>: building, protecting and offering events; \<open>process_support.py\<close>,
  \<open>recovery_capture.py\<close> and the flow of \<open>exception_capture.py\<close> with what it reads from a live exception as data.
  A client is the queue of theory Queue with the state that captures use. What one call meets outside is a
  \<open>moment\<close>: its execution context and process, the new identifier and object, the clocks, the random sample, whether
  the lock is free (when it is taken first and last) and whether a transport can be made. What never changes is the \<open>host\<close>. Captures swallow every
  exception, so a client that a call leaves unfinished is its result.
\<close>

record host =
  h_fr :: "rat \<Rightarrow> string"
  h_lib :: urllib
  h_loads :: "string \<Rightarrow> pyval option"
  h_schema :: pyval
  h_pat :: "string \<Rightarrow> (string \<Rightarrow> bool) option"
  h_fromiso :: "string \<Rightarrow> rat option"
  h_iso :: "rat \<Rightarrow> string"
  h_digest :: "string \<Rightarrow> string"
  h_shown :: "pyval \<Rightarrow> string"
  h_version :: string
  h_crypto :: crypto

record moment =
  at_context :: nat
  at_pid :: nat
  at_uuid :: string
  at_object :: nat
  at_clock :: clock
  at_sample :: rat
  at_first_lock :: bool
  at_lock :: bool
  at_transport :: bool

record ProbeEntry =
  entry_label :: string
  entry_data :: pydict
  entry_timestamp :: string

record client =
  queue :: sdk
  process :: nat
  cl_service :: string
  cl_environment :: string
  sample_rate :: rat
  redact_names :: "string list"
  max_probe_labels :: nat
  max_probe_entries :: nat
  probe_flush_on_error :: bool
  global_context :: pydict
  probe_buffers :: "(string \<times> ProbeEntry list) list"
  configured_poll_ms :: int
  fetches :: bool
  config_etag :: "string option"
  config_snapshot :: "RemoteConfigSnapshot option"
  config_timer :: "rat option"
  owners :: operations
  scoped :: "pydict scopes"
  requests :: "RemoteProbeDirective list scopes"
  reported :: "string list"

subsection \<open>A forked process\<close>

text \<open>\<open>ensure_current_process\<close>: a child keeps the policy and the options, and nothing of its parent's queue.\<close>

definition fresh_queue :: "bool \<Rightarrow> sdk \<Rightarrow> sdk" where
  "fresh_queue made s = s\<lparr>timer := None, generation := generation s + 1, features := parse_features PNone,
     diagnostics := empty_budget, hook_bypass := [], sending := False, inflight_count := 0, buffer := [],
     buffer_sizes := [], buffer_bytes := 0, pending_low_priority := 0, suppression := [], pressure_drops := 0,
     last_pressure_report_at := 0, retry_after := 0, last_event_at := None, consecutive_failures := 0,
     has_transport := (if http s \<and> has_transport s then made else has_transport s)\<rparr>"

definition ensure_current_process :: "moment \<Rightarrow> client \<Rightarrow> client" where
  "ensure_current_process m cl =
     (if process cl = at_pid m then cl
      else cl\<lparr>queue := fresh_queue (at_transport m) (queue cl), process := at_pid m, global_context := [],
        probe_buffers := [], config_etag := None, config_snapshot := None, config_timer := None,
        owners := no_operations, scoped := no_scopes, requests := no_scopes\<rparr>)"

subsection \<open>Protecting an event\<close>

abbreviation sanitizer :: "host \<Rightarrow> client \<Rightarrow> pyval \<Rightarrow> unsafe + pyval" where
  "sanitizer h cl \<equiv> sanitize_telemetry (h_lib h) (h_loads h) (h_fr h) (redact_names cl)"

fun clean_parts :: "(pyval \<Rightarrow> unsafe + pyval) \<Rightarrow> string list \<Rightarrow> pydict \<Rightarrow> unsafe + pydict" where
  "clean_parts sanitize [] e = Inr e"
| "clean_parts sanitize (k # ks) e =
     (case dget e k of
        None \<Rightarrow> clean_parts sanitize ks e
      | Some v \<Rightarrow> (case sanitize v of Inl u \<Rightarrow> Inl u | Inr w \<Rightarrow> clean_parts sanitize ks (dput k w e)))"

text \<open>One call of \<open>_protect_event\<close> up to its recursive call; \<open>keep\<close> is \<open>filter_evidence\<close>.\<close>

definition protect_once ::
  "(pyval \<Rightarrow> unsafe + pyval) \<Rightarrow> (pyval \<Rightarrow> verdict) \<Rightarrow> (pyval \<Rightarrow> bool) \<Rightarrow> (pydict \<Rightarrow> pydict option) \<Rightarrow> pydict \<Rightarrow> sanitized" where
  "protect_once sanitize check_schema evidence_ok keep event =
     (case keep event of
        None \<Rightarrow> Rejected
      | Some e \<Rightarrow>
          (case has_safe_event_identity sanitize e of
             Inl _ \<Rightarrow> fall_back e
           | Inr safe \<Rightarrow>
               if \<not> safe then Rejected
               else (case clean_parts sanitize [''payload'', ''context'', ''service''] e of
                   Inl _ \<Rightarrow> fall_back e
                 | Inr c \<Rightarrow>
                     (case check_schema (PDict c) of
                        Exhausted_event \<Rightarrow> fall_back e
                      | Invalid_event \<Rightarrow> fall_back c
                      | Valid_event \<Rightarrow> if evidence_ok (PDict c) then Kept c else fall_back c))))"

partial_function (option) protect_rounds ::
  "(pyval \<Rightarrow> unsafe + pyval) \<Rightarrow> (pyval \<Rightarrow> verdict) \<Rightarrow> (pyval \<Rightarrow> bool) \<Rightarrow> (pydict \<Rightarrow> pydict option) \<Rightarrow> pydict \<Rightarrow> pydict option option" where
  "protect_rounds sanitize check_schema evidence_ok keep event =
     (case protect_once sanitize check_schema evidence_ok keep event of
        Rejected \<Rightarrow> Some None
      | Kept e \<Rightarrow> Some (Some e)
      | Again f \<Rightarrow> (case f of PDict e \<Rightarrow> protect_rounds sanitize check_schema evidence_ok keep e | _ \<Rightarrow> None))"

text \<open>\<open>_protect_event\<close>; None of the outer option is no result.\<close>

definition protect_event :: "host \<Rightarrow> client \<Rightarrow> pydict \<Rightarrow> pydict option option" where
  "protect_event h cl = protect_rounds (sanitizer h cl) (valid_owned_event (h_schema h) (h_pat h))
     (validate_evidence (h_fr h) (lib_bracketed (h_lib h))) (filter_evidence (queue cl))"

definition protected_event :: "host \<Rightarrow> client \<Rightarrow> pydict \<Rightarrow> pydict option" where
  "protected_event h cl e = (case protect_event h cl e of Some r \<Rightarrow> r | None \<Rightarrow> None)"

subsection \<open>Base events\<close>

definition dict_update :: "pydict \<Rightarrow> pydict \<Rightarrow> pydict" where
  "dict_update d e = fold (\<lambda>(k, v). AList.update k v) e d"

definition merged_context :: "host \<Rightarrow> moment \<Rightarrow> pydict option \<Rightarrow> client \<Rightarrow> pydict option" where
  "merged_context h m given cl =
     (let merged = dict_update (global_context cl) (context_value (generation (queue cl)) (at_context m) (scoped cl));
          merged = (case given of None \<Rightarrow> merged | Some d \<Rightarrow> dict_update merged (str_dict (h_shown h) d))
      in case redact_value (set (redact_names cl)) (PDict merged) of Some (PDict d) \<Rightarrow> Some d | _ \<Rightarrow> None)"

definition operation_scope :: "moment \<Rightarrow> client \<Rightarrow> pyval" where
  "operation_scope m cl = (case current_operation (at_context m) (owners cl) of None \<Rightarrow> PNone | Some v \<Rightarrow> op_scope v)"

definition add_reference :: "moment \<Rightarrow> client \<Rightarrow> pydict \<Rightarrow> pydict" where
  "add_reference m cl merged =
     (if ''recovery_v1'' \<notin> set (features (queue cl)) \<and> ''resource_observations_v1'' \<notin> set (features (queue cl)) then merged
      else (case capture_reference (PDict merged) (operation_scope m cl) of
          None \<Rightarrow> merged
        | Some selected \<Rightarrow> dput ''evidence_reference'' selected (without_keys [''failure_ref'', ''evidence_scope''] merged)))"

definition base_event :: "host \<Rightarrow> moment \<Rightarrow> string \<Rightarrow> pydict \<Rightarrow> pydict option \<Rightarrow> client \<Rightarrow> pydict option" where
  "base_event h m event_type payload given cl =
     map_option (\<lambda>merged.
       let merged = add_reference m cl merged; rest = event_context (h_shown h) merged in
       [(PStr ''schema_version'', PStr ''2026-03-01''), (PStr ''event_id'', PStr (at_uuid m)), (PStr ''event_type'', PStr event_type),
        (PStr ''occurred_at'', PStr (h_iso h (wall (at_clock m)))), (PStr ''sdk_name'', PStr ''debugbundle-python''),
        (PStr ''sdk_version'', PStr (h_version h)),
        (PStr ''service'', PDict [(PStr ''name'', PStr (cl_service cl)), (PStr ''runtime'', PStr ''python''), (PStr ''framework'', PNone),
           (PStr ''environment'', PStr (cl_environment cl))]),
        (PStr ''correlation'', PDict (correlation_payload (h_shown h) merged)), (PStr ''payload'', PDict payload)] @
       (if rest \<noteq> [] then [(PStr ''context'', PDict rest)] else [])) (merged_context h m given cl)"

subsection \<open>Offering a captured event\<close>

definition passes_sample_rate :: "moment \<Rightarrow> client \<Rightarrow> bool" where
  "passes_sample_rate m cl \<longleftrightarrow> 1 \<le> sample_rate cl \<or> at_sample m \<le> sample_rate cl"

definition offer_event :: "host \<Rightarrow> moment \<Rightarrow> pydict \<Rightarrow> client \<Rightarrow> bool \<times> client" where
  "offer_event h m p cl =
     (case offer_protected_event (h_fr h) (h_fromiso h) (at_clock m) (at_object m) p (sdk_event_bytes (h_fr h) p)
             MAX_PENDING_EVENTS MAX_PENDING_BYTES (queue cl) of
        None \<Rightarrow> (False, cl)
      | Some (accepted, q) \<Rightarrow> (accepted, cl\<lparr>queue := q\<rparr>))"

definition drop_capture :: "client \<Rightarrow> client" where
  "drop_capture cl = cl\<lparr>queue := (queue cl)\<lparr>pressure_drops := pressure_drops (queue cl) + 1\<rparr>\<rparr>"

definition may_prepare :: "bool \<Rightarrow> client \<Rightarrow> bool \<times> client" where
  "may_prepare high cl =
     (let (ok, q) = may_prepare_event high MAX_PENDING_EVENTS MAX_PENDING_BYTES (queue cl) in (ok, cl\<lparr>queue := q\<rparr>))"

text \<open>The common end of the captures: protect, sample, lock, check again, offer.\<close>

definition admit_event :: "host \<Rightarrow> moment \<Rightarrow> (client \<Rightarrow> bool) \<Rightarrow> pydict option \<Rightarrow> client \<Rightarrow> client" where
  "admit_event h m still event cl =
     (case event of
        None \<Rightarrow> cl
      | Some e \<Rightarrow>
          (case protected_event h cl e of
             None \<Rightarrow> cl
           | Some p \<Rightarrow>
               if \<not> passes_sample_rate m cl then cl
               else if \<not> at_lock m then drop_capture cl
               else if still cl then snd (offer_event h m p cl) else cl))"

definition log_eligible :: "string \<Rightarrow> client \<Rightarrow> bool" where
  "log_eligible level cl \<longleftrightarrow>
     log_level_eligible (enabled (queue cl)) (log_level (queue cl)) (policy (queue cl)) level = Some True"

definition capture_log :: "host \<Rightarrow> moment \<Rightarrow> pyval \<Rightarrow> string \<Rightarrow> pydict option \<Rightarrow> client \<Rightarrow> client" where
  "capture_log h m message level given cl =
     (let normalized = normalize_level level in
      if \<not> log_eligible level cl then cl
      else
        let (ok, cl1) = may_prepare (normalized \<in> {''error'', ''critical''}) (ensure_current_process m cl) in
        if \<not> ok then cl1
        else (case (case given of Some (x # xs) \<Rightarrow> redact_mapping (set (redact_names cl1)) (PDict (x # xs)) | _ \<Rightarrow> Some (PDict [])) of
            None \<Rightarrow> cl1
          | Some attributes \<Rightarrow>
              admit_event h m (log_eligible normalized)
                (base_event h m ''log_event'' [(PStr ''message'', message), (PStr ''level'', PStr normalized),
                   (PStr ''attributes'', attributes)] given cl1) cl1))"

definition capture_message :: "host \<Rightarrow> moment \<Rightarrow> pyval \<Rightarrow> string option \<Rightarrow> pydict option \<Rightarrow> client \<Rightarrow> client" where
  "capture_message h m message level given cl =
     capture_log h m message (case level of Some (c # s) \<Rightarrow> c # s | _ \<Rightarrow> DEFAULT_LOG_LEVEL) given cl"

definition redacted_dict :: "client \<Rightarrow> pydict option \<Rightarrow> pydict option" where
  "redacted_dict cl d = (case redact_value (set (redact_names cl)) (PDict (case d of None \<Rightarrow> [] | Some d \<Rightarrow> d)) of
     Some (PDict e) \<Rightarrow> Some e | _ \<Rightarrow> None)"

definition capture_request :: "host \<Rightarrow> moment \<Rightarrow> pydict \<Rightarrow> pydict option \<Rightarrow> pydict option \<Rightarrow> client \<Rightarrow> client" where
  "capture_request h m request response given cl =
     (if \<not> enabled (queue cl)
         \<or> should_capture_request_event (lib_bracketed (h_lib h)) (policy (queue cl)) (Some request) response \<noteq> Some True then cl
      else
        let status = (case response of None \<Rightarrow> PNone | Some r \<Rightarrow> py_or (dgetn r ''status_code'') (dgetn r ''response_status''));
            (ok, cl1) = may_prepare (case status of PInt n \<Rightarrow> 500 \<le> n | _ \<Rightarrow> False) (ensure_current_process m cl)
        in if \<not> ok then cl1
           else (case (redacted_dict cl1 (Some request), redacted_dict cl1 response, redacted_dict cl1 given) of
               (Some q, Some r, Some c) \<Rightarrow>
                 admit_event h m (\<lambda>cl. enabled (queue cl))
                   (Option.bind (request_event_payload (h_shown h) q r c) (\<lambda>p. base_event h m ''request_event'' p given cl1)) cl1
             | _ \<Rightarrow> cl1))"

text \<open>\<open>recovery_capture.capture_recovery\<close>: the sample is taken first, and a busy lock is not counted.\<close>

definition recovery_correlation :: "pyval \<Rightarrow> pydict" where
  "recovery_correlation observation =
     (case observation of
        PDict d \<Rightarrow>
          (case dgetn d ''correlation'' of
             PDict c \<Rightarrow>
               if length c \<le> 4 \<and> str_keys c
               then filter (\<lambda>(k, v). k \<in> PStr ` {''request_id'', ''trace_id'', ''session_id'', ''user_id_hash''} \<and> text_or_none v) c
               else []
           | _ \<Rightarrow> [])
      | _ \<Rightarrow> [])"

definition capture_recovery :: "host \<Rightarrow> moment \<Rightarrow> pyval \<Rightarrow> client \<Rightarrow> client" where
  "capture_recovery h m observation cl0 =
     (let cl = ensure_current_process m cl0 in
      if \<not> enabled (queue cl) \<or> \<not> allows_recovery (queue cl) \<or> \<not> passes_sample_rate m cl then cl
      else (case normalise_recovery (h_fr h) (lib_bracketed (h_lib h)) observation (operation_scope m cl) of
          Some (PDict payload) \<Rightarrow>
            (case Option.bind (base_event h m ''diagnostic_context'' payload (Some (recovery_correlation observation)) cl)
                 (protected_event h cl) of
               Some p \<Rightarrow> if at_lock m then snd (offer_event h m p cl) else cl
             | None \<Rightarrow> cl)
        | _ \<Rightarrow> cl))"

subsection \<open>Exceptions\<close>

text \<open>
  What the walks over a live exception find: its details, the evidence graph within a byte budget, the facts on
  the process and whether its receipt admits it.
\<close>

record thrown =
  er_details :: "pyval \<times> pyval \<times> pyval"
  er_graph :: "int \<Rightarrow> pyval option"
  er_facts :: pyval
  er_admitted :: bool

definition build_probe_data :: "client \<Rightarrow> pydict option" where
  "build_probe_data cl =
     (let items = concat (map (\<lambda>(label, bucket). map (\<lambda>e. PDict [(PStr ''label'', PStr label), (PStr ''activation_id'', PNone),
            (PStr ''timestamp'', PStr (entry_timestamp e)), (PStr ''data'', PDict (entry_data e))]) bucket) (probe_buffers cl))
      in if items = [] then None else Some [(PStr ''version'', PInt 1), (PStr ''items'', PList items)])"

definition exception_payload :: "host \<Rightarrow> moment \<Rightarrow> thrown \<Rightarrow> bool \<Rightarrow> pydict \<Rightarrow> client \<Rightarrow> pydict option" where
  "exception_payload h m err handled context_dict cl =
     (let (name, message, stack) = er_details err in
      map_option (\<lambda>response.
        [(PStr ''name'', name), (PStr ''message'', message), (PStr ''stack'', stack), (PStr ''handled'', PBool handled),
         (PStr ''request'', PDict (backend_exception_request_payload (h_shown h) (dgetn context_dict ''request''))),
         (PStr ''response'', PDict response), (PStr ''runtime'', er_facts err)] @
        (if probe_flush_on_error cl \<and> at_first_lock m
         then (case build_probe_data cl of None \<Rightarrow> [] | Some d \<Rightarrow> [(PStr ''probe_data'', PDict d)]) else []))
       (backend_exception_response_payload (h_shown h) (dgetn context_dict ''response'')))"

text \<open>The evidence added to the payload of the candidate; None when sizing it raises.\<close>

definition exception_additions :: "host \<Rightarrow> moment \<Rightarrow> thrown \<Rightarrow> bool \<Rightarrow> pydict \<Rightarrow> client \<Rightarrow> pydict option" where
  "exception_additions h m err fatal candidate cl =
     (if \<not> capture_exception_evidence (queue cl) \<or> ''exception_evidence_v1'' \<notin> set (features (queue cl)) then Some []
      else
        let snap = operation_snapshot (at_context m) (mono (at_clock m)) (owners cl);
            added = (case snap of None \<Rightarrow> [] | Some x \<Rightarrow> [(PStr ''execution'', x)]) @
              (case dgetn candidate ''context'' of PDict c \<Rightarrow> copy_if_key ''evidence_reference'' ''evidence_reference'' c | _ \<Rightarrow> [])
        in map_option (\<lambda>n. case er_graph err ((if fatal then 4096 else 32768) - (int n + 32)) of
              None \<Rightarrow> []
            | Some g \<Rightarrow> (PStr ''exception_evidence'', g) # (case snap of None \<Rightarrow> [] | Some x \<Rightarrow> [(PStr ''execution'', x)]))
          (json_bytes False True (h_fr h) (PDict added)))"

definition suppression_key :: "(pyval \<Rightarrow> string) \<Rightarrow> pydict \<Rightarrow> string" where
  "suppression_key shown e =
     py_str shown (dgetn e ''event_type'') @ concat (map (\<lambda>k. CHR '':'' # py_str shown (dget_or (payload_of e) k (PStr []))) [''name'', ''message'', ''stack''])"

definition offer_exception :: "host \<Rightarrow> moment \<Rightarrow> bool \<Rightarrow> pydict \<Rightarrow> client \<Rightarrow> client" where
  "offer_exception h m fatal p cl =
     (if \<not> enabled (queue cl) then cl
      else
        let (wanted, t) = should_capture (h_digest h) (suppression_key (h_shown h) p) (wall (at_clock m)) (suppression (queue cl));
            cl1 = cl\<lparr>queue := (queue cl)\<lparr>suppression := t\<rparr>\<rparr>
        in if \<not> wanted then cl1
           else
             let (accepted, cl2) = offer_event h m p cl1 in
             if accepted \<and> fatal then cl2\<lparr>queue := (queue cl2)\<lparr>hook_bypass := at_object m # hook_bypass (queue cl2)\<rparr>\<rparr> else cl2)"

definition capture_exception :: "host \<Rightarrow> moment \<Rightarrow> thrown \<Rightarrow> bool \<Rightarrow> bool \<Rightarrow> pydict option \<Rightarrow> client \<Rightarrow> client" where
  "capture_exception h m err handled fatal given cl0 =
     (let cl = ensure_current_process m cl0 in
      if \<not> enabled (queue cl) then cl
      else
        let (ok, cl1) = may_prepare True cl in
        if \<not> ok \<or> \<not> er_admitted err then cl1
        else (case redacted_dict cl1 given of
            None \<Rightarrow> cl1
          | Some c \<Rightarrow>
              (case Option.bind (exception_payload h m err handled c cl1)
                   (\<lambda>payload. map_option (Pair payload) (base_event h m ''backend_exception'' payload (Some c) cl1)) of
                 None \<Rightarrow> cl1
               | Some (payload, candidate) \<Rightarrow>
                   (case exception_additions h m err fatal candidate cl1 of
                      None \<Rightarrow> cl1
                    | Some added \<Rightarrow>
                        (case protected_event h cl1 (dput ''payload'' (PDict (dict_update payload added)) candidate) of
                           None \<Rightarrow> cl1
                         | Some p \<Rightarrow>
                             if \<not> passes_sample_rate m cl1 then cl1
                             else if \<not> at_lock m then drop_capture cl1
                             else offer_exception h m fatal p cl1)))))"

end
