(* ===== verification/Client.thy ===== *)
theory Client
  imports Capture
begin

text \<open>
  The state of one SDK object around its captures: contexts and requests (\<open>core.py\<close>), probes
  (\<open>probe_capture.py\<close>), the refresh of the remote configuration (\<open>remote_config_client.py\<close>), the hook on an event
  before it is sent, and \<open>init\<close>. Parameters are as in theory Capture; the fetch of the configuration is its
  answer.
\<close>

subsection \<open>Contexts and requests\<close>

definition set_context :: "host \<Rightarrow> moment \<Rightarrow> string \<Rightarrow> pyval \<Rightarrow> client \<Rightarrow> client" where
  "set_context h m key v cl0 =
     (let cl = ensure_current_process m cl0 in
      case sanitizer h cl (PDict [(PStr key, v)]) of
        Inr (PDict d) \<Rightarrow> if at_lock m then cl\<lparr>global_context := dput key (dgetn d key) (global_context cl)\<rparr> else cl
      | _ \<Rightarrow> cl)"

definition bind_scoped_context :: "host \<Rightarrow> moment \<Rightarrow> pydict \<Rightarrow> client \<Rightarrow> (pydict \<times> lease) token \<times> client" where
  "bind_scoped_context h m given cl0 =
     (let cl = ensure_current_process m cl0; gen = generation (queue cl);
          d = dict_update (context_value gen (at_context m) (scoped cl))
                (str_dict (h_shown h) (filter (\<lambda>(k, v). v \<noteq> PNone) given));
          protected = (case sanitizer h cl (PDict d) of Inr (PDict p) \<Rightarrow> p | _ \<Rightarrow> []);
          (t, s) = bind_context gen (at_context m) protected (scoped cl)
      in (t, cl\<lparr>scoped := s\<rparr>))"

definition reset_scoped_context :: "moment \<Rightarrow> (pydict \<times> lease) token \<Rightarrow> client \<Rightarrow> client option" where
  "reset_scoped_context m t cl = map_option (\<lambda>s. cl\<lparr>scoped := s\<rparr>) (release_context (at_context m) t (scoped cl))"

definition now_ms :: "moment \<Rightarrow> int" where "now_ms m = trunc_rat (wall (at_clock m) * 1000)"

definition begin_request :: "host \<Rightarrow> moment \<Rightarrow> pydict \<Rightarrow> client \<Rightarrow> (RemoteProbeDirective list \<times> lease) token \<times> client" where
  "begin_request h m request cl0 =
     (let cl = ensure_current_process m cl0;
          ds = resolve_request_trigger_directives (h_crypto h) (h_fromiso h) (h_shown h) (Some request)
            (case config_snapshot cl of None \<Rightarrow> None | Some snap \<Rightarrow> trigger_token_key snap) (now_ms m);
          (t, o1, s) = bind_directives (generation (queue cl)) (at_context m) (at_uuid m) (mono (at_clock m)) ds (owners cl, requests cl)
      in (t, cl\<lparr>owners := o1, requests := s\<rparr>))"

text \<open>The first component says whether it raised.\<close>

definition end_request :: "moment \<Rightarrow> (RemoteProbeDirective list \<times> lease) token \<Rightarrow> client \<Rightarrow> bool \<times> client" where
  "end_request m t cl =
     (let (raised, o1, s) = release_directives (at_context m) t (owners cl, requests cl) in (raised, cl\<lparr>owners := o1, requests := s\<rparr>))"

definition find_matching_probe_directives :: "host \<Rightarrow> moment \<Rightarrow> string \<Rightarrow> client \<Rightarrow> RemoteProbeDirective list" where
  "find_matching_probe_directives h m label cl =
     (let triggered = (case sc_value (requests cl) (at_context m) of
            Some (ds, l) \<Rightarrow> if alive (generation (queue cl)) (requests cl) (Some (ds, l)) then ds else []
          | None \<Rightarrow> []);
          remote = (case config_snapshot cl of
            Some snap \<Rightarrow> if remote_probes_enabled snap then directives snap else [] | None \<Rightarrow> [])
      in find_matching_remote_probe_directives (h_fromiso h) (triggered @ remote) label (cl_service cl) (cl_environment cl) (now_ms m))"

subsection \<open>Probes\<close>

definition has_probe_room :: "string \<Rightarrow> client \<Rightarrow> bool" where
  "has_probe_room label cl \<longleftrightarrow>
     map_of (probe_buffers cl) label \<noteq> None \<or> length (probe_buffers cl) < max_probe_labels cl"

text \<open>\<open>deque(maxlen=n)\<close>: appending to a full one drops the oldest entry.\<close>

definition push_bounded :: "nat \<Rightarrow> 'a \<Rightarrow> 'a list \<Rightarrow> 'a list" where
  "push_bounded n x xs = drop (length (xs @ [x]) - n) (xs @ [x])"

definition keep_entry :: "ProbeEntry option \<Rightarrow> string \<Rightarrow> client \<Rightarrow> client" where
  "keep_entry entry label cl =
     (case entry of
        None \<Rightarrow> cl
      | Some e \<Rightarrow>
          let bucket = (case map_of (probe_buffers cl) label of None \<Rightarrow> [] | Some b \<Rightarrow> b)
          in cl\<lparr>probe_buffers := AList.update label (push_bounded (max_probe_entries cl) e bucket) (probe_buffers cl)\<rparr>)"

text \<open>The events for the directives: of each its identity, the protected event and the moment with its identifiers.\<close>

fun prepare_probe_events ::
  "host \<Rightarrow> (nat \<Rightarrow> moment) \<Rightarrow> client \<Rightarrow> string \<Rightarrow> pydict \<Rightarrow> nat \<Rightarrow> RemoteProbeDirective list \<Rightarrow> (string \<times> pydict \<times> moment) list option" where
  "prepare_probe_events h ms cl label d i [] = Some []"
| "prepare_probe_events h ms cl label d i (x # xs) =
     (case base_event h (ms i) ''probe_event'' [(PStr ''label'', PStr label), (PStr ''activation_id'', PStr (directive_id x)),
             (PStr ''probe_label_pattern'', PStr (label_pattern x)), (PStr ''data'', PDict d)] None cl of
        None \<Rightarrow> None
      | Some e \<Rightarrow>
          map_option (\<lambda>rest. case protected_event h cl e of None \<Rightarrow> rest | Some p \<Rightarrow> (directive_id x, p, ms i) # rest)
            (prepare_probe_events h ms cl label d (Suc i) xs))"

fun offer_probe_events :: "host \<Rightarrow> string set \<Rightarrow> (string \<times> pydict \<times> moment) list \<Rightarrow> client \<Rightarrow> client" where
  "offer_probe_events h active [] cl = cl"
| "offer_probe_events h active ((i, p, m) # rest) cl =
     offer_probe_events h active rest (if i \<in> active then snd (offer_event h m p cl) else cl)"

text \<open>The second section of \<open>capture_probe\<close> under the lock, which starts where the first one found \<open>gen\<close>.\<close>

definition commit_probe ::
  "host \<Rightarrow> moment \<Rightarrow> nat \<Rightarrow> bool \<Rightarrow> string \<Rightarrow> ProbeEntry option \<Rightarrow> (string \<times> pydict \<times> moment) list \<Rightarrow> client \<Rightarrow> client" where
  "commit_probe h m gen heavy label entry prepared cl =
     (let active = directive_id ` set (find_matching_probe_directives h m label cl) in
      if \<not> enabled (queue cl) \<or> gen \<noteq> generation (queue cl) then cl
      else if \<not> has_probe_room label cl then cl
      else if heavy \<and> active = {} then cl
      else
        let cl1 = keep_entry entry label cl in
        if capture_probe_events (policy (queue cl1)) = ''standalone_when_activated''
        then offer_probe_events h active prepared cl1 else cl1)"

text \<open>
  \<open>capture_probe\<close>: \<open>data\<close> is what the supplier returned (None is an exception), \<open>stamp\<close> the clock of the
  entry, \<open>ms\<close> the moments of the prepared events, and \<open>between\<close> what other threads did while no lock was held.
\<close>

definition capture_probe ::
  "host \<Rightarrow> moment \<Rightarrow> rat \<Rightarrow> (nat \<Rightarrow> moment) \<Rightarrow> moment \<Rightarrow> (client \<Rightarrow> client) \<Rightarrow> string \<Rightarrow> pyval option \<Rightarrow> pydict \<Rightarrow> client \<Rightarrow> client" where
  "capture_probe h m stamp ms m2 between label supplied options cl0 =
     (let cl = ensure_current_process m cl0; heavy = (dgetn options ''heavy'' = PBool True);
          matching = find_matching_probe_directives h m label cl in
      if \<not> at_first_lock m then drop_capture cl
      else if \<not> enabled (queue cl) \<or> (heavy \<and> matching = []) \<or> \<not> has_probe_room label cl then cl
      else
        let cl1 = between cl in
        case (sanitizer h cl (PStr label), supplied) of
          (Inr (PStr shown_label), Some v) \<Rightarrow>
            (case sanitizer h cl (if is_dict v then v else PDict [(PStr ''value'', v)]) of
               Inr (PDict d) \<Rightarrow>
                 (case prepare_probe_events h ms cl1 shown_label d 0 matching of
                    None \<Rightarrow> cl1
                  | Some prepared \<Rightarrow>
                      if \<not> at_lock m2 then drop_capture cl1
                      else commit_probe h m2 (generation (queue cl)) heavy shown_label
                        (if heavy then None
                         else Some \<lparr>entry_label = shown_label, entry_data = d, entry_timestamp = h_iso h stamp\<rparr>)
                        prepared cl1)
             | _ \<Rightarrow> cl1)
        | _ \<Rightarrow> cl1)"

subsection \<open>Remote configuration\<close>

definition emit_diagnostic :: "string \<Rightarrow> client \<Rightarrow> client" where
  "emit_diagnostic code cl = cl\<lparr>reported := reported cl @ [code]\<rparr>"

definition schedule_next_remote_config_refresh :: "bool \<Rightarrow> client \<Rightarrow> client" where
  "schedule_next_remote_config_refresh use_fallback cl0 =
     (let cl = cl0\<lparr>config_timer := None\<rparr> in
      if \<not> fetches cl then cl
      else
        let delay = (\<lambda>n. cl\<lparr>config_timer := Some (of_int n / 1000)\<rparr>) in
        case config_snapshot cl of
          None \<Rightarrow> delay (configured_poll_ms cl)
        | Some snap \<Rightarrow>
            if use_fallback then delay (configured_poll_ms cl)
            else if \<not> remote_probes_enabled snap then cl
            else delay (poll_interval_ms snap))"

text \<open>What came back: nothing new, a payload (None: it is no JSON) with the \<open>etag\<close> header, or anything else.\<close>

datatype fetched = Not_modified | Fetched "pyval option" pyval | Not_fetched

text \<open>The first section of \<open>refresh_remote_config\<close>: the headers of the request and the generation, or nothing to do.\<close>

definition refresh_request :: "string \<Rightarrow> client \<Rightarrow> ((string \<times> string) list \<times> nat) option" where
  "refresh_request project_token cl =
     (if \<not> enabled (queue cl) \<or> \<not> fetches cl then None
      else Some ((''authorization'', ''Bearer '' @ project_token) #
        (case config_etag cl of None \<Rightarrow> [] | Some t \<Rightarrow> [(''if-none-match'', t)]), generation (queue cl)))"

definition set_policy :: "CapturePolicy \<Rightarrow> client \<Rightarrow> client" where
  "set_policy p cl = cl\<lparr>queue := (queue cl)\<lparr>policy := p\<rparr>\<rparr>"

definition apply_snapshot :: "pyval \<Rightarrow> RemoteConfigSnapshot \<Rightarrow> client \<Rightarrow> client" where
  "apply_snapshot etag snap cl =
     (let cl1 = set_policy (capture_policy snap) (cl\<lparr>config_snapshot := Some snap\<rparr>);
          cl2 = (case etag of PStr (c # s) \<Rightarrow> cl1\<lparr>config_etag := Some (c # s)\<rparr> | _ \<Rightarrow> cl1)
      in schedule_next_remote_config_refresh False cl2)"

definition refresh_failed :: "bool \<Rightarrow> string \<Rightarrow> client \<Rightarrow> client" where
  "refresh_failed initial code cl =
     (let cl1 = emit_diagnostic code cl; cl2 = (if initial then set_policy MINIMAL_CAPTURE_POLICY cl1 else cl1)
      in schedule_next_remote_config_refresh True cl2)"

text \<open>The second section, from the answer on.\<close>

definition refresh_answer :: "host \<Rightarrow> moment \<Rightarrow> bool \<Rightarrow> nat \<Rightarrow> int \<Rightarrow> fetched \<Rightarrow> client \<Rightarrow> client" where
  "refresh_answer h m initial gen poll answer cl =
     (if gen \<noteq> generation (queue cl) \<or> \<not> enabled (queue cl) then cl
      else case answer of
          Not_modified \<Rightarrow> schedule_next_remote_config_refresh False cl
        | Not_fetched \<Rightarrow> refresh_failed initial ''remote_probe_config_failed'' cl
        | Fetched None etag \<Rightarrow> refresh_failed initial ''remote_probe_config_failed'' cl
        | Fetched (Some payload) etag \<Rightarrow>
            (case parse_remote_config (h_fromiso h) payload poll (now_ms m) of
               None \<Rightarrow> refresh_failed initial ''remote_probe_config_failed'' cl
             | Some parsed \<Rightarrow>
                 let cl1 = cl\<lparr>queue := snd (observe_evidence payload True (parsed \<noteq> None) (queue cl))\<rparr> in
                 (case parsed of
                    None \<Rightarrow> refresh_failed initial ''remote_probe_config_invalid'' cl1
                  | Some snap \<Rightarrow> apply_snapshot etag snap cl1)))"

subsection \<open>The hook before an event is sent\<close>

definition apply_before_send_event ::
  "host \<Rightarrow> (pydict \<Rightarrow> pyval option) option \<Rightarrow> nat \<times> pydict \<Rightarrow> client \<Rightarrow> pydict option \<times> client" where
  "apply_before_send_event h hook original cl =
     (case protected_event h cl (snd original) of
        None \<Rightarrow> (None, cl)
      | Some p \<Rightarrow>
          if fst original \<in> set (hook_bypass (queue cl)) then (Some p, cl)
          else
            let (result, codes) = apply_before_send (h_fr h) (lib_bracketed (h_lib h)) (h_schema h) (h_pat h) p hook
            in (Option.bind result (protected_event h cl), fold emit_diagnostic codes cl))"

subsection \<open>Initialisation and disposal\<close>

text \<open>\<open>dispose\<close>, without the handlers it takes out of the interpreter.\<close>

definition dispose_client :: "moment \<Rightarrow> client \<Rightarrow> client" where
  "dispose_client m cl0 =
     (let cl = ensure_current_process m cl0
      in cl\<lparr>queue := dispose_queue (queue cl), owners := clear_operations (owners cl), config_timer := None\<rparr>)"

record client_options =
  opt_queue :: init_options
  opt_service :: string
  opt_environment :: string
  opt_sample_rate :: rat
  opt_redact_fields :: "string list"
  opt_max_labels :: int
  opt_max_entries :: int
  opt_flush_on_error :: bool
  opt_poll_ms :: int

definition init_client :: "moment \<Rightarrow> client_options \<Rightarrow> client \<Rightarrow> client" where
  "init_client m opt cl0 =
     (let cl = ensure_current_process m cl0;
          names = map str_lower (opt_redact_fields opt);
          q = init_queue (opt_queue opt) (queue cl)
      in cl\<lparr>queue := q,
            cl_service := (if opt_service opt = [] then ''python-service'' else opt_service opt),
            cl_environment := (if opt_environment opt = [] then ''development'' else opt_environment opt),
            sample_rate := min (max (opt_sample_rate opt) 0) 1,
            redact_names := remdups (DEFAULT_REDACT_FIELDS @ names),
            max_probe_labels := nat (max 1 (opt_max_labels opt)),
            max_probe_entries := nat (max 1 (opt_max_entries opt)),
            probe_flush_on_error := opt_flush_on_error opt,
            owners := clear_operations (clear_operations (owners cl)),
            global_context := [], probe_buffers := [],
            fetches := opt_fetches (opt_queue opt),
            configured_poll_ms := max 1 (opt_poll_ms opt),
            config_etag := None, config_snapshot := None,
            config_timer := (if enabled q \<and> opt_fetches (opt_queue opt) then Some 0 else None)\<rparr>)"

text \<open>
  \<open>__init__\<close>, in process \<open>pid\<close>, with or without a transport of the application; a captured exception reads
  \<open>probe_flush_on_error\<close>, which only \<open>init\<close> sets, when the SDK is enabled.
\<close>

definition new_client :: "bool \<Rightarrow> nat \<Rightarrow> client" where
  "new_client own pid =
     \<lparr>queue = \<lparr>enabled = False, has_transport = False, http = \<not> own, batch_size = 25, flush_interval = 5,
        log_level = DEFAULT_LOG_LEVEL, policy = BALANCED_CAPTURE_POLICY, features = parse_features PNone,
        capture_exception_evidence = True, capture_recovery_observations = False, buffer = [], buffer_sizes = [],
        buffer_bytes = 0, pending_low_priority = 0, sending = False, inflight_count = 0, timer = None, generation = 0,
        pressure_drops = 0, last_pressure_report_at = 0, retry_after = 0, last_event_at = None, consecutive_failures = 0,
        hook_bypass = [], diagnostics = empty_budget, suppression = []\<rparr>,
      process = pid, cl_service = ''python-service'', cl_environment = ''development'', sample_rate = 1,
      redact_names = DEFAULT_REDACT_FIELDS, max_probe_labels = 50, max_probe_entries = 10, probe_flush_on_error = False,
      global_context = [], probe_buffers = [], configured_poll_ms = DEFAULT_PROBES_POLL_INTERVAL_MS, fetches = False,
      config_etag = None, config_snapshot = None, config_timer = None, owners = no_operations, scoped = no_scopes,
      requests = no_scopes, reported = []\<rparr>"

end
