(* ===== verification/Scope_Facts.thy ===== *)
theory Scope_Facts
  imports Scopes
begin

text \<open>
  Facts on operations and scopes. The loops of \<open>current\<close>, \<open>alive\<close>, \<open>end\<close> and \<open>release\<close> walk up a chain of owners
  for at most sixteen rounds; what such a walk finds is proved once, in the locale \<open>ownership\<close>, for both kinds
  of owner. The operations form a system whose steps interleave the execution contexts in any order.
\<close>

subsection \<open>Walking up a chain of owners\<close>

locale ownership =
  fixes up :: "'o \<Rightarrow> 'o option" and ident :: "'o \<Rightarrow> nat" and stamp :: "'o \<Rightarrow> nat"
    and live :: "nat \<Rightarrow> nat \<Rightarrow> nat list \<Rightarrow> 'o option \<Rightarrow> bool"
    and seek :: "nat \<Rightarrow> nat \<Rightarrow> 'o option \<Rightarrow> 'o option"
    and chain :: "'o option \<Rightarrow> 'o list"
  assumes live_0: "\<not> live 0 g ended x"
    and live_None: "live (Suc n) g ended None"
    and live_Some: "live (Suc n) g ended (Some v) \<longleftrightarrow> ident v \<notin> set ended \<and> stamp v = g \<and> live n g ended (up v)"
    and seek_0: "seek 0 t x = None"
    and seek_None: "seek (Suc n) t None = None"
    and seek_Some: "seek (Suc n) t (Some v) = (if ident v = t then Some v else seek n t (up v))"
    and chain_None: "chain None = []"
    and chain_Some: "chain (Some v) = v # chain (up v)"
begin

lemma live_iff: "live n g ended x \<longleftrightarrow> length (chain x) < n \<and> (\<forall>v \<in> set (chain x). ident v \<notin> set ended \<and> stamp v = g)"
proof (induction n arbitrary: x)
  case 0
  show ?case by (simp add: live_0)
next
  case (Suc n)
  show ?case by (cases x) (auto simp: live_None live_Some chain_None chain_Some Suc)
qed

lemma seek_found: "seek n t x = Some v \<Longrightarrow> v \<in> set (chain x) \<and> ident v = t"
proof (induction n arbitrary: x)
  case 0
  then show ?case by (simp add: seek_0)
next
  case (Suc n)
  then show ?case
    by (cases x) (auto simp: seek_None seek_Some chain_Some split: if_splits dest: Suc.IH)
qed

lemma seek_top: "ident v = t \<Longrightarrow> 0 < n \<Longrightarrow> seek n t (Some v) = Some v"
  by (cases n) (simp_all add: seek_Some)

end

lemma op_chain_Some: "op_chain (Some v) = v # op_chain (op_parent v)"
  by (cases v) simp

lemma lease_chain_Some: "lease_chain (Some l) = l # lease_chain (ls_parent l)"
  by (cases l) simp

interpretation own_op: ownership op_parent op_ident op_revision op_alive op_find op_chain
  by unfold_locales (auto simp: op_chain_Some)

interpretation own_ls: ownership ls_parent ls_ident ls_generation lease_alive lease_find lease_chain
  by unfold_locales (auto simp: lease_chain_Some)

lemma current_operation_iff: "current_operation c s = Some v \<longleftrightarrow>
   op_current s c = Some v \<and> length (op_chain (Some v)) \<le> 15 \<and>
   (\<forall>w \<in> set (op_chain (Some v)). op_ident w \<notin> set (op_ended s) \<and> op_revision w = revision_now s)"
  by (auto simp: current_operation_def own_op.live_iff)

lemma current_operation_chain: "set (op_chain (current_operation c s)) \<subseteq> set (op_chain (op_current s c))"
  by (simp add: current_operation_def)

lemma current_chain_live:
  "v \<in> set (op_chain (current_operation c s)) \<Longrightarrow> op_ident v \<notin> set (op_ended s) \<and> op_revision v = revision_now s"
  by (auto simp: current_operation_def own_op.live_iff split: if_splits)

lemma current_chain_length: "length (op_chain (current_operation c s)) \<le> 15"
  by (auto simp: current_operation_def own_op.live_iff split: if_splits)

subsection \<open>Runs of operations\<close>

text \<open>What threads and tasks can do; the second part of a state holds the tokens that were handed out.\<close>

inductive op_step :: "operations \<times> operation token list \<Rightarrow> operations \<times> operation token list \<Rightarrow> bool" where
  beginning: "begin_operation c options ident now s = (Some t, s') \<Longrightarrow> op_step (s, ts) (s', t # ts)"
| ending: "t \<in> set ts \<Longrightarrow> end_operation c (Some t) s = Some s' \<Longrightarrow> op_step (s, ts) (s', ts)"
| clearing: "op_step (s, ts) (clear_operations s, ts)"
| task: "op_step (s, ts) (s\<lparr>op_current := (op_current s)(c' := op_current s c)\<rparr>, ts)"

definition operation_ok :: "operation \<Rightarrow> bool" where
  "operation_ok v \<longleftrightarrow> op_kind v \<in> {''request'', ''command'', ''job'', ''unknown''} \<and>
     null_or (\<lambda>n. text_ok n 128) (op_name v) \<and> null_or number (op_limit v)"

text \<open>All owners anyone can reach are well-formed and older than the next one.\<close>

definition owners_ok :: "nat \<Rightarrow> operation option \<Rightarrow> bool" where
  "owners_ok n v \<longleftrightarrow> (\<forall>w \<in> set (op_chain v). op_ident w < n \<and> operation_ok w)"

fun operations_ok :: "operations \<times> operation token list \<Rightarrow> bool" where
  "operations_ok (s, ts) \<longleftrightarrow> (\<forall>c. owners_ok (op_next s) (op_current s c)) \<and>
     set (op_ended s) \<union> set (op_reset s) \<subseteq> {..<op_next s} \<and> (\<forall>t \<in> set ts. owners_ok (op_next s) (tk_old t))"

lemma owners_ok_mono: "owners_ok n v \<Longrightarrow> n \<le> m \<Longrightarrow> owners_ok m v"
  by (auto simp: owners_ok_def)

lemma owners_ok_current: "owners_ok n (op_current s c) \<Longrightarrow> owners_ok n (current_operation c s)"
  using current_operation_chain by (auto simp: owners_ok_def)

lemma begin_Some:
  assumes "begin_operation c options ident now s = (Some t, s')"
  obtains v where "op_ident v = op_next s" "op_revision v = revision_now s" "op_parent v = current_operation c s"
    "op_started v = now" "op_scope v = PDict [(PStr ''kind'', PStr ''operation''), (PStr ''operation_id'', PStr ident)]"
    "operation_ok v" "length (op_chain (current_operation c s)) < 15"
    "t = \<lparr>tk_id = op_next s, tk_context = c, tk_old = op_current s c\<rparr>"
    "s' = s\<lparr>op_current := (op_current s)(c := Some v), op_next := op_next s + 1\<rparr>"
proof -
  define d where "d = (case options of PDict d \<Rightarrow> d | _ \<Rightarrow> [])"
  define v where "v = Operation (op_next s) (revision_now s)
    (PDict [(PStr ''kind'', PStr ''operation''), (PStr ''operation_id'', PStr ident)])
    (operation_kind d) (operation_name d) (operation_limit d) now (current_operation c s)"
  have "operation_kind d \<in> {''request'', ''command'', ''job'', ''unknown''}"
    by (simp add: operation_kind_def split: pyval.splits)
  moreover have "null_or (\<lambda>n. text_ok n 128) (operation_name d)"
    using length_le_utf8_len by (auto simp: operation_name_def null_or_def split: pyval.splits intro: order_trans)
  moreover have "null_or number (operation_limit d)"
    by (auto simp: operation_limit_def null_or_def number_def split: option.splits)
  ultimately have "operation_ok v" by (simp add: operation_ok_def v_def)
  with assms that [of v] show thesis
    by (auto simp: begin_operation_def v_def d_def Let_def split: if_splits)
qed

lemma end_Some:
  assumes "end_operation c (Some t) s = Some s'"
  obtains (absent) "op_find 16 (tk_id t) (op_current s c) = None" "s' = s"
  | (inner) v where "v \<in> set (op_chain (op_current s c))" "op_ident v = tk_id t" "s' = s\<lparr>op_ended := tk_id t # op_ended s\<rparr>"
  | (top) v where "op_current s c = Some v" "op_ident v = tk_id t"
      "s' = s\<lparr>op_current := (op_current s)(c := tk_old t), op_reset := tk_id t # op_reset s, op_ended := tk_id t # op_ended s\<rparr>"
proof (cases "op_find 16 (tk_id t) (op_current s c)")
  case None
  with assms have "s' = s" by (simp add: end_operation_def)
  with None show thesis by (rule absent)
next
  case (Some v)
  from own_op.seek_found [OF this] have v: "v \<in> set (op_chain (op_current s c))" "op_ident v = tk_id t" by simp_all
  show thesis
  proof (cases "map_option op_ident (op_current s c) = Some (op_ident v)")
    case True
    then obtain w where w: "op_current s c = Some w" "op_ident w = tk_id t" using v by auto
    have "s' = s\<lparr>op_current := (op_current s)(c := tk_old t), op_reset := tk_id t # op_reset s, op_ended := tk_id t # op_ended s\<rparr>"
      using assms Some v True by (auto simp: end_operation_def split: if_splits)
    with w show thesis by (rule top)
  next
    case False
    with assms Some v have "s' = s\<lparr>op_ended := tk_id t # op_ended s\<rparr>"
      by (simp add: end_operation_def del: map_option_eq_Some)
    with v show thesis by (rule inner)
  qed
qed

lemma op_step_ok: "op_step x y \<Longrightarrow> operations_ok x \<Longrightarrow> operations_ok y"
proof (induction rule: op_step.induct)
  case (beginning c options ident now s t s' ts)
  from beginning.hyps obtain v where v: "op_ident v = op_next s" "op_revision v = revision_now s"
    "op_parent v = current_operation c s" "op_started v = now"
    "op_scope v = PDict [(PStr ''kind'', PStr ''operation''), (PStr ''operation_id'', PStr ident)]"
    "operation_ok v" "length (op_chain (current_operation c s)) < 15"
    "t = \<lparr>tk_id = op_next s, tk_context = c, tk_old = op_current s c\<rparr>"
    "s' = s\<lparr>op_current := (op_current s)(c := Some v), op_next := op_next s + 1\<rparr>"
    by (rule begin_Some)
  from beginning.prems have old: "owners_ok (op_next s) (op_current s c')" for c' by simp
  have "owners_ok (Suc (op_next s)) (Some v)"
    using owners_ok_current [OF old] v by (auto simp: owners_ok_def op_chain_Some less_Suc_eq)
  with beginning.prems v show ?case by (auto intro: owners_ok_mono less_SucI)
next
  case (ending t ts c s s')
  have owned: "v \<in> set (op_chain (op_current s c)) \<Longrightarrow> op_ident v < op_next s" for v
    using ending.prems by (auto simp: owners_ok_def)
  from ending.hyps(2) show ?case
  proof (cases rule: end_Some)
    case (inner v)
    with owned [of v] ending.prems show ?thesis by simp
  next
    case (top v)
    with owned [of v] ending show ?thesis by (auto simp: op_chain_Some)
  qed (use ending.prems in simp)
qed (auto simp: clear_operations_def)

abbreviation op_run :: "operations \<times> operation token list \<Rightarrow> operations \<times> operation token list \<Rightarrow> bool" where
  "op_run \<equiv> op_step\<^sup>*\<^sup>*"

lemma op_run_ok: "op_run x y \<Longrightarrow> operations_ok x \<Longrightarrow> operations_ok y"
  by (induction rule: rtranclp_induct) (auto intro: op_step_ok)

lemma initially_ok: "operations_ok (no_operations, [])"
  by (simp add: no_operations_def owners_ok_def)

lemmas reached_ok = op_run_ok [OF _ initially_ok]

text \<open>No owner comes back to life, and the revision never falls.\<close>

lemma op_step_ended: "op_step x y \<Longrightarrow> set (op_ended (fst x)) \<subseteq> set (op_ended (fst y))"
  by (induction rule: op_step.induct)
    (auto simp: clear_operations_def elim!: begin_Some end_Some)

lemma op_run_ended: "op_run x y \<Longrightarrow> set (op_ended (fst x)) \<subseteq> set (op_ended (fst y))"
  by (induction rule: rtranclp_induct) (auto dest: op_step_ended)

lemma op_step_revision: "op_step x y \<Longrightarrow> revision_now (fst x) \<le> revision_now (fst y)"
  by (induction rule: op_step.induct)
    (auto simp: clear_operations_def elim!: begin_Some end_Some)

lemma op_run_revision: "op_run x y \<Longrightarrow> revision_now (fst x) \<le> revision_now (fst y)"
  by (induction rule: rtranclp_induct) (auto dest: op_step_revision)

subsection \<open>Owners\<close>

text \<open>
  Beginning an operation. In every state that threads and tasks can reach, an operation is refused exactly
  when fifteen operations already enclose the context; otherwise it is at once the current operation of its
  context, below the one that was current, and ending it at once gives the context its former value back.
\<close>

theorem begin_makes_current:
  assumes "op_run (no_operations, []) (s, ts)"
    and "begin_operation c options ident now s = (token, s')"
  shows "(token = None \<longleftrightarrow> length (op_chain (current_operation c s)) = 15) \<and>
    (\<forall>t. token = Some t \<longrightarrow> (\<exists>v. current_operation c s' = Some v \<and> op_ident v = tk_id t \<and>
       op_parent v = current_operation c s \<and>
       (\<exists>s''. end_operation c token s' = Some s'' \<and> op_current s'' = op_current s)))"
proof -
  have ok: "operations_ok (s, ts)" using assms(1) by (rule reached_ok)
  have "token = None \<longleftrightarrow> 15 \<le> length (op_chain (current_operation c s))"
    using assms(2) by (auto simp: begin_operation_def Let_def split: if_splits)
  with current_chain_length [of c s] have none: "token = None \<longleftrightarrow> length (op_chain (current_operation c s)) = 15" by linarith
  have "\<exists>v. current_operation c s' = Some v \<and> op_ident v = tk_id t \<and> op_parent v = current_operation c s \<and>
      (\<exists>s''. end_operation c token s' = Some s'' \<and> op_current s'' = op_current s)" if t: "token = Some t" for t
  proof -
    from assms(2) [unfolded t] obtain v where v: "op_ident v = op_next s" "op_revision v = revision_now s"
      "op_parent v = current_operation c s" "op_started v = now"
      "op_scope v = PDict [(PStr ''kind'', PStr ''operation''), (PStr ''operation_id'', PStr ident)]"
      "operation_ok v" "length (op_chain (current_operation c s)) < 15"
      "t = \<lparr>tk_id = op_next s, tk_context = c, tk_old = op_current s c\<rparr>"
      "s' = s\<lparr>op_current := (op_current s)(c := Some v), op_next := op_next s + 1\<rparr>"
      by (rule begin_Some)
    have new: "op_next s \<notin> set (op_ended s) \<union> set (op_reset s)" using ok by auto
    have "current_operation c s' = Some v"
      using v new current_chain_live [of _ c s] by (auto simp: current_operation_iff op_chain_Some)
    moreover have "\<exists>s''. end_operation c token s' = Some s'' \<and> op_current s'' = op_current s"
      using v new t own_op.seek_top [of v "op_next s" 16] by (auto simp: end_operation_def)
    ultimately show ?thesis using v by auto
  qed
  with none show ?thesis by blast
qed

theorem begin_makes_current_witness:
  "(let (token, s) = begin_operation 0 (PDict [(PStr ''kind'', PStr ''job'')]) ''a'' 1 no_operations in
    token \<noteq> None \<and> current_operation 0 s \<noteq> None \<and> current_operation 1 s = None)"
proof -
  let ?b = "begin_operation 0 (PDict [(PStr ''kind'', PStr ''job'')]) ''a'' 1 no_operations"
  obtain token s where b: "?b = (token, s)" by fastforce
  have "op_chain (current_operation 0 no_operations) = []" "current_operation 1 s = None"
    using b by (auto simp: begin_operation_def no_operations_def current_operation_def Let_def eval_nat_numeral split: if_splits)
  with begin_makes_current [OF rtranclp.rtrancl_refl b] b show ?thesis by auto
qed

text \<open>
  C16: An operation that has ended is over everywhere. Once its token has ended it in some context, no context,
  also none that copied its value before or a task started later, ever sees a current operation that is this
  one or lies below it, whatever else happens.
\<close>

theorem ended_operation_gone:
  assumes "op_find 16 (tk_id t) (op_current s c) \<noteq> None" and "end_operation c (Some t) s = Some s'"
    and "op_run (s', ts) (s'', ts')" and "current_operation c' s'' = Some v"
  shows "\<forall>w \<in> set (op_chain (Some v)). op_ident w \<noteq> tk_id t"
proof -
  have "tk_id t \<in> set (op_ended s')" using assms(1,2) by (auto elim!: end_Some)
  with op_run_ended [OF assms(3)] have "tk_id t \<in> set (op_ended s'')" by auto
  with assms(4) show ?thesis by (auto simp: current_operation_iff)
qed

text \<open>A job in one context whose value a task has copied, ended, and another one begun.\<close>

definition job_token :: "operation token" where
  "job_token = the (fst (begin_operation 0 PNone ''a'' 1 no_operations))"

definition job_copied :: operations where
  "job_copied = (let s = snd (begin_operation 0 PNone ''a'' 1 no_operations)
     in s\<lparr>op_current := (op_current s)(1 := op_current s 0)\<rparr>)"

theorem ended_operation_gone_witness:
  "current_operation 1 job_copied \<noteq> None \<and>
   (\<exists>s' s''. end_operation 0 (Some job_token) job_copied = Some s' \<and> current_operation 1 s' = None \<and>
      begin_operation 1 PNone ''b'' 2 s' = (Some \<lparr>tk_id = 1, tk_context = 1, tk_old = op_current s' 1\<rparr>, s'') \<and>
      list_all (\<lambda>w. op_ident w \<noteq> 0) (op_chain (current_operation 1 s'')))"
proof -
  define s' where "s' = the (end_operation 0 (Some job_token) job_copied)"
  define s'' where "s'' = snd (begin_operation 1 PNone ''b'' 2 s')"
  have find: "op_find 16 (tk_id job_token) (op_current job_copied 0) \<noteq> None"
    and e: "end_operation 0 (Some job_token) job_copied = Some s'"
    and b: "begin_operation 1 PNone ''b'' 2 s' = (Some \<lparr>tk_id = 1, tk_context = 1, tk_old = op_current s' 1\<rparr>, s'')"
    and c: "current_operation 1 job_copied \<noteq> None" "current_operation 1 s' = None" "current_operation 1 s'' \<noteq> None"
    and t: "tk_id job_token = 0"
    by (simp_all add: s''_def s'_def job_token_def job_copied_def no_operations_def begin_operation_def end_operation_def
        current_operation_def Let_def eval_nat_numeral)
  from c(3) obtain v where v: "current_operation 1 s'' = Some v" by blast
  have "op_run (s', []) (s'', [\<lparr>tk_id = 1, tk_context = 1, tk_old = op_current s' 1\<rparr>])"
    using op_step.beginning [OF b] by blast
  from ended_operation_gone [OF find e this v] have "list_all (\<lambda>w. op_ident w \<noteq> 0) (op_chain (current_operation 1 s''))"
    by (simp only: v t list_all_iff)
  with e b c show ?thesis by blast
qed

text \<open>
  C17: What a snapshot says passes the evidence boundary. In every state that threads and tasks can reach, the
  snapshot of the current operation is execution metadata that the validator of events accepts, as long as the
  time since its start is a float.
\<close>

theorem snapshot_is_execution:
  assumes "op_run (no_operations, []) (s, ts)" and "operation_snapshot c now s = Some e"
    and "\<forall>v. current_operation c s = Some v \<longrightarrow> (now - op_started v) * 1000 \<le> of_int max_double"
  shows "execution e"
proof -
  from assms(2) obtain v where v: "current_operation c s = Some v" and e: "e = PDict [(PStr ''version'', PInt 1),
      (PStr ''kind'', PStr (op_kind v)), (PStr ''name'', op_name v),
      (PStr ''elapsed_ms'', if 0 < now - op_started v then PFloat (Fin ((now - op_started v) * 1000)) else PInt 0),
      (PStr ''limit_ms'', op_limit v)]"
    by (auto simp: operation_snapshot_def)
  from reached_ok [OF assms(1)] have "owners_ok (op_next s) (current_operation c s)" by (auto intro: owners_ok_current)
  then have ok: "operation_ok v" using v by (simp add: owners_ok_def op_chain_Some)
  have elapsed: "null_or number (if 0 < now - op_started v then PFloat (Fin ((now - op_started v) * 1000)) else PInt 0)"
    using assms(3) v by (auto simp: null_or_def number_def max_double_def)
  have one: "integer (PInt 1) 1 (Some 1)"
    using max_double_ge [of 1] by (simp add: integer_def number_def)
  show ?thesis
    using ok elapsed one by (auto simp: e operation_ok_def dgetn_def has_key_def str_keys_def)
qed

theorem snapshot_is_execution_witness:
  "(let s = snd (begin_operation 0 (PDict [(PStr ''name'', PStr ''nightly'')]) ''a'' 1 no_operations)
    in \<exists>e. operation_snapshot 0 3 s = Some e \<and> execution e)"
proof -
  define s where "s = snd (begin_operation 0 (PDict [(PStr ''name'', PStr ''nightly'')]) ''a'' 1 no_operations)"
  obtain t where b: "begin_operation 0 (PDict [(PStr ''name'', PStr ''nightly'')]) ''a'' 1 no_operations = (Some t, s)"
    by (simp add: s_def begin_operation_def no_operations_def current_operation_def Let_def eval_nat_numeral)
  then have run: "op_run (no_operations, []) (s, [t])"
    using op_step.beginning by blast
  from b obtain v where v: "current_operation 0 s = Some v" "op_started v = 1"
    by (auto simp: begin_operation_def no_operations_def current_operation_def Let_def eval_nat_numeral)
  then obtain e where e: "operation_snapshot 0 3 s = Some e" by (simp add: operation_snapshot_def)
  have "(3 - 1) * 1000 \<le> (of_int max_double :: rat)" by (simp add: max_double_def)
  with snapshot_is_execution [OF run e] v have "execution e" by simp
  with e show ?thesis by (auto simp: s_def)
qed

subsection \<open>Scopes\<close>

lemma alive_iff: "alive gen s v \<longleftrightarrow> (\<exists>d l. v = Some (d, l) \<and> length (lease_chain (Some l)) \<le> 15 \<and>
   (\<forall>m \<in> set (lease_chain (Some l)). ls_ident m \<notin> set (sc_ended s) \<and> ls_generation m = gen))"
  by (auto simp: alive_def own_ls.live_iff split: option.splits)

text \<open>\<open>n\<close> scopes bound inside each other in one context, the k-th with the value \<open>d\<close>.\<close>

definition bind_deeper :: "pydict \<Rightarrow> nat \<Rightarrow> pydict scopes \<Rightarrow> pydict scopes" where
  "bind_deeper d n s = ((\<lambda>s. snd (bind_context 0 0 d s)) ^^ n) s"

text \<open>
  Fifteen scopes inside each other keep their value; the sixteenth loses it although its owner and all owners
  above it are active, and the seventeenth starts a chain of its own that outlives them.
\<close>

lemma deep_chain: "n < 16 \<Longrightarrow> 0 < n \<Longrightarrow>
   (\<exists>l. sc_value (bind_deeper d n no_scopes) 0 = Some (d, l) \<and> length (lease_chain (Some l)) = n \<and>
      (\<forall>m \<in> set (lease_chain (Some l)). ls_generation m = 0)) \<and> sc_ended (bind_deeper d n no_scopes) = []"
proof (induction n)
  case (Suc n)
  show ?case
  proof (cases "n = 0")
    case True
    then show ?thesis by (simp add: bind_deeper_def bind_context_def bind_scope_def no_scopes_def Let_def)
  next
    case False
    with Suc obtain l where l: "sc_value (bind_deeper d n no_scopes) 0 = Some (d, l)" "length (lease_chain (Some l)) = n"
      "\<forall>m \<in> set (lease_chain (Some l)). ls_generation m = 0" "sc_ended (bind_deeper d n no_scopes) = []" by auto
    have "bind_deeper d (Suc n) no_scopes = snd (bind_context 0 0 d (bind_deeper d n no_scopes))" by (simp add: bind_deeper_def)
    moreover have "alive 0 (bind_deeper d n no_scopes) (Some (d, l))"
      unfolding alive_iff using l Suc.prems by auto
    ultimately show ?thesis
      using l by (auto simp: bind_context_def bind_scope_def Let_def lease_chain_Some)
  qed
qed simp

lemma sixteenth_scope_lost:
  "context_value 0 0 (bind_deeper d 15 no_scopes) = d \<and> context_value 0 0 (bind_deeper d 16 no_scopes) = [] \<and>
   (\<exists>l. sc_value (bind_deeper d 17 no_scopes) 0 = Some (d, l) \<and> ls_parent l = None)"
proof -
  obtain l where l: "sc_value (bind_deeper d 15 no_scopes) 0 = Some (d, l)" "length (lease_chain (Some l)) = 15"
    "\<forall>m \<in> set (lease_chain (Some l)). ls_generation m = 0" "sc_ended (bind_deeper d 15 no_scopes) = []"
    using deep_chain [of 15 d] by auto
  have up: "bind_deeper d (Suc n) no_scopes = snd (bind_context 0 0 d (bind_deeper d n no_scopes))" for n
    by (simp add: bind_deeper_def)
  have a: "alive 0 (bind_deeper d 15 no_scopes) (Some (d, l))" unfolding alive_iff using l by auto
  then obtain m where m: "sc_value (bind_deeper d 16 no_scopes) 0 = Some (d, m)" "ls_parent m = Some l"
    using up [of 15] l(1) by (simp add: bind_context_def bind_scope_def Let_def)
  then have dead: "\<not> alive 0 s (Some (d, m))" for s :: "pydict scopes"
    unfolding alive_iff using l(2) by (auto simp: lease_chain_Some)
  have "\<exists>l. sc_value (bind_deeper d 17 no_scopes) 0 = Some (d, l) \<and> ls_parent l = None"
    using up [of 16] m dead by (simp add: bind_context_def bind_scope_def Let_def)
  with a l(1) m dead show ?thesis by (simp add: context_value_def)
qed

text \<open>
  A released scope is over everywhere: no value on it or below it is alive again in any context, in any state
  that keeps the record of ended scopes.
\<close>

lemma released_scope_gone:
  assumes "release_lease c t s = Some (Some l, s')" and "set (sc_ended s') \<subseteq> set (sc_ended s'')"
    and "alive gen s'' (Some (d, m))" and "k \<in> set (lease_chain (Some m))"
  shows "ls_ident k \<noteq> tk_id t"
proof -
  from assms(1) have "lease_find 16 (tk_id t) (map_option snd (sc_value s c)) = Some l"
    by (auto simp: release_lease_def split: option.splits if_splits)
  from own_ls.seek_found [OF this] assms(1) have "tk_id t \<in> set (sc_ended s')"
    by (auto simp: release_lease_def split: option.splits if_splits)
  with assms(2) have "tk_id t \<in> set (sc_ended s'')" by blast
  moreover have "ls_ident k \<notin> set (sc_ended s'')" using assms(3,4) by (simp add: alive_iff)
  ultimately show ?thesis by metis
qed

text \<open>Binding and releasing a request in one context gives back the value and the operation that were there.\<close>

lemma bind_release_restores:
  assumes "bind_directives gen c ident now ds (ops, s) = (t, ops', s')"
    and "operations_ok (ops, ts)" and "sc_next s \<notin> set (sc_reset s)"
  shows "\<exists>ops'' s''. release_directives c t (ops', s') = (False, ops'', s'') \<and> sc_value s'' = sc_value s \<and>
    op_current ops'' = op_current ops"
proof -
  obtain o1 where b: "begin_operation c (PDict [(PStr ''kind'', PStr ''request'')]) ident now ops = (o1, ops')"
    and s: "bind_scope gen c ds o1 s = (t, s')"
    using assms(1) by (auto simp: bind_directives_def Let_def split: prod.splits)
  from s obtain p where v: "t = \<lparr>tk_id = sc_next s, tk_context = c, tk_old = sc_value s c\<rparr>"
    "s' = s\<lparr>sc_value := (sc_value s)(c := Some (ds, Lease (sc_next s) gen p o1)), sc_next := sc_next s + 1\<rparr>"
    by (auto simp: bind_scope_def Let_def)
  have l: "release_lease c t s' = Some (Some (Lease (sc_next s) gen p o1),
      s'\<lparr>sc_value := sc_value s, sc_reset := sc_next s # sc_reset s, sc_ended := sc_next s # sc_ended s\<rparr>)"
    using assms(3) own_ls.seek_top [of "Lease (sc_next s) gen p o1" "sc_next s" 16]
    by (simp add: release_lease_def v)
  have "\<exists>ops''. end_operation c o1 ops' = Some ops'' \<and> op_current ops'' = op_current ops"
  proof (cases o1)
    case None
    then have "ops' = ops" using b by (auto simp: begin_operation_def Let_def split: if_splits)
    with None show ?thesis by (simp add: end_operation_def)
  next
    case (Some ot)
    from b [unfolded Some] obtain v where "op_ident v = op_next ops" "op_revision v = revision_now ops"
      "op_parent v = current_operation c ops" "op_started v = now"
      "op_scope v = PDict [(PStr ''kind'', PStr ''operation''), (PStr ''operation_id'', PStr ident)]"
      "operation_ok v" "length (op_chain (current_operation c ops)) < 15"
      "ot = \<lparr>tk_id = op_next ops, tk_context = c, tk_old = op_current ops c\<rparr>"
      "ops' = ops\<lparr>op_current := (op_current ops)(c := Some v), op_next := op_next ops + 1\<rparr>"
      by (rule begin_Some)
    moreover have "op_next ops \<notin> set (op_reset ops)" using assms(2) by auto
    ultimately show ?thesis
      using Some own_op.seek_top [of v "op_next ops" 16] by (auto simp: end_operation_def)
  qed
  with l show ?thesis by (auto simp: release_directives_def)
qed

end
