(* ===== verification/Capture_Facts.thy ===== *)
theory Capture_Facts
  imports Client Delivery Relay_Facts Scope_Facts
begin

text \<open>
  Facts on captures: the protection of an event returns, what it lets through is clean, and every capture is a
  run of the delivery protocol of theory Delivery, so that the invariants of the queue hold of whole clients.
\<close>

subsection \<open>Protection\<close>

lemma visit_items_Cons:
  "visit_items scrub sens loads fr structured depth ((k, v) # d) x = Inr (e, y) \<Longrightarrow>
   (\<exists>x'. visit_items scrub sens loads fr structured depth d x' = Inr (e, y)) \<or>
   (\<exists>w x' e'. e = (k, w) # e' \<and> visit_items scrub sens loads fr structured depth d x' = Inr (e', y))"
  by (cases x) (auto simp: map_sum_Inr split: pyval.splits if_splits sum.splits)

lemma visit_items_keys:
  "visit_items scrub sens loads fr structured depth d x = Inr (e, y) \<Longrightarrow>
   fst ` set e \<subseteq> fst ` set d \<and> (dict_ok d \<longrightarrow> dict_ok e)"
proof (induction d arbitrary: x e y)
  case (Cons a d)
  obtain k v where a: "a = (k, v)" by fastforce
  from visit_items_Cons [OF Cons.prems [unfolded a]] show ?case
  proof (elim disjE exE conjE)
    fix x'
    assume "visit_items scrub sens loads fr structured depth d x' = Inr (e, y)"
    from Cons.IH [OF this] show ?thesis by auto
  next
    fix w x' e'
    assume e: "e = (k, w) # e'" and "visit_items scrub sens loads fr structured depth d x' = Inr (e', y)"
    from Cons.IH [OF this(2)] show ?thesis unfolding e a by auto
  qed
qed simp

lemma sanitize_dict:
  assumes "sanitize_telemetry lib loads fr extra v = Inr (PDict e)"
  shows "\<exists>d. v = PDict d \<and> fst ` set e \<subseteq> fst ` set d \<and> (dict_ok d \<longrightarrow> dict_ok e)"
proof -
  from assms obtain st where v: "visit_value (scrub_text lib extra) (\<lambda>key. sensitive_key key (all_fields extra)) loads fr True 0 v (0, 0) =
      Inr (PDict e, st)"
    by (auto simp: sanitize_telemetry_def split: if_splits sum.splits option.splits)
  then show ?thesis
  proof (cases v)
    case (PDict d)
    with v obtain x y where "visit_items (scrub_text lib extra) (\<lambda>key. sensitive_key key (all_fields extra)) loads fr True 1 d x =
        Inr (e, y)"
      by (auto simp: visit_value.simps map_sum_Inr split: if_splits)
    from visit_items_keys [OF this] PDict show ?thesis by simp
  qed (auto simp: visit_value.simps map_sum_Inr split: if_splits option.splits sum.splits)
qed

lemma sanitize_writable:
  "sanitize_telemetry lib loads fr extra v = Inr w \<Longrightarrow> json_bytes False True fr w \<noteq> None"
  by (auto simp: sanitize_telemetry_def split: if_splits sum.splits option.splits)

text \<open>An event without optional evidence; no part of the protection brings any back.\<close>

definition bare :: "pydict \<Rightarrow> bool" where
  "bare e \<longleftrightarrow> (\<forall>k \<in> set optional_fields. \<not> has_key k (payload_of e))"

definition narrows :: "(pyval \<Rightarrow> unsafe + pyval) \<Rightarrow> bool" where
  "narrows sanitize \<longleftrightarrow> (\<forall>v e. sanitize v = Inr (PDict e) \<longrightarrow>
     (\<exists>d. v = PDict d \<and> fst ` set e \<subseteq> fst ` set d \<and> (dict_ok d \<longrightarrow> dict_ok e)))"

lemma sanitizer_narrows: "narrows (sanitize_telemetry lib loads fr extra)"
  unfolding narrows_def using sanitize_dict by blast

lemma has_key_set: "has_key k d \<longleftrightarrow> PStr k \<in> fst ` set d"
  by (auto simp: has_key_def map_of_eq_None_iff)

lemma bare_filter: "filter_evidence s e = Some e' \<Longrightarrow> bare e \<Longrightarrow> bare e'"
proof -
  assume f: "filter_evidence s e = Some e'" and "bare e"
  from f obtain fs where "strip_unsupported (PDict e) fs = Some (PDict e')"
    unfolding filter_evidence_def by (auto simp del: strip_unsupported.simps split: option.splits pyval.splits)
  from strip_facts [OF this] have "\<exists>p. dgetn e ''payload'' = PDict p \<and>
      (e' = e \<or> (\<exists>p'. dgetn e' ''payload'' = PDict p' \<and> (\<forall>k. dget p k = None \<longrightarrow> dget p' k = None)))"
    by (cases "one_str (dgetn e ''event_type'') [''diagnostic_context'']") (auto simp del: strip_unsupported.simps)
  then show "bare e'"
    using \<open>bare e\<close> by (auto simp: bare_def payload_of_def has_key_def)
qed

lemma clean_parts_get:
  assumes "clean_parts sanitize ks e = Inr c" "distinct ks"
  shows "dget c k = (if k \<in> set ks then map_option (\<lambda>v. projr (sanitize v)) (dget e k) else dget e k)"
    and "k \<in> set ks \<Longrightarrow> dget e k = Some v \<Longrightarrow> sanitize v = Inr (projr (sanitize v))"
  using assms
proof (induction ks arbitrary: e)
  case (Cons l ks)
  {
    case 1
    with Cons.IH(1) show ?case by (auto split: option.splits sum.splits)
  next
    case 2
    show ?case
    proof (cases "k = l")
      case True
      with 2 show ?thesis by (auto split: sum.splits)
    next
      case False
      with 2 Cons.IH(2) [of e] Cons.IH(2) [of "dput l (projr (sanitize (the (dget e l)))) e"] show ?thesis
        by (auto split: option.splits sum.splits)
    qed
  }
qed auto

lemma bare_clean:
  assumes "clean_parts sanitize [''payload'', ''context'', ''service''] e = Inr c" "narrows sanitize" "bare e"
  shows "bare c"
proof (cases "dget e ''payload''")
  case None
  then show ?thesis using clean_parts_get(1) [OF assms(1), of "''payload''"] by (simp add: bare_def payload_of_def dgetn_def has_key_def)
next
  case (Some v)
  have v: "sanitize v = Inr (projr (sanitize v))" by (rule clean_parts_get(2) [OF assms(1) _ _ Some]) simp_all
  have c: "dgetn c ''payload'' = projr (sanitize v)"
    using clean_parts_get(1) [OF assms(1), of "''payload''"] Some by (simp add: dgetn_def)
  show ?thesis
  proof (cases "projr (sanitize v)")
    case (PDict p)
    with v assms(2) obtain d where "v = PDict d" "fst ` set p \<subseteq> fst ` set d" unfolding narrows_def by metis
    moreover have "payload_of c = p" "payload_of e = d" using Some c PDict \<open>v = PDict d\<close> by (simp_all add: payload_of_def dgetn_def [of e])
    ultimately show ?thesis using assms(3) unfolding bare_def has_key_set by blast
  qed (simp_all add: bare_def payload_of_def c has_key_def)
qed

lemma bare_final: "bare e \<Longrightarrow> fall_back e = Rejected"
  by (auto simp: fall_back_def bare_def payload_of_def split: pyval.splits)

lemma protect_settles:
  assumes "bare g" "narrows sanitize" "\<And>e. keep g = Some e \<Longrightarrow> bare e"
  shows "protect_once sanitize check_schema evidence_ok keep g \<noteq> Again f"
proof (cases "keep g")
  case (Some e)
  have e: "fall_back e = Rejected" by (rule bare_final, rule assms(3), rule Some)
  have c: "fall_back c = Rejected" if "clean_parts sanitize [''payload'', ''context'', ''service''] e = Inr c" for c
    by (rule bare_final, rule bare_clean [OF that assms(2)], rule assms(3), rule Some)
  show ?thesis using Some e c
    by (cases "clean_parts sanitize [''payload'', ''context'', ''service''] e")
      (auto simp: protect_once_def simp del: clean_parts.simps split: sum.splits verdict.splits)
qed (simp add: protect_once_def)

lemma protect_again:
  assumes "protect_once sanitize check_schema evidence_ok keep e = Again f"
  shows "\<exists>g. f = PDict g \<and> bare g"
proof -
  from assms obtain u where "fall_back u = Again f"
    by (auto simp: protect_once_def simp del: clean_parts.simps split: option.splits sum.splits verdict.splits if_splits)
  from fall_back_Again [OF this] show ?thesis unfolding bare_def by blast
qed

lemma protect_rounds_total:
  assumes "narrows sanitize" "\<And>g e. keep g = Some e \<Longrightarrow> bare g \<Longrightarrow> bare e"
  shows "\<exists>r. protect_rounds sanitize check_schema evidence_ok keep e = Some r \<and>
    (\<forall>p. r = Some p \<longrightarrow> (\<exists>g. protect_once sanitize check_schema evidence_ok keep g = Kept p \<and>
       (g = e \<or> protect_once sanitize check_schema evidence_ok keep e = Again (PDict g))))"
proof (cases "protect_once sanitize check_schema evidence_ok keep e")
  case (Again f)
  with protect_again obtain g where g: "f = PDict g" "bare g" by blast
  have "protect_rounds sanitize check_schema evidence_ok keep e = protect_rounds sanitize check_schema evidence_ok keep g"
    using Again g(1) by (subst protect_rounds.simps) simp
  moreover have "\<exists>r. protect_rounds sanitize check_schema evidence_ok keep g = Some r \<and>
      (\<forall>p. r = Some p \<longrightarrow> protect_once sanitize check_schema evidence_ok keep g = Kept p)"
    using protect_settles [OF g(2) assms(1) assms(2) [OF _ g(2)]]
    by (subst protect_rounds.simps) (auto split: sanitized.splits)
  ultimately show ?thesis using Again g(1) by auto
qed (subst protect_rounds.simps, auto)+

lemma once_protected:
  assumes "protect_once sanitize check_schema evidence_ok keep g = Kept p"
  obtains e where "keep g = Some e" "clean_parts sanitize [''payload'', ''context'', ''service''] e = Inr p"
    "check_schema (PDict p) = Valid_event" "evidence_ok (PDict p)"
  using assms
  by (auto simp: protect_once_def fall_back_def simp del: without_optional.simps clean_parts.simps
      split: option.splits sum.splits verdict.splits if_splits)

lemma protect_event_total:
  "\<exists>r. protect_event h cl e = Some r \<and>
    (\<forall>p. r = Some p \<longrightarrow> (\<exists>g. protect_once (sanitizer h cl) (valid_owned_event (h_schema h) (h_pat h))
       (validate_evidence (h_fr h) (lib_bracketed (h_lib h))) (filter_evidence (queue cl)) g = Kept p \<and>
       (g = e \<or> protect_once (sanitizer h cl) (valid_owned_event (h_schema h) (h_pat h))
         (validate_evidence (h_fr h) (lib_bracketed (h_lib h))) (filter_evidence (queue cl)) e = Again (PDict g))))"
  unfolding protect_event_def by (rule protect_rounds_total [OF sanitizer_narrows bare_filter])

text \<open>
  C3: Protecting an event always returns, and what it lets through is clean: payload, context and service are
  results of the sanitizer, the event passes the schema and the evidence boundary, and it carries the evidence
  of features only that the destination has proved.
\<close>

theorem protected_event_clean:
  shows "protect_event h cl e \<noteq> None \<and>
    (\<forall>p. protect_event h cl e = Some (Some p) \<longrightarrow>
       (\<forall>k \<in> {''payload'', ''context'', ''service''}. \<forall>w. dget p k = Some w \<longrightarrow> (\<exists>v. sanitizer h cl v = Inr w)) \<and>
       valid_owned_event (h_schema h) (h_pat h) (PDict p) = Valid_event \<and>
       validate_evidence (h_fr h) (lib_bracketed (h_lib h)) (PDict p))"
proof -
  from protect_event_total [of h cl e] obtain r where r: "protect_event h cl e = Some r"
    "\<forall>p. r = Some p \<longrightarrow> (\<exists>g. protect_once (sanitizer h cl) (valid_owned_event (h_schema h) (h_pat h))
       (validate_evidence (h_fr h) (lib_bracketed (h_lib h))) (filter_evidence (queue cl)) g = Kept p)" by blast
  have "(\<forall>k \<in> {''payload'', ''context'', ''service''}. \<forall>w. dget p k = Some w \<longrightarrow> (\<exists>v. sanitizer h cl v = Inr w)) \<and>
      valid_owned_event (h_schema h) (h_pat h) (PDict p) = Valid_event \<and>
      validate_evidence (h_fr h) (lib_bracketed (h_lib h)) (PDict p)" if p: "r = Some p" for p
  proof -
    from r(2) p obtain g where "protect_once (sanitizer h cl) (valid_owned_event (h_schema h) (h_pat h))
       (validate_evidence (h_fr h) (lib_bracketed (h_lib h))) (filter_evidence (queue cl)) g = Kept p" by blast
    then obtain e' where e': "clean_parts (sanitizer h cl) [''payload'', ''context'', ''service''] e' = Inr p"
      "valid_owned_event (h_schema h) (h_pat h) (PDict p) = Valid_event"
      "validate_evidence (h_fr h) (lib_bracketed (h_lib h)) (PDict p)"
      by (rule once_protected)
    have "\<exists>v. sanitizer h cl v = Inr w" if k: "k \<in> {''payload'', ''context'', ''service''}" and w: "dget p k = Some w" for k w
    proof -
      have "map_option (\<lambda>v. projr (sanitizer h cl v)) (dget e' k) = Some w"
        using clean_parts_get(1) [OF e'(1), of k] k w by auto
      then obtain v where v: "dget e' k = Some v" "w = projr (sanitizer h cl v)" by auto
      have "sanitizer h cl v = Inr (projr (sanitizer h cl v))"
        by (rule clean_parts_get(2) [OF e'(1) _ _ v(1)]) (use k in auto)
      with v(2) show ?thesis by metis
    qed
    with e'(2,3) show ?thesis by blast
  qed
  with r(1) show ?thesis by auto
qed

subsection \<open>Captured events can be written\<close>

lemma json_key_defined: "json_key ea nk fr k = None \<longleftrightarrow> json_key eb nk fr k = None"
  by (cases k) auto

lemma json_defined:
  "json_val ea nk fr v = None \<longleftrightarrow> json_val eb nk fr v = None"
  "json_list ea nk fr vs = None \<longleftrightarrow> json_list eb nk fr vs = None"
  "json_items ea nk fr d = None \<longleftrightarrow> json_items eb nk fr d = None"
proof (induction ea nk fr v and ea nk fr vs and ea nk fr d rule: json_val_json_list_json_items.induct)
  case (13 ea nk fr k v d)
  then show ?case using json_key_defined [of ea nk fr k eb] by (auto split: option.splits)
qed (auto split: option.splits)

lemma json_items_defined:
  "(\<forall>(k, v) \<in> set d. is_str k \<and> json_val ea nk fr v \<noteq> None) \<Longrightarrow> json_items ea nk fr d \<noteq> None"
  by (induction d) (auto split: option.splits elim!: is_str_cases)

text \<open>The fields of an event that protection leaves alone can be written; the others it replaces by clean ones.\<close>

definition protected_field :: "pyval \<Rightarrow> bool" where
  "protected_field k \<longleftrightarrow> k \<in> {PStr ''payload'', PStr ''context'', PStr ''service''}"

definition rest_ok :: "(rat \<Rightarrow> string) \<Rightarrow> pydict \<Rightarrow> bool" where
  "rest_ok fr e \<longleftrightarrow> dict_ok e \<and> str_keys e \<and>
     (\<forall>(k, v) \<in> set e. protected_field k \<or> json_val True True fr v \<noteq> None)"

lemma set_update_subset: "set (AList.update k v d) \<subseteq> insert (k, v) (set d)"
  by (induction d) auto

lemma rest_ok_dput: "rest_ok fr e \<Longrightarrow> protected_field (PStr k) \<Longrightarrow> rest_ok fr (dput k v e)"
  using set_update_subset [of "PStr k" v e] str_keys_dput [of e k v]
  by (auto simp: rest_ok_def dput_def distinct_update)

lemma rest_ok_filter:
  assumes "filter_evidence s e = Some e'" "rest_ok fr e"
  shows "rest_ok fr e'"
proof -
  from assms(1) obtain fs where "strip_unsupported (PDict e) fs = Some (PDict e')"
    unfolding filter_evidence_def by (auto simp del: strip_unsupported.simps split: option.splits pyval.splits)
  then show ?thesis
    by (cases rule: strip_unsupported_cases)
      (use assms(2) in \<open>auto simp: stripped_context_def protected_field_def split: pyval.splits intro!: rest_ok_dput\<close>)
qed

lemma rest_ok_fall_back: "fall_back e = Again (PDict g) \<Longrightarrow> rest_ok fr e \<Longrightarrow> rest_ok fr g"
  using without_optional_eq [of e]
  by (auto simp: fall_back_def protected_field_def simp del: without_optional.simps split: option.splits intro!: rest_ok_dput)

lemma rest_ok_clean:
  "clean_parts sanitize ks e = Inr c \<Longrightarrow> \<forall>k \<in> set ks. protected_field (PStr k) \<Longrightarrow> rest_ok fr e \<Longrightarrow> rest_ok fr c"
  by (induction ks arbitrary: e) (auto split: option.splits sum.splits intro: rest_ok_dput)

lemma once_rest_ok:
  assumes "protect_once sanitize check_schema evidence_ok (filter_evidence s) e = Again (PDict g)" "rest_ok fr e"
  shows "rest_ok fr g"
proof -
  from assms(1) obtain u where "fall_back u = Again (PDict g)" "filter_evidence s e = Some u \<or>
      (\<exists>e'. filter_evidence s e = Some e' \<and> clean_parts sanitize [''payload'', ''context'', ''service''] e' = Inr u)"
    by (auto simp: protect_once_def simp del: clean_parts.simps split: option.splits sum.splits verdict.splits if_splits)
  then show ?thesis using assms(2)
    by (auto dest: rest_ok_filter rest_ok_fall_back rest_ok_clean simp: protected_field_def simp del: clean_parts.simps)
qed

lemma protected_writable:
  assumes "protect_event h cl e = Some (Some p)" "rest_ok (h_fr h) e"
  shows "json_bytes True True (h_fr h) (PDict p) \<noteq> None"
proof -
  from protect_event_total [of h cl e] assms(1) obtain g where
    kept: "protect_once (sanitizer h cl) (valid_owned_event (h_schema h) (h_pat h))
       (validate_evidence (h_fr h) (lib_bracketed (h_lib h))) (filter_evidence (queue cl)) g = Kept p"
    and "g = e \<or> protect_once (sanitizer h cl) (valid_owned_event (h_schema h) (h_pat h))
         (validate_evidence (h_fr h) (lib_bracketed (h_lib h))) (filter_evidence (queue cl)) e = Again (PDict g)" by auto
  then have g: "rest_ok (h_fr h) g" using once_rest_ok [OF _ assms(2)] assms(2) by blast
  from kept obtain e' where e': "filter_evidence (queue cl) g = Some e'"
    "clean_parts (sanitizer h cl) [''payload'', ''context'', ''service''] e' = Inr p"
    by (rule once_protected)
  have p: "rest_ok (h_fr h) p"
    by (rule rest_ok_clean [OF e'(2) _ rest_ok_filter [OF e'(1) g]]) (simp add: protected_field_def)
  have "is_str k \<and> json_val True True (h_fr h) v \<noteq> None" if kv: "(k, v) \<in> set p" for k v
  proof -
    from p kv obtain key where key: "k = PStr key" by (force simp: rest_ok_def str_keys_def elim!: is_str_cases)
    show ?thesis
    proof (cases "protected_field k")
      case True
      then have three: "key \<in> set [''payload'', ''context'', ''service'']" by (auto simp: protected_field_def key)
      have "dget p key = Some v" using p kv by (simp add: rest_ok_def key)
      then have "map_option (\<lambda>v. projr (sanitizer h cl v)) (dget e' key) = Some v"
        using clean_parts_get(1) [OF e'(2), of key] three by (simp split: if_splits)
      then obtain u where u: "dget e' key = Some u" "v = projr (sanitizer h cl u)" by auto
      have "sanitizer h cl u = Inr v"
        using clean_parts_get(2) [OF e'(2) _ three u(1)] u(2) by simp
      from sanitize_writable [OF this] have "json_val False True (h_fr h) v \<noteq> None" by (simp add: json_bytes_def)
      then show ?thesis using json_defined(1) [of True True "h_fr h" v False] key by simp
    next
      case False
      with p kv show ?thesis by (auto simp: rest_ok_def key)
    qed
  qed
  then have "json_items True True (h_fr h) p \<noteq> None" by (intro json_items_defined) auto
  then show ?thesis by (auto simp: json_bytes_def)
qed

lemma correlation_writable: "json_val True True fr (PDict (correlation_payload shown d)) \<noteq> None"
proof -
  have "json_val True True fr (optional_string shown v) \<noteq> None" for v by (simp add: optional_string_def)
  then have "json_items True True fr (correlation_payload shown d) \<noteq> None"
    by (intro json_items_defined) (auto simp: correlation_payload_def)
  then show ?thesis by auto
qed

lemma base_event_rest_ok:
  assumes "base_event h m kind payload given cl = Some e"
  shows "rest_ok (h_fr h) e"
proof -
  from assms obtain merged rest where e: "e = [(PStr ''schema_version'', PStr ''2026-03-01''), (PStr ''event_id'', PStr (at_uuid m)),
      (PStr ''event_type'', PStr kind), (PStr ''occurred_at'', PStr (h_iso h (wall (at_clock m)))),
      (PStr ''sdk_name'', PStr ''debugbundle-python''), (PStr ''sdk_version'', PStr (h_version h)),
      (PStr ''service'', PDict [(PStr ''name'', PStr (cl_service cl)), (PStr ''runtime'', PStr ''python''), (PStr ''framework'', PNone),
         (PStr ''environment'', PStr (cl_environment cl))]),
      (PStr ''correlation'', PDict (correlation_payload (h_shown h) merged)), (PStr ''payload'', PDict payload)] @
      (if rest \<noteq> [] then [(PStr ''context'', PDict rest)] else [])"
    unfolding base_event_def Let_def by blast
  have "dict_ok e \<and> str_keys e" unfolding e by (simp add: str_keys_def)
  moreover have "\<forall>(k, v) \<in> set e. protected_field k \<or> json_val True True (h_fr h) v \<noteq> None"
    unfolding e using correlation_writable [of "h_fr h" "h_shown h" merged] by (simp add: protected_field_def)
  ultimately show ?thesis by (simp add: rest_ok_def)
qed

subsection \<open>Captures are runs of the delivery protocol\<close>

text \<open>
  A call that follows the protocol leaves of a client everything but the queue, and takes the queue through steps of
  theory Delivery, in whatever phase the flush is and whatever its parameters are.
\<close>

definition runs :: "host \<Rightarrow> sdk \<Rightarrow> sdk \<Rightarrow> bool" where
  "runs h s s' \<longleftrightarrow> (\<forall>dp br to_iso fl.
     (step dp (h_fr h) (h_fromiso h) br to_iso MAX_PENDING_EVENTS MAX_PENDING_BYTES)\<^sup>*\<^sup>* (s, fl) (s', fl))"

lemma runs_refl [simp]: "runs h s s"
  by (simp add: runs_def)

lemma runs_trans: "runs h s t \<Longrightarrow> runs h t u \<Longrightarrow> runs h s u"
  unfolding runs_def by (meson rtranclp_trans)

lemma runs_step:
  "(\<And>dp br to_iso fl. step dp (h_fr h) (h_fromiso h) br to_iso MAX_PENDING_EVENTS MAX_PENDING_BYTES (s, fl) (s', fl)) \<Longrightarrow> runs h s s'"
  unfolding runs_def by blast

definition follows :: "host \<Rightarrow> client \<Rightarrow> client \<Rightarrow> bool" where
  "follows h cl cl' \<longleftrightarrow> cl' = cl\<lparr>queue := queue cl'\<rparr> \<and> runs h (queue cl) (queue cl')"

lemma follows_refl [simp]: "follows h cl cl"
  by (simp add: follows_def)

lemma follows_trans: "follows h cl t \<Longrightarrow> follows h t u \<Longrightarrow> follows h cl u"
  unfolding follows_def by (metis client.surjective client.update_convs(1) runs_trans)

lemma follows_step: "runs h (queue cl) s' \<Longrightarrow> follows h cl (cl\<lparr>queue := s'\<rparr>)"
  by (simp add: follows_def)

lemma drop_follows: "follows h cl (drop_capture cl)"
  unfolding drop_capture_def by (rule follows_step, rule runs_step, rule step.busy)

lemma may_prepare_follows:
  assumes "may_prepare high cl = (ok, cl1)"
  shows "follows h cl cl1" "buffer (queue cl1) = buffer (queue cl)"
proof -
  have q: "queue cl1 = snd (may_prepare_event high MAX_PENDING_EVENTS MAX_PENDING_BYTES (queue cl))"
    "cl1 = cl\<lparr>queue := queue cl1\<rparr>"
    using assms by (auto simp: may_prepare_def split: prod.splits)
  then have "runs h (queue cl) (queue cl1)" by (intro runs_step) (simp add: step.prepare)
  with q(2) show "follows h cl cl1" by (simp add: follows_def)
  show "buffer (queue cl1) = buffer (queue cl)" using q(1) by (simp add: may_prepare_event_def count_drop_def)
qed

lemma placed: "oid \<in> fst ` set (buffer (place_event oid p pressed s))"
  by (simp add: place_event_def insert_at_def Let_def)

lemma offer_follows:
  assumes "json_bytes True True (h_fr h) (PDict p) \<noteq> None" "at_object m \<notin> set (ids (queue cl))"
  shows "follows h cl (snd (offer_event h m p cl))"
    "fst (offer_event h m p cl) \<Longrightarrow> at_object m \<in> set (ids (queue (snd (offer_event h m p cl))))"
proof -
  let ?r = "offer_protected_event (h_fr h) (h_fromiso h) (at_clock m) (at_object m) p (sdk_event_bytes (h_fr h) p)
             MAX_PENDING_EVENTS MAX_PENDING_BYTES (queue cl)"
  show "follows h cl (snd (offer_event h m p cl))"
  proof (cases ?r)
    case (Some r)
    obtain b q where r: "r = (b, q)" by fastforce
    show ?thesis
      unfolding offer_event_def Some r
      by (simp, rule follows_step, rule runs_step, rule step.offer [OF assms(2,1) Some [unfolded r]])
  qed (simp add: offer_event_def)
  assume "fst (offer_event h m p cl)"
  then obtain q where r: "?r = Some (True, q)" and q: "queue (snd (offer_event h m p cl)) = q"
    by (auto simp: offer_event_def split: option.splits)
  from r have "at_object m \<in> set (ids q)"
    by (auto simp: offer_protected_event_def Let_def placed split: if_splits option.splits prod.splits bool.splits)
  then show "at_object m \<in> set (ids (queue (snd (offer_event h m p cl))))" by (simp add: q)
qed

lemma admit_follows:
  assumes "\<And>e. event = Some e \<Longrightarrow> rest_ok (h_fr h) e" "at_object m \<notin> set (ids (queue cl))"
  shows "follows h cl (admit_event h m still event cl)"
proof -
  have "follows h cl (snd (offer_event h m p cl))" if "event = Some e" "protected_event h cl e = Some p" for e p
  proof (rule offer_follows(1) [OF _ assms(2)])
    from that(2) have "protect_event h cl e = Some (Some p)" by (simp add: protected_event_def split: option.splits)
    then show "json_bytes True True (h_fr h) (PDict p) \<noteq> None" by (rule protected_writable) (rule assms(1), rule that(1))
  qed
  then show ?thesis using drop_follows by (auto simp: admit_event_def split: option.splits)
qed

text \<open>A child process starts with an empty queue, whose policy is its parent's.\<close>

lemma fork_starts_over:
  assumes "process cl \<noteq> at_pid m"
  shows "started (queue (ensure_current_process m cl))" "policy (queue (ensure_current_process m cl)) = policy (queue cl)"
    "current_operation c (owners (ensure_current_process m cl)) = None"
    "context_value gen c (scoped (ensure_current_process m cl)) = []"
  using assms
  by (simp_all add: ensure_current_process_def fresh_queue_def started_def no_operations_def no_scopes_def
      current_operation_def context_value_def)

lemma ensured_fresh:
  assumes "at_object m \<notin> set (ids (queue cl))"
  shows "at_object m \<notin> set (ids (queue (ensure_current_process m cl)))"
  using assms by (simp add: ensure_current_process_def fresh_queue_def)

lemma capture_log_follows:
  assumes "at_object m \<notin> set (ids (queue cl))"
  shows "capture_log h m message level given cl = cl \<or>
    follows h (ensure_current_process m cl) (capture_log h m message level given cl)"
proof (cases "log_eligible level cl")
  case True
  let ?n = "normalize_level level" and ?e = "ensure_current_process m cl"
  obtain ok cl1 where p: "may_prepare (?n \<in> {''error'', ''critical''}) ?e = (ok, cl1)" by fastforce
  note pr = may_prepare_follows [OF p]
  have fresh: "at_object m \<notin> set (ids (queue cl1))" using ensured_fresh [OF assms] pr(2) by simp
  define a where "a = (case given of Some (x # xs) \<Rightarrow> redact_mapping (set (redact_names cl1)) (PDict (x # xs)) | _ \<Rightarrow> Some (PDict []))"
  have "capture_log h m message level given cl = (if \<not> ok then cl1 else case a of None \<Rightarrow> cl1
      | Some attributes \<Rightarrow> admit_event h m (log_eligible ?n)
          (base_event h m ''log_event'' [(PStr ''message'', message), (PStr ''level'', PStr ?n), (PStr ''attributes'', attributes)] given cl1) cl1)"
    using True p by (simp add: capture_log_def Let_def a_def)
  moreover have "follows h ?e ((admit_event h m still (base_event h m kind payload given cl1) cl1))" for still kind payload
    by (rule follows_trans [OF pr(1) admit_follows [OF base_event_rest_ok fresh]])
  ultimately show ?thesis using pr(1) by (cases a) auto
qed (simp add: capture_log_def)

lemma capture_request_follows:
  assumes "at_object m \<notin> set (ids (queue cl))"
  shows "capture_request h m request response given cl = cl \<or>
    follows h (ensure_current_process m cl) (capture_request h m request response given cl)"
proof (cases "\<not> enabled (queue cl)
    \<or> should_capture_request_event (lib_bracketed (h_lib h)) (policy (queue cl)) (Some request) response \<noteq> Some True")
  case False
  let ?e = "ensure_current_process m cl"
  define status where "status = (case response of None \<Rightarrow> PNone | Some r \<Rightarrow> py_or (dgetn r ''status_code'') (dgetn r ''response_status''))"
  obtain ok cl1 where p: "may_prepare (case status of PInt n \<Rightarrow> 500 \<le> n | _ \<Rightarrow> False) ?e = (ok, cl1)" by fastforce
  note pr = may_prepare_follows [OF p]
  have fresh: "at_object m \<notin> set (ids (queue cl1))" using ensured_fresh [OF assms] pr(2) by simp
  have c: "capture_request h m request response given cl = (if \<not> ok then cl1 else
      case (redacted_dict cl1 (Some request), redacted_dict cl1 response, redacted_dict cl1 given) of
        (Some q, Some r, Some c) \<Rightarrow> admit_event h m (\<lambda>cl. enabled (queue cl))
          (Option.bind (request_event_payload (h_shown h) q r c) (\<lambda>p. base_event h m ''request_event'' p given cl1)) cl1
      | _ \<Rightarrow> cl1)"
    using p by (simp only: capture_request_def Let_def status_def False if_False case_prod_conv)
  have a: "follows h ?e ((admit_event h m still (Option.bind x (\<lambda>payload. base_event h m ''request_event'' payload given cl1)) cl1))"
    for still x
    by (rule follows_trans [OF pr(1) admit_follows [OF _ fresh]]) (auto simp: bind_eq_Some_conv intro: base_event_rest_ok)
  show ?thesis unfolding c using pr(1) by (auto split: option.split intro!: a)
qed (auto simp: capture_request_def)

lemma protected_offer_follows:
  assumes "protected_event h cl0 e = Some p" "rest_ok (h_fr h) e" "at_object m \<notin> set (ids (queue cl))"
  shows "follows h cl (snd (offer_event h m p cl))"
    "fst (offer_event h m p cl) \<Longrightarrow> at_object m \<in> set (ids (queue (snd (offer_event h m p cl))))"
proof -
  from assms(1) have "protect_event h cl0 e = Some (Some p)" by (simp add: protected_event_def split: option.splits)
  from offer_follows [OF protected_writable [OF this assms(2)] assms(3)]
  show "follows h cl (snd (offer_event h m p cl))"
    "fst (offer_event h m p cl) \<Longrightarrow> at_object m \<in> set (ids (queue (snd (offer_event h m p cl))))" by blast+
qed

lemma capture_recovery_follows:
  assumes "at_object m \<notin> set (ids (queue cl))"
  shows "follows h (ensure_current_process m cl) (capture_recovery h m observation cl)"
proof -
  let ?e = "ensure_current_process m cl"
  note fresh = ensured_fresh [OF assms]
  have "capture_recovery h m observation cl = ?e \<or> (\<exists>e payload given p. base_event h m ''diagnostic_context'' payload given ?e = Some e \<and>
      protected_event h ?e e = Some p \<and> capture_recovery h m observation cl = snd (offer_event h m p ?e))"
    unfolding capture_recovery_def Let_def
    by (auto simp: bind_eq_Some_conv split: option.split pyval.split)
  then show ?thesis using protected_offer_follows(1) [OF _ base_event_rest_ok fresh] by fastforce
qed

lemma bypassed_runs: "oid \<in> set (ids s) \<Longrightarrow> runs h s (s\<lparr>hook_bypass := oid # hook_bypass s\<rparr>)"
  by (rule runs_step) (rule step.bypass)

lemma offer_exception_follows:
  assumes "json_bytes True True (h_fr h) (PDict p) \<noteq> None" "at_object m \<notin> set (ids (queue cl))"
  shows "follows h cl (offer_exception h m fatal p cl)"
proof (cases "enabled (queue cl)")
  case True
  obtain wanted t where w: "should_capture (h_digest h) (suppression_key (h_shown h) p) (wall (at_clock m)) (suppression (queue cl)) =
      (wanted, t)" by fastforce
  let ?c = "cl\<lparr>queue := (queue cl)\<lparr>suppression := t\<rparr>\<rparr>"
  have t: "follows h cl ?c" by (rule follows_step, rule runs_step, rule step.track)
  obtain accepted c2 where o: "offer_event h m p ?c = (accepted, c2)" by fastforce
  have fresh: "at_object m \<notin> set (ids (queue ?c))" using assms(2) by simp
  have offered: "follows h cl c2" and "accepted \<Longrightarrow> at_object m \<in> set (ids (queue c2))"
    using follows_trans [OF t offer_follows(1) [OF assms(1) fresh]] offer_follows(2) [OF assms(1) fresh] unfolding o by simp_all
  then have "accepted \<Longrightarrow> follows h cl (c2\<lparr>queue := (queue c2)\<lparr>hook_bypass := at_object m # hook_bypass (queue c2)\<rparr>\<rparr>)"
    by (intro follows_trans [OF offered follows_step [OF bypassed_runs]]) simp
  then show ?thesis using True offered t by (simp add: offer_exception_def Let_def w o)
qed (simp add: offer_exception_def)

lemma capture_exception_follows:
  assumes "at_object m \<notin> set (ids (queue cl))"
  shows "follows h (ensure_current_process m cl) (capture_exception h m err handled fatal given cl)"
proof -
  let ?e = "ensure_current_process m cl"
  obtain ok cl1 where p: "may_prepare True ?e = (ok, cl1)" by fastforce
  note pr = may_prepare_follows [OF p]
  have fresh: "at_object m \<notin> set (ids (queue cl1))" using ensured_fresh [OF assms] pr(2) by simp
  have offer: "follows h ?e ((offer_exception h m fatal q cl1))"
    if "base_event h m kind payload c cl1 = Some candidate"
      "protected_event h cl1 (dput ''payload'' v candidate) = Some q" for kind payload c candidate v q
  proof (rule follows_trans [OF pr(1) offer_exception_follows [OF _ fresh]])
    from that(2) have "protect_event h cl1 (dput ''payload'' v candidate) = Some (Some q)"
      by (simp add: protected_event_def split: option.splits)
    then show "json_bytes True True (h_fr h) (PDict q) \<noteq> None"
      by (rule protected_writable) (rule rest_ok_dput [OF base_event_rest_ok [OF that(1)]], simp add: protected_field_def)
  qed
  have dropped: "follows h ?e ((drop_capture cl1))" by (rule follows_trans [OF pr(1) drop_follows])
  show ?thesis
    unfolding capture_exception_def Let_def p case_prod_conv using pr(1) dropped
    by (auto simp: bind_eq_Some_conv split: option.split intro: offer)
qed

end
