(* ===== verification/Session.thy ===== *)
theory Session
  imports Capture_Facts
begin

text \<open>
  Sessions: all that a program, its threads and tasks, the flush and forks do to one SDK object. A state is the
  client, the process it is looked at from and the phase of the flush. Every public method of \<open>core.py\<close> that changes
  the client is a \<open>call\<close>; \<open>capture_probe\<close> releases the lock in between, so its last section is a call of its own
  with the events that its first part prepared from any earlier state.
\<close>

inductive call :: "bool \<Rightarrow> host \<Rightarrow> moment \<Rightarrow> client \<Rightarrow> client \<Rightarrow> bool" for dp h m where
  log: "at_object m \<notin> set (ids (queue cl)) \<Longrightarrow> call dp h m cl (capture_log h m message level given cl)"
| message: "at_object m \<notin> set (ids (queue cl)) \<Longrightarrow> call dp h m cl (capture_message h m message wanted given cl)"
| request: "at_object m \<notin> set (ids (queue cl)) \<Longrightarrow> call dp h m cl (capture_request h m request response given cl)"
| recovery: "at_object m \<notin> set (ids (queue cl)) \<Longrightarrow> call dp h m cl (capture_recovery h m observation cl)"
| exception: "at_object m \<notin> set (ids (queue cl)) \<Longrightarrow> call dp h m cl (capture_exception h m err handled fatal given cl)"
| probe: "process cl = at_pid m \<Longrightarrow> prepare_probe_events h ms earlier label d 0 matching = Some prepared \<Longrightarrow>
    distinct (map (\<lambda>(i, p, m). at_object m) prepared) \<Longrightarrow>
    \<forall>(i, p, m) \<in> set prepared. at_object m \<notin> set (ids (queue cl)) \<Longrightarrow>
    call dp h m cl (commit_probe h m gen heavy label entry prepared cl)"
| busy: "process cl = at_pid m \<Longrightarrow> call dp h m cl (drop_capture cl)"
| set_global: "call dp h m cl (set_context h m key v cl)"
| bind: "call dp h m cl (snd (bind_scoped_context h m given cl))"
| reset: "reset_scoped_context m sc cl = Some cl' \<Longrightarrow> call dp h m cl cl'"
| request_begins: "call dp h m cl (snd (begin_request h m request cl))"
| request_ends: "call dp h m cl (snd (end_request m rt cl))"
| operation_begins: "ensure_current_process m cl = e \<Longrightarrow>
    call dp h m cl (e\<lparr>owners := snd (begin_operation (at_context m) options (at_uuid m) (mono (at_clock m)) (owners e))\<rparr>)"
| operation_ends: "end_operation (at_context m) ot (owners cl) = Some os \<Longrightarrow> call dp h m cl (cl\<lparr>owners := os\<rparr>)"
| adopt: "call dp h m cl (ensure_current_process m cl)"
| refresh: "process cl = at_pid m \<Longrightarrow> call dp h m cl (refresh_answer h m initial gen poll answer cl)"
| init: "call dp h m cl (init_client m opt cl)"
| dispose: "dp \<Longrightarrow> call dp h m cl (dispose_client m cl)"

text \<open>
  The steps of a session. A forked child holds a copy of the client and no thread of its parent, so no flush is under
  way there; no process identifier comes back while the client still belongs to a process that had it.
\<close>

inductive session_step ::
  "bool \<Rightarrow> host \<Rightarrow> (string \<Rightarrow> bool) \<Rightarrow> (rat \<Rightarrow> string) \<Rightarrow> client \<times> nat \<times> flusher \<Rightarrow> client \<times> nat \<times> flusher \<Rightarrow> bool"
  for dp h br to_iso where
  called: "at_pid m = pid \<Longrightarrow> call dp h m cl cl' \<Longrightarrow> session_step dp h br to_iso (cl, pid, fl) (cl', pid, fl)"
| worked: "process cl = pid \<Longrightarrow>
    step dp (h_fr h) (h_fromiso h) br to_iso MAX_PENDING_EVENTS MAX_PENDING_BYTES (queue cl, fl) (q, fl') \<Longrightarrow>
    session_step dp h br to_iso (cl, pid, fl) (cl\<lparr>queue := q\<rparr>, pid, fl')"
| forked: "pid' \<noteq> process cl \<Longrightarrow> session_step dp h br to_iso (cl, pid, fl) (cl, pid', Idle)"

inductive session :: "bool \<Rightarrow> host \<Rightarrow> (string \<Rightarrow> bool) \<Rightarrow> (rat \<Rightarrow> string) \<Rightarrow> client \<times> nat \<times> flusher \<Rightarrow> bool"
  for dp h br to_iso where
  created: "session dp h br to_iso (new_client own pid, pid, Idle)"
| goes_on: "session dp h br to_iso x \<Longrightarrow> session_step dp h br to_iso x y \<Longrightarrow> session dp h br to_iso y"

subsection \<open>What a call does to the queue\<close>

lemma process_ensured [simp]: "process (ensure_current_process m cl) = at_pid m"
  by (simp add: ensure_current_process_def)

lemma probe_events_writable:
  "prepare_probe_events h ms cl label d i matching = Some prepared \<Longrightarrow>
   \<forall>(j, p, m) \<in> set prepared. json_bytes True True (h_fr h) (PDict p) \<noteq> None"
proof (induction h ms cl label d i matching arbitrary: prepared rule: prepare_probe_events.induct)
  case (2 h ms cl label d i x xs)
  from 2(2) obtain e rest where e: "base_event h (ms i) ''probe_event'' [(PStr ''label'', PStr label), (PStr ''activation_id'', PStr (directive_id x)),
      (PStr ''probe_label_pattern'', PStr (label_pattern x)), (PStr ''data'', PDict d)] None cl = Some e"
    and rest: "prepare_probe_events h ms cl label d (Suc i) xs = Some rest"
    and p: "prepared = (case protected_event h cl e of None \<Rightarrow> rest | Some p \<Rightarrow> (directive_id x, p, ms i) # rest)"
    by (auto split: option.splits)
  from e have "rest_ok (h_fr h) e" by (rule base_event_rest_ok)
  then have "protected_event h cl e = Some p \<Longrightarrow> json_bytes True True (h_fr h) (PDict p) \<noteq> None" for p
    by (intro protected_writable [of h cl e]) (auto simp: protected_event_def split: option.splits)
  with p 2(1) [OF e rest] show ?case by (auto simp del: not_None_eq split: option.splits)
qed simp

lemma offer_ids:
  assumes "queue_ok (h_fr h) MAX_PENDING_EVENTS MAX_PENDING_BYTES (queue cl)" "at_object m \<notin> set (ids (queue cl))"
  shows "queue_ok (h_fr h) MAX_PENDING_EVENTS MAX_PENDING_BYTES (queue (snd (offer_event h m p cl)))"
    "set (ids (queue (snd (offer_event h m p cl)))) \<subseteq> insert (at_object m) (set (ids (queue cl)))"
  using offer_ok [OF assms(1,2) refl, of "h_fromiso h" "at_clock m" p] by (auto simp: offer_event_def)

lemma offer_probe_events_follows:
  assumes "queue_ok (h_fr h) MAX_PENDING_EVENTS MAX_PENDING_BYTES (queue cl)"
    "\<forall>(i, p, m) \<in> set prepared. json_bytes True True (h_fr h) (PDict p) \<noteq> None"
    "distinct (map (\<lambda>(i, p, m). at_object m) prepared)" "\<forall>(i, p, m) \<in> set prepared. at_object m \<notin> set (ids (queue cl))"
  shows "follows h cl (offer_probe_events h active prepared cl)"
  using assms
proof (induction h active prepared cl rule: offer_probe_events.induct)
  case (2 h active i p m rest cl)
  let ?cl = "if i \<in> active then snd (offer_event h m p cl) else cl"
  have new: "at_object m \<notin> set (ids (queue cl))" and other: "\<And>j q n. (j, q, n) \<in> set rest \<Longrightarrow> at_object n \<noteq> at_object m"
    and old: "\<And>j q n. (j, q, n) \<in> set rest \<Longrightarrow> at_object n \<notin> set (ids (queue cl))"
    using 2(4,5) by (force simp: image_iff)+
  have "set (ids (queue ?cl)) \<subseteq> insert (at_object m) (set (ids (queue cl)))"
    using offer_ids(2) [OF 2(2) new] by (simp add: subset_insertI)
  then have left: "at_object n \<notin> set (ids (queue ?cl))" if "(j, q, n) \<in> set rest" for j q n
    using other [OF that] old [OF that] by blast
  have fresh: "\<forall>(j, q, n) \<in> set rest. at_object n \<notin> set (ids (queue ?cl))" by (intro ballI, clarify) (drule left, blast)
  have ok: "queue_ok (h_fr h) MAX_PENDING_EVENTS MAX_PENDING_BYTES (queue ?cl)" using offer_ids(1) [OF 2(2) new] 2(2) by simp
  have "follows h cl ?cl" using offer_follows(1) [OF _ new] 2(3) by simp
  moreover have "follows h ?cl (offer_probe_events h active rest ?cl)" by (rule 2(1) [OF ok _ _ fresh]) (use 2(3,4) in auto)
  ultimately show ?case by (simp only: offer_probe_events.simps) (rule follows_trans)
qed simp

text \<open>The queue part of a refresh, of the initialisation and of the disposal are steps of their own.\<close>

lemma scheduled_queue [simp]: "queue (schedule_next_remote_config_refresh b cl) = queue cl"
  "process (schedule_next_remote_config_refresh b cl) = process cl"
  by (simp_all add: schedule_next_remote_config_refresh_def Let_def split: option.split)

lemma set_policy_runs: "runs h (queue cl) (queue (set_policy p cl))"
  by (rule runs_step) (simp add: set_policy_def step.configure)

lemma refresh_failed_runs: "runs h (queue cl) (queue (refresh_failed initial code cl))"
  using set_policy_runs [of h "emit_diagnostic code cl" MINIMAL_CAPTURE_POLICY] by (simp add: refresh_failed_def emit_diagnostic_def Let_def)

lemma apply_snapshot_runs: "runs h (queue cl) (queue (apply_snapshot etag snap cl))"
  using set_policy_runs [of h "cl\<lparr>config_snapshot := Some snap\<rparr>" "capture_policy snap"]
  by (simp add: apply_snapshot_def Let_def split: pyval.split list.split)

lemma observed: "snd (observe_evidence answer required valid s) = s\<lparr>features := features (snd (observe_evidence answer required valid s))\<rparr>"
  by (simp add: observe_evidence_def Let_def split: pyval.split)

lemma observe_runs: "runs h s (snd (observe_evidence answer required valid s))"
  by (subst observed, rule runs_step, rule step.learn)

lemma refresh_runs: "runs h (queue cl) (queue (refresh_answer h m initial gen poll answer cl))"
proof -
  define seen where "seen = (\<lambda>v payload. cl\<lparr>queue := snd (observe_evidence payload True v (queue cl))\<rparr>)"
  have s: "runs h (queue cl) (queue (seen v payload))" for v payload using observe_runs by (simp add: seen_def)
  note runs_trans [OF s refresh_failed_runs, intro] runs_trans [OF s apply_snapshot_runs, intro] refresh_failed_runs [intro]
  have "refresh_answer h m initial gen poll answer cl = cl \<or>
      refresh_answer h m initial gen poll answer cl = schedule_next_remote_config_refresh False cl \<or>
      (\<exists>code. refresh_answer h m initial gen poll answer cl = refresh_failed initial code cl) \<or>
      (\<exists>v payload code. refresh_answer h m initial gen poll answer cl = refresh_failed initial code (seen v payload)) \<or>
      (\<exists>v payload etag snap. refresh_answer h m initial gen poll answer cl = apply_snapshot etag snap (seen v payload))"
    unfolding refresh_answer_def Let_def seen_def by (cases answer) (simp_all split: option.split, blast+)
  then show ?thesis by (elim disjE exE) auto
qed

lemma refresh_process: "process (refresh_answer h m initial gen poll answer cl) = process cl"
  by (simp add: refresh_answer_def refresh_failed_def apply_snapshot_def set_policy_def emit_diagnostic_def Let_def
      split: fetched.split option.split pyval.split list.split)

lemma commit_probe_runs:
  assumes "queue_ok (h_fr h) MAX_PENDING_EVENTS MAX_PENDING_BYTES (queue cl)"
    "prepare_probe_events h ms earlier label' d 0 matching = Some prepared"
    "distinct (map (\<lambda>(i, p, m). at_object m) prepared)" "\<forall>(i, p, m) \<in> set prepared. at_object m \<notin> set (ids (queue cl))"
  shows "commit_probe h m gen heavy label entry prepared cl = cl \<or>
    has_probe_room label cl \<and> follows h (keep_entry entry label cl) (commit_probe h m gen heavy label entry prepared cl)"
proof -
  have q: "queue (keep_entry entry label cl) = queue cl" by (simp add: keep_entry_def Let_def split: option.split)
  have "follows h (keep_entry entry label cl) (offer_probe_events h active prepared (keep_entry entry label cl))" for active
    using assms by (intro offer_probe_events_follows probe_events_writable [OF assms(2)]) (simp_all only: q)
  then show ?thesis by (simp add: commit_probe_def Let_def q)
qed

text \<open>What every call leaves alone or follows the delivery protocol with.\<close>

definition lawful :: "bool \<Rightarrow> host \<Rightarrow> moment \<Rightarrow> client \<Rightarrow> client \<Rightarrow> bool" where
  "lawful dp h m cl cl' \<longleftrightarrow> process cl' = process cl \<and> queue cl' = queue cl \<or>
     process cl' = at_pid m \<and> (\<forall>br to_iso fl. (step dp (h_fr h) (h_fromiso h) br to_iso MAX_PENDING_EVENTS MAX_PENDING_BYTES)\<^sup>*\<^sup>*
       (queue (ensure_current_process m cl), fl) (queue cl', fl))"

lemma lawful_runs:
  "process cl' = at_pid m \<Longrightarrow> runs h (queue (ensure_current_process m cl)) (queue cl') \<Longrightarrow> lawful dp h m cl cl'"
  by (simp add: lawful_def runs_def)

lemma follows_process: "follows h cl cl' \<Longrightarrow> process cl' = process cl"
  unfolding follows_def by (metis client.simps(2) client.surjective client.update_convs(1))

lemma lawful_follows: "follows h (ensure_current_process m cl) cl' \<Longrightarrow> lawful dp h m cl cl'"
  by (rule lawful_runs) (simp_all add: follows_process, simp add: follows_def)

lemma lawful_or: "cl' = cl \<or> follows h (ensure_current_process m cl) cl' \<Longrightarrow> lawful dp h m cl cl'"
  by (elim disjE) (simp add: lawful_def, rule lawful_follows)

lemma ensured_same: "process cl = at_pid m \<Longrightarrow> ensure_current_process m cl = cl"
  by (simp add: ensure_current_process_def)

lemma lawful_kept: "process cl' = at_pid m \<Longrightarrow> queue cl' = queue (ensure_current_process m cl) \<Longrightarrow> lawful dp h m cl cl'"
  by (simp add: lawful_runs)

lemma context_kept:
  "process (set_context h m key v cl) = at_pid m" "queue (set_context h m key v cl) = queue (ensure_current_process m cl)"
  "process (snd (bind_scoped_context h m given cl)) = at_pid m"
  "queue (snd (bind_scoped_context h m given cl)) = queue (ensure_current_process m cl)"
  "process (snd (begin_request h m r cl)) = at_pid m" "queue (snd (begin_request h m r cl)) = queue (ensure_current_process m cl)"
  "process (snd (end_request m t cl)) = process cl" "queue (snd (end_request m t cl)) = queue cl"
  by (simp_all add: set_context_def bind_scoped_context_def begin_request_def end_request_def Let_def split_beta split: sum.split pyval.split)

lemma call_lawful:
  assumes "call dp h m cl cl'" "process cl = at_pid m \<Longrightarrow> queue_ok (h_fr h) MAX_PENDING_EVENTS MAX_PENDING_BYTES (queue cl)"
  shows "lawful dp h m cl cl'"
  using assms
proof (cases rule: call.cases)
  case (log message level given)
  then show ?thesis using capture_log_follows lawful_or by simp
next
  case (message message wanted given)
  then show ?thesis using capture_log_follows lawful_or by (simp add: capture_message_def)
next
  case (request request response given)
  then show ?thesis using capture_request_follows lawful_or by simp
next
  case (recovery observation)
  then show ?thesis using capture_recovery_follows lawful_follows by simp
next
  case (exception err handled fatal given)
  then show ?thesis using capture_exception_follows lawful_follows by simp
next
  case (probe ms earlier label d matching prepared gen heavy entry)
  then have "queue (keep_entry entry label cl) = queue cl" "process (keep_entry entry label cl) = process cl"
    by (simp_all add: keep_entry_def Let_def split: option.split)
  with commit_probe_runs [OF assms(2) probe(3-5), of m gen heavy label entry] probe show ?thesis
    unfolding follows_def lawful_def runs_def ensured_same [OF probe(2)]
    by (metis client.surjective client.update_convs(1) client.select_convs(2) rtranclp.rtrancl_refl)
next
  case busy
  then show ?thesis using drop_follows by (intro lawful_follows) (simp add: ensured_same)
next
  case (refresh initial gen poll answer)
  then show ?thesis using refresh_runs by (intro lawful_runs) (simp_all add: ensured_same refresh_process)
next
  case (init opt)
  have "step dp (h_fr h) (h_fromiso h) br to_iso MAX_PENDING_EVENTS MAX_PENDING_BYTES (s, fl) (init_queue q s, fl)" for dp br to_iso fl q s
    by (rule step.init)
  then show ?thesis unfolding init by (intro lawful_runs) (simp_all add: init_client_def Let_def runs_step)
next
  case dispose
  then show ?thesis by (auto simp: lawful_def dispose_client_def Let_def intro: step.dispose)
next
  case (reset c)
  then show ?thesis by (auto simp: lawful_def reset_scoped_context_def)
next
  case (operation_begins e options)
  then show ?thesis by (intro lawful_kept) auto
qed (simp_all add: lawful_kept context_kept, simp_all add: lawful_def context_kept)

subsection \<open>Sessions refine the delivery protocol\<close>

fun in_step :: "bool \<Rightarrow> host \<Rightarrow> (string \<Rightarrow> bool) \<Rightarrow> (rat \<Rightarrow> string) \<Rightarrow> client \<times> nat \<times> flusher \<Rightarrow> bool" where
  "in_step dp h br to_iso (cl, pid, fl) =
     (if process cl = pid then reachable dp (h_fr h) (h_fromiso h) br to_iso MAX_PENDING_EVENTS MAX_PENDING_BYTES (queue cl, fl)
      else fl = Idle)"

lemma reachable_rtranclp:
  "(step dp fr fromiso br to_iso me mb)\<^sup>*\<^sup>* x y \<Longrightarrow> reachable dp fr fromiso br to_iso me mb x \<Longrightarrow>
   reachable dp fr fromiso br to_iso me mb y"
  by (induction rule: rtranclp_induct) (blast intro: reachable.later)+

lemma limits_nonneg: "0 \<le> MAX_PENDING_EVENTS" "0 \<le> MAX_PENDING_BYTES"
  by (simp_all add: MAX_PENDING_EVENTS_def MAX_PENDING_BYTES_def)

lemma reachable_queue_ok:
  "reachable dp fr fromiso br to_iso MAX_PENDING_EVENTS MAX_PENDING_BYTES (s, fl) \<Longrightarrow>
   queue_ok fr MAX_PENDING_EVENTS MAX_PENDING_BYTES s"
  using reachable_sys_ok [OF _ limits_nonneg] by fastforce

lemma lawful_in_step:
  assumes "lawful dp h m cl cl'" "in_step dp h br to_iso (cl, at_pid m, fl)"
  shows "in_step dp h br to_iso (cl', at_pid m, fl)"
proof -
  have "reachable dp (h_fr h) (h_fromiso h) br to_iso MAX_PENDING_EVENTS MAX_PENDING_BYTES (queue (ensure_current_process m cl), fl)"
  proof (cases "process cl = at_pid m")
    case False
    then show ?thesis using assms(2) fork_starts_over(1) by (simp add: reachable.base)
  qed (use assms(2) in \<open>simp add: ensured_same\<close>)
  then show ?thesis using assms unfolding lawful_def by (auto intro: reachable_rtranclp)
qed

lemma session_step_in_step:
  "session_step dp h br to_iso x y \<Longrightarrow> in_step dp h br to_iso x \<Longrightarrow> in_step dp h br to_iso y"
proof (induction rule: session_step.induct)
  case (called m pid cl cl' fl)
  then have "lawful dp h m cl cl'" by (auto intro!: call_lawful reachable_queue_ok)
  with called show ?case using lawful_in_step by blast
next
  case (worked cl pid fl q fl')
  then show ?case by (auto intro: reachable.later)
qed simp

lemma session_in_step: "session dp h br to_iso x \<Longrightarrow> in_step dp h br to_iso x"
proof (induction rule: session.induct)
  case (created own pid)
  have "started (queue (new_client own pid))" "process (new_client own pid) = pid"
    by (simp_all add: new_client_def started_def)
  then show ?case by (simp add: reachable.base)
qed (blast intro: session_step_in_step)

text \<open>
  C2: Whatever a program does to an SDK object through its public methods, from any number of threads and across
  forks, the queue of the client in its own process is in a state of the delivery protocol, with the phase of the
  flush; so it never holds more than a thousand events or eight megabytes, and its books agree.
\<close>

theorem session_refines_delivery:
  assumes "session dp h br to_iso (cl, pid, fl)" "process cl = pid"
  shows "reachable dp (h_fr h) (h_fromiso h) br to_iso MAX_PENDING_EVENTS MAX_PENDING_BYTES (queue cl, fl) \<and>
    length (buffer (queue cl)) \<le> 1000 \<and> buffer_bytes (queue cl) \<le> 8 * 1024 * 1024 \<and>
    buffer_bytes (queue cl) = sum_list (map (bytes_of (h_fr h)) (buffer (queue cl)))"
proof -
  have r: "reachable dp (h_fr h) (h_fromiso h) br to_iso MAX_PENDING_EVENTS MAX_PENDING_BYTES (queue cl, fl)"
    using session_in_step [OF assms(1)] assms(2) by simp
  note ok = reachable_queue_ok [OF r]
  show ?thesis
    using r queue_bytes [OF ok] queue_okD [OF ok] by (simp add: MAX_PENDING_EVENTS_def MAX_PENDING_BYTES_def)
qed

end
