(* ===== verification/Session_Facts.thy ===== *)
theory Session_Facts
  imports Session
begin

text \<open>
  What holds of whole clients in every session, of the refresh of the remote configuration, and the witnesses on a
  sample host.
\<close>

subsection \<open>Probe buffers and options\<close>

definition bucket_ok :: "nat \<Rightarrow> string \<times> ProbeEntry list \<Rightarrow> bool" where
  "bucket_ok n x \<longleftrightarrow> snd x \<noteq> [] \<and> length (snd x) \<le> n"

definition client_ok :: "client \<Rightarrow> bool" where
  "client_ok cl \<longleftrightarrow> 1 \<le> max_probe_labels cl \<and> 1 \<le> max_probe_entries cl \<and>
     dict_ok (probe_buffers cl) \<and> length (probe_buffers cl) \<le> max_probe_labels cl \<and>
     (\<forall>x \<in> set (probe_buffers cl). bucket_ok (max_probe_entries cl) x) \<and>
     set DEFAULT_REDACT_FIELDS \<subseteq> set (redact_names cl) \<and> 0 \<le> sample_rate cl \<and> sample_rate cl \<le> 1 \<and>
     (config_timer cl \<noteq> None \<longrightarrow> fetches cl)"

lemma client_ok_frame [simp]:
  "client_ok (cl\<lparr>queue := q\<rparr>) = client_ok cl" "client_ok (cl\<lparr>owners := os\<rparr>) = client_ok cl"
  "client_ok (cl\<lparr>scoped := sc\<rparr>) = client_ok cl" "client_ok (cl\<lparr>requests := rq\<rparr>) = client_ok cl"
  "client_ok (cl\<lparr>reported := rp\<rparr>) = client_ok cl" "client_ok (cl\<lparr>global_context := gc\<rparr>) = client_ok cl"
  "client_ok (cl\<lparr>config_etag := t\<rparr>) = client_ok cl" "client_ok (cl\<lparr>config_snapshot := sn\<rparr>) = client_ok cl"
  by (simp_all add: client_ok_def)

lemma client_ok_ensured: "client_ok cl \<Longrightarrow> client_ok (ensure_current_process m cl)"
  by (simp add: ensure_current_process_def client_ok_def)

lemma client_ok_follows: "follows h cl cl' \<Longrightarrow> client_ok cl \<Longrightarrow> client_ok cl'"
  unfolding follows_def by (metis client_ok_frame(1))

lemma push_bounded_ok: "1 \<le> n \<Longrightarrow> push_bounded n x xs \<noteq> [] \<and> length (push_bounded n x xs) \<le> n"
  by (simp add: push_bounded_def)

lemma client_ok_keep:
  assumes "client_ok cl" "has_probe_room label cl"
  shows "client_ok (keep_entry entry label cl)"
proof (cases entry)
  case (Some e)
  define b where "b = push_bounded (max_probe_entries cl) e (case map_of (probe_buffers cl) label of None \<Rightarrow> [] | Some b \<Rightarrow> b)"
  let ?d = "AList.update label b (probe_buffers cl)"
  have b: "bucket_ok (max_probe_entries cl) (label, b)"
    unfolding bucket_ok_def b_def snd_conv by (rule push_bounded_ok) (use assms(1) in \<open>simp add: client_ok_def\<close>)
  have "length ?d \<le> max_probe_labels cl"
    using assms by (auto simp: length_update has_probe_room_def client_ok_def map_of_eq_None_iff)
  moreover have "bucket_ok (max_probe_entries cl) x" if "x \<in> set ?d" for x
    using set_update_subset [of label b "probe_buffers cl"] that b assms(1) by (auto simp: client_ok_def)
  ultimately show ?thesis
    using assms(1) Some by (simp add: keep_entry_def b_def client_ok_def distinct_update)
qed (use assms in \<open>simp add: keep_entry_def\<close>)

lemma client_ok_schedule: "client_ok cl \<Longrightarrow> client_ok (schedule_next_remote_config_refresh b cl)"
  by (auto simp: schedule_next_remote_config_refresh_def Let_def client_ok_def split: option.split)

lemma client_ok_refresh: "client_ok cl \<Longrightarrow> client_ok (refresh_answer h m initial gen poll answer cl)"
  by (auto simp: refresh_answer_def refresh_failed_def apply_snapshot_def set_policy_def emit_diagnostic_def Let_def
      split: fetched.split option.split pyval.split list.split intro!: client_ok_schedule)

lemma client_ok_init: "client_ok (init_client m opt cl)"
  by (auto simp: init_client_def Let_def client_ok_def init_queue_def)

lemma client_ok_call:
  assumes "call dp h m cl cl'" "client_ok cl" "process cl = at_pid m \<Longrightarrow> queue_ok (h_fr h) MAX_PENDING_EVENTS MAX_PENDING_BYTES (queue cl)"
  shows "client_ok cl'"
  using assms
proof (cases rule: call.cases)
  case (log message level given)
  then show ?thesis using capture_log_follows client_ok_follows client_ok_ensured assms(2) by metis
next
  case (message message wanted given)
  then show ?thesis using capture_log_follows client_ok_follows client_ok_ensured assms(2) unfolding capture_message_def by metis
next
  case (request request response given)
  then show ?thesis using capture_request_follows client_ok_follows client_ok_ensured assms(2) by metis
next
  case (recovery observation)
  then show ?thesis using capture_recovery_follows client_ok_follows client_ok_ensured assms(2) by metis
next
  case (exception err handled fatal given)
  then show ?thesis using capture_exception_follows client_ok_follows client_ok_ensured assms(2) by metis
next
  case (probe ms earlier label d matching prepared gen heavy entry)
  with commit_probe_runs [OF assms(3) probe(3-5), of m gen heavy label entry] client_ok_keep client_ok_follows assms(2)
  show ?thesis by metis
next
  case (dispose)
  have "client_ok (ensure_current_process m cl\<lparr>config_timer := None\<rparr>)"
    using client_ok_ensured [OF assms(2)] by (simp add: client_ok_def)
  then show ?thesis unfolding dispose
    by (simp add: dispose_client_def Let_def) (simp add: client_ok_def)
qed (auto simp: drop_capture_def set_context_def bind_scoped_context_def reset_scoped_context_def begin_request_def end_request_def
      Let_def split_beta client_ok_ensured client_ok_refresh client_ok_init split: sum.split pyval.split)

lemma session_client_ok: "session dp h br to_iso x \<Longrightarrow> client_ok (fst x)"
proof (induction rule: session.induct)
  case (created own pid)
  then show ?case by (simp add: new_client_def client_ok_def)
next
  case (goes_on x y)
  from goes_on(2,3) session_in_step [OF goes_on(1)] show ?case
  proof (cases rule: session_step.cases)
    case (called m pid cl cl' fl)
    with goes_on(3) session_in_step [OF goes_on(1)] show ?thesis
      by (auto intro!: client_ok_call [of dp h m cl cl'] reachable_queue_ok)
  qed auto
qed

text \<open>
  C14: In every session there are at most \<open>max_probe_labels\<close> probe labels with at most \<open>max_probe_entries\<close> entries
  each and never an empty bucket, the default sensitive names stay among the redacted ones whatever \<open>init\<close> is given,
  the sample rate is a rate, and a refresh is only scheduled by a client that can fetch.
\<close>

theorem session_stays_bounded:
  assumes "session dp h br to_iso (cl, pid, fl)"
  shows "length (probe_buffers cl) \<le> max_probe_labels cl \<and> distinct (map fst (probe_buffers cl)) \<and>
    (\<forall>(label, b) \<in> set (probe_buffers cl). b \<noteq> [] \<and> length b \<le> max_probe_entries cl) \<and>
    set DEFAULT_REDACT_FIELDS \<subseteq> set (redact_names cl) \<and> 0 \<le> sample_rate cl \<and> sample_rate cl \<le> 1 \<and>
    (config_timer cl \<noteq> None \<longrightarrow> fetches cl)"
  using session_client_ok [OF assms] by (auto simp: client_ok_def bucket_ok_def)

subsection \<open>A sample session\<close>

definition sample_host :: host where
  "sample_host = \<lparr>h_fr = (\<lambda>q. []), h_lib = plain_lib, h_loads = (\<lambda>s. None), h_schema = PBool True, h_pat = (\<lambda>s. Some (\<lambda>t. True)),
     h_fromiso = (\<lambda>s. None), h_iso = (\<lambda>q. ''2026-03-01T00:00:00.000Z''), h_digest = (\<lambda>s. s), h_shown = (\<lambda>v. []), h_version = ''1'',
     h_crypto = \<lparr>hmac = (\<lambda>k p. p), b64decode = Some, utf8_decode = Some, json_loads = (\<lambda>s. None)\<rparr>\<rparr>"

definition sample_moment :: moment where
  "sample_moment = \<lparr>at_context = 0, at_pid = 1, at_uuid = ''id'', at_object = 7, at_clock = \<lparr>wall = 10, mono = 10, timer_alive = False\<rparr>, at_sample = 0,
     at_first_lock = True, at_lock = True, at_transport = True\<rparr>"

definition sample_options :: client_options where
  "sample_options = \<lparr>opt_queue = \<lparr>opt_project_token = ''token'', opt_wanted = True, opt_batch = 25, opt_interval = 5,
       opt_level = ''info'', opt_fetches = True, opt_evidence_capabilities = PNone, opt_exception_evidence = PBool True,
       opt_recovery_observations = PBool False\<rparr>,
     opt_service = [], opt_environment = [], opt_sample_rate = 7, opt_redact_fields = [''colour''], opt_max_labels = 0,
     opt_max_entries = 3, opt_flush_on_error = True, opt_poll_ms = 1000\<rparr>"

definition sample_client :: client where
  "sample_client = init_client sample_moment sample_options (new_client True 1)"

lemma sample_session: "session dp h br to_iso (sample_client, 1, Idle)"
proof -
  have "session_step dp h br to_iso (new_client True 1, 1, Idle) (sample_client, 1, Idle)"
    unfolding sample_client_def by (rule session_step.called [of sample_moment]) (simp_all add: sample_moment_def call.init)
  with session.created show ?thesis by (rule session.goes_on)
qed

theorem session_refines_delivery_witness:
  "reachable False (\<lambda>q. []) (\<lambda>t. None) (\<lambda>u. True) (\<lambda>q. []) MAX_PENDING_EVENTS MAX_PENDING_BYTES (queue sample_client, Idle)"
proof -
  have "process sample_client = 1"
    by (simp add: sample_client_def init_client_def new_client_def sample_moment_def ensure_current_process_def Let_def)
  from session_refines_delivery [OF sample_session this, of False sample_host "\<lambda>u. True" "\<lambda>q. []"]
  show ?thesis by (simp add: sample_host_def)
qed

theorem session_stays_bounded_witness:
  "length (probe_buffers sample_client) \<le> 1 \<and> ''password'' \<in> set (redact_names sample_client) \<and> sample_rate sample_client \<le> 1"
proof -
  have "max_probe_labels sample_client = 1"
    by (simp add: sample_client_def init_client_def sample_options_def Let_def)
  with session_stays_bounded [OF sample_session [of False sample_host "\<lambda>u. True" "\<lambda>q. []"]]
  show ?thesis by (auto simp: DEFAULT_REDACT_FIELDS_def)
qed

definition bare_log :: pydict where
  "bare_log = [(PStr ''schema_version'', PStr []), (PStr ''sdk_name'', PStr []), (PStr ''sdk_version'', PStr []),
     (PStr ''event_type'', PStr ''log_event''), (PStr ''payload'', PDict [])]"

lemma sample_names: "redact_names sample_client = DEFAULT_REDACT_FIELDS @ [''colour'']"
  by (simp add: sample_client_def init_client_def Let_def sample_options_def DEFAULT_REDACT_FIELDS_def str_lower_def lower_char_def)

lemma sample_sanitizer:
  "sanitizer sample_host sample_client (PStr []) = Inr (PStr [])"
  "sanitizer sample_host sample_client (PDict []) = Inr (PDict [])"
proof -
  have n: "length (redact_names sample_client) \<le> 128" "\<not> list_ex (\<lambda>f. f = [] \<or> 64 < length f) (redact_names sample_client)"
    by (simp_all add: sample_names DEFAULT_REDACT_FIELDS_def)
  have "scrub_text lib extra [] = []" for lib extra by (rule plain_text_kept) simp
  then show "sanitizer sample_host sample_client (PStr []) = Inr (PStr [])"
    by (rule sanitize_text) (use n in \<open>simp_all add: opens_json_def starts_with_def json_str_def\<close>)
  show "sanitizer sample_host sample_client (PDict []) = Inr (PDict [])"
    using n by (simp add: sanitize_telemetry_def visit_value.simps json_bytes_def)
qed

lemma bare_log_protected: "protect_event sample_host sample_client bare_log = Some (Some bare_log)"
proof -
  have "filter_evidence (queue sample_client) bare_log = Some bare_log"
    by (simp add: filter_evidence_def bare_log_def dgetn_def Let_def dput_def str_keys_def ddel_def)
  moreover have "has_safe_event_identity (sanitizer sample_host sample_client) bare_log = Inr True"
    by (simp add: has_safe_event_identity_def bare_log_def dgetn_def py_or_def sample_sanitizer)
  moreover have "clean_parts (sanitizer sample_host sample_client) [''payload'', ''context'', ''service''] bare_log = Inr bare_log"
    by (simp add: bare_log_def dgetn_def sample_sanitizer dput_def)
  moreover have "valid_owned_event (h_schema sample_host) (h_pat sample_host) (PDict bare_log) = Valid_event"
    by (simp add: valid_owned_event_def sample_host_def check.simps)
  moreover have "validate_evidence (h_fr sample_host) (lib_bracketed (h_lib sample_host)) (PDict bare_log)"
    by (simp add: bare_log_def dgetn_def str_keys_def has_key_def optional_fields_def)
  ultimately have "protect_once (sanitizer sample_host sample_client) (valid_owned_event (h_schema sample_host) (h_pat sample_host))
      (validate_evidence (h_fr sample_host) (lib_bracketed (h_lib sample_host))) (filter_evidence (queue sample_client)) bare_log =
      Kept bare_log"
    by (simp add: protect_once_def del: clean_parts.simps)
  then show ?thesis unfolding protect_event_def by (subst protect_rounds.simps) simp
qed

theorem protected_event_clean_witness:
  "\<exists>v. sanitizer sample_host sample_client v = Inr (PDict [])"
proof -
  have "dget bare_log ''payload'' = Some (PDict [])" by (simp add: bare_log_def)
  with protected_event_clean [of sample_host sample_client bare_log] bare_log_protected show ?thesis by blast
qed

subsection \<open>Refreshes of the configuration\<close>

lemma scheduled [simp]:
  "config_snapshot (schedule_next_remote_config_refresh b cl) = config_snapshot cl"
  "config_etag (schedule_next_remote_config_refresh b cl) = config_etag cl"
  by (simp_all add: schedule_next_remote_config_refresh_def Let_def split: option.split)

lemma scheduled_timer:
  "fetches cl \<Longrightarrow> config_timer (schedule_next_remote_config_refresh b cl) \<noteq> None \<or>
     (\<exists>snap. config_snapshot cl = Some snap \<and> \<not> remote_probes_enabled snap)"
  "fetches cl \<Longrightarrow> config_timer (schedule_next_remote_config_refresh True cl) \<noteq> None"
  by (auto simp: schedule_next_remote_config_refresh_def Let_def simp del: not_None_eq split: option.split)

lemma refresh_failed_outcome:
  "config_snapshot (refresh_failed initial code cl) = config_snapshot cl" "config_etag (refresh_failed initial code cl) = config_etag cl"
  "policy (queue (refresh_failed initial code cl)) = (if initial then MINIMAL_CAPTURE_POLICY else policy (queue cl))"
  "fetches cl \<Longrightarrow> config_timer (refresh_failed initial code cl) \<noteq> None"
  by (simp_all add: refresh_failed_def emit_diagnostic_def set_policy_def Let_def scheduled_timer(2) del: not_None_eq)

lemma apply_snapshot_outcome:
  "config_snapshot (apply_snapshot etag snap cl) = Some snap" "policy (queue (apply_snapshot etag snap cl)) = capture_policy snap"
  "fetches cl \<Longrightarrow> config_timer (apply_snapshot etag snap cl) \<noteq> None \<or> \<not> remote_probes_enabled snap"
  using scheduled_timer(1) [of "(set_policy (capture_policy snap) (cl\<lparr>config_snapshot := Some snap\<rparr>))\<lparr>config_etag := t\<rparr>" False for t]
    scheduled_timer(1) [of "set_policy (capture_policy snap) (cl\<lparr>config_snapshot := Some snap\<rparr>)" False]
  by (auto simp: apply_snapshot_def set_policy_def Let_def split: pyval.split list.split)

lemma observed_policy: "policy (snd (observe_evidence answer required valid s)) = policy s"
  by (subst observed) simp

definition applied :: "host \<Rightarrow> moment \<Rightarrow> nat \<Rightarrow> int \<Rightarrow> fetched \<Rightarrow> client \<Rightarrow> RemoteConfigSnapshot \<Rightarrow> bool" where
  "applied h m gen poll answer cl snap \<longleftrightarrow> gen = generation (queue cl) \<and> enabled (queue cl) \<and>
     (\<exists>payload etag. answer = Fetched (Some payload) etag \<and> parse_remote_config (h_fromiso h) payload poll (now_ms m) = Some (Some snap))"



text \<open>
  \<open>dispose\<close> cancels the timer of the configuration, but neither disables the SDK nor starts a new generation: a fetch
  that is under way then schedules the next one, and a disposed SDK polls on.
\<close>

lemma refresh_revives_disposed:
  assumes "process cl = at_pid m" "enabled (queue cl)" "fetches cl"
  shows "config_timer (dispose_client m cl) = None"
    "config_timer (refresh_answer h m' initial (generation (queue cl)) poll Not_fetched (dispose_client m cl)) \<noteq> None"
  using assms refresh_failed_outcome(4) [of "dispose_client m cl"]
  by (simp_all add: dispose_client_def ensure_current_process_def dispose_queue_def refresh_answer_def del: not_None_eq)

end
