(* ===== verification/Exception_Evidence.thy ===== *)
theory Exception_Evidence
  imports Redaction Event_Support "HOL-Library.Word"
begin

text \<open>
  \<open>exception_evidence.py\<close> and \<open>exception_snapshot.py\<close>: the bounded walk over a live exception. Exceptions are objects
  on a heap, a function from identities to what the built-in descriptors of \<open>BaseException\<close> and
  \<open>BaseExceptionGroup\<close> read; causes, contexts and the members of groups are identities, so shared and circular
  exceptions are as they are in the program. A line number is a C int. \<open>sanitize\<close> is \<open>sanitize_telemetry\<close>
  without extra fields, \<open>shown\<close> the text of a float, \<open>fr\<close> its digits in JSON (there is none in a graph).
\<close>

record native =
  type_name :: string
  native_args :: "pyval list"
  group :: "(string \<times> nat list) option"
  traceback :: "(string \<times> string \<times> 32 word) list"
  native_cause :: "nat option"
  native_context :: "nat option"
  suppress_context :: bool

type_synonym heap = "nat \<Rightarrow> native"

definition exception_name :: "native \<Rightarrow> string" where
  "exception_name e = take 256 (type_name e)"

text \<open>\<open>str\<close> of an int of more than 4300 digits raises.\<close>

fun safe_part :: "(pyval \<Rightarrow> string) \<Rightarrow> pyval \<Rightarrow> string option" where
  "safe_part shown (PStr s) = Some (take 1024 s)"
| "safe_part shown (PInt i) = (if 4300 < length (dec_int \<bar>i\<bar>) then None else Some (dec_int i))"
| "safe_part shown (PFloat x) = Some (py_str shown (PFloat x))"
| "safe_part shown (PBool b) = Some (py_str shown (PBool b))"
| "safe_part shown v = Some ''[unsupported argument]''"

fun comma_join :: "string list \<Rightarrow> string" where
  "comma_join [] = []"
| "comma_join [s] = s"
| "comma_join (s # t # ts) = s @ '', '' @ comma_join (t # ts)"

definition safe_message :: "(pyval \<Rightarrow> string) \<Rightarrow> native \<Rightarrow> string" where
  "safe_message shown e =
     (case those (map (safe_part shown) (take 4 (native_args e))) of
        None \<Rightarrow> ''[message unavailable]''
      | Some parts \<Rightarrow> take 4096 (comma_join parts))"

subsection \<open>The graph\<close>

record Frame =
  frame_function :: "string option"
  frame_file :: "string option"
  frame_line :: "int option"

record Relationship =
  rel_kind :: string
  rel_target :: nat

record Node =
  nd_ident :: nat
  nd_name :: string
  nd_message :: string
  nd_origin :: string
  nd_status :: string
  nd_frames :: "Frame list"
  nd_rels :: "Relationship list"

record ExceptionEvidence =
  ev_nodes :: "Node list"
  ev_truncated :: bool
  ev_unavailable :: "string option"

text \<open>As Python values; the stack of a node, the column and the class of a frame are the same in all.\<close>

definition opt_str :: "string option \<Rightarrow> pyval" where
  "opt_str s = (case s of None \<Rightarrow> PNone | Some t \<Rightarrow> PStr t)"

definition frame_value :: "Frame \<Rightarrow> pyval" where
  "frame_value f = PDict [(PStr ''function'', opt_str (frame_function f)), (PStr ''file'', opt_str (frame_file f)),
     (PStr ''line'', case frame_line f of None \<Rightarrow> PNone | Some n \<Rightarrow> PInt n), (PStr ''column'', PNone),
     (PStr ''classification'', PStr ''unknown'')]"

definition rel_value :: "Relationship \<Rightarrow> pyval" where
  "rel_value r = PDict [(PStr ''kind'', PStr (rel_kind r)), (PStr ''target_id'', PInt (int (rel_target r)))]"

definition node_value :: "Node \<Rightarrow> pyval" where
  "node_value n = PDict [(PStr ''id'', PInt (int (nd_ident n))), (PStr ''name'', PStr (nd_name n)),
     (PStr ''message'', PStr (nd_message n)), (PStr ''stack'', PNone), (PStr ''trace_origin'', PStr (nd_origin n)),
     (PStr ''parsing_status'', PStr (nd_status n)), (PStr ''frames'', PList (map frame_value (nd_frames n))),
     (PStr ''relationships'', PList (map rel_value (nd_rels n)))]"

definition graph_value :: "ExceptionEvidence \<Rightarrow> pydict" where
  "graph_value g = [(PStr ''version'', PInt 1), (PStr ''runtime'', PStr ''python''), (PStr ''root_id'', PInt 0),
     (PStr ''nodes'', PList (map node_value (ev_nodes g))), (PStr ''truncated'', PBool (ev_truncated g)),
     (PStr ''unavailable_reason'', opt_str (ev_unavailable g))]"

text \<open>\<open>_bytes\<close>; a graph of texts, ints and bools can always be written (lemma \<open>graph_written\<close>).\<close>

definition graph_bytes :: "(rat \<Rightarrow> string) \<Rightarrow> ExceptionEvidence \<Rightarrow> nat" where
  "graph_bytes fr g = (case json_bytes False True fr (PDict (graph_value g)) of Some n \<Rightarrow> n | None \<Rightarrow> 0)"

subsection \<open>Texts\<close>

text \<open>\<open>encoded[:n].decode(errors="ignore")\<close>: the longest prefix of at most n bytes.\<close>

fun utf8_take :: "nat \<Rightarrow> string \<Rightarrow> string" where
  "utf8_take n [] = []"
| "utf8_take n (c # s) =
     (let w = (if ord_of c < 128 then 1 else 2) in if w \<le> n then c # utf8_take (n - w) s else [])"

text \<open>The nested \<open>text\<close>, with whether it cut anything off. \<open>sanitize_telemetry\<close> of a text is a text.\<close>

definition bounded_text :: "(pyval \<Rightarrow> unsafe + pyval) \<Rightarrow> string \<Rightarrow> nat \<Rightarrow> string \<times> bool" where
  "bounded_text sanitize value limit =
     (let result = utf8_take limit (take limit value)
      in (case sanitize (PStr result) of Inr (PStr s) \<Rightarrow> s | _ \<Rightarrow> ''[withheld]'', result \<noteq> value))"

text \<open>\<open>urlunsplit\<close> without query and fragment, for a scheme that uses an authority.\<close>

definition url_unsplit :: "string \<Rightarrow> string \<Rightarrow> string \<Rightarrow> string" where
  "url_unsplit scheme netloc path =
     (let url = (if netloc \<noteq> [] then ''//'' @ netloc @ (if path \<noteq> [] \<and> hd path \<noteq> CHR ''/'' then CHR ''/'' # path else path)
                 else if path = [] \<or> hd path = CHR ''/'' then ''//'' @ path else path)
      in if scheme = [] then url else scheme @ '':'' @ url)"

definition location :: "urllib \<Rightarrow> (pyval \<Rightarrow> unsafe + pyval) \<Rightarrow> string \<Rightarrow> string \<times> bool" where
  "location lib sanitize value =
     (let (result, cut) = bounded_text sanitize value 2048
      in if starts_with ''https://'' (str_lower result) \<or> starts_with ''http://'' (str_lower result)
         then (case urlsplit lib result of
             None \<Rightarrow> (''[withheld]'', cut)
           | Some (scheme, netloc, path, query) \<Rightarrow>
               (url_unsplit scheme (snd (snd (rpartition_at CHR ''@'' netloc))) path, cut))
         else (result, cut))"

definition nonempty :: "string \<Rightarrow> string option" where
  "nonempty s = (if s = [] then None else Some s)"

subsection \<open>One node\<close>

text \<open>The loop over the traceback, with how many frames may still be taken: frames, cuts and whether frames are left.\<close>

fun read_frames :: "urllib \<Rightarrow> (pyval \<Rightarrow> unsafe + pyval) \<Rightarrow> nat \<Rightarrow> (string \<times> string \<times> 32 word) list \<Rightarrow> Frame list \<times> bool \<times> bool" where
  "read_frames lib sanitize n [] = ([], False, False)"
| "read_frames lib sanitize 0 (x # tb) = ([], False, True)"
| "read_frames lib sanitize (Suc n) ((function_name, filename, line) # tb) =
     (let (fn, a) = bounded_text sanitize function_name 256; (file, b) = location lib sanitize filename;
          (fs, c, left) = read_frames lib sanitize n tb
      in (\<lparr>frame_function = nonempty fn, frame_file = nonempty file,
           frame_line = (if 0 < sint line then Some (sint line) else None)\<rparr> # fs, a \<or> b \<or> c, left))"

definition read_node ::
  "urllib \<Rightarrow> (pyval \<Rightarrow> unsafe + pyval) \<Rightarrow> (pyval \<Rightarrow> string) \<Rightarrow> bool \<Rightarrow> native \<Rightarrow> nat \<Rightarrow> Node \<times> bool" where
  "read_node lib sanitize shown fatal e i =
     (let (n, a) = bounded_text sanitize (exception_name e) 256;
          name = (if n = [] then ''Error'' else n);
          (m, b) = bounded_text sanitize (case group e of Some (s, _) \<Rightarrow> s | None \<Rightarrow> safe_message shown e)
            (if fatal then 512 else 2048);
          (fs, c, left) = read_frames lib sanitize (if fatal then 8 else 32) (traceback e)
      in (\<lparr>nd_ident = i, nd_name = name, nd_message = (if m = [] then name else m),
           nd_origin = (if fs = [] then ''unavailable'' else ''runtime_reported''),
           nd_status = (if left then ''truncated'' else if fs = [] then ''unavailable'' else ''parsed''),
           nd_frames = fs, nd_rels = []\<rparr>, a \<or> b \<or> c \<or> left))"

subsection \<open>The walk\<close>

record walk =
  wk_nodes :: "Node list"
  wk_identities :: "(nat \<times> nat) list"
  wk_truncated :: bool

definition mark_cut :: "bool \<Rightarrow> walk \<Rightarrow> walk" where
  "mark_cut b w = w\<lparr>wk_truncated := wk_truncated w \<or> b\<rparr>"

definition targets :: "Node \<Rightarrow> nat list" where
  "targets n = map rel_target (nd_rels n)"

text \<open>
  \<open>height\<close>, with how deep it may recurse; None is a \<open>RecursionError\<close>. Eight is more than a walk ever needs: its
  graphs have no cycle, and lemma \<open>walk_returns\<close> shows that None never comes up.
\<close>

fun height :: "nat \<Rightarrow> Node list \<Rightarrow> nat \<Rightarrow> nat option" where
  "height 0 ns i = None"
| "height (Suc k) ns i = map_option (\<lambda>hs. fold max (map Suc hs) 0) (those (map (height k ns) (targets (ns ! i))))"

definition add_edge :: "nat \<Rightarrow> string \<Rightarrow> nat \<Rightarrow> walk \<Rightarrow> walk" where
  "add_edge i k t w =
     (let n = wk_nodes w ! i; r = \<lparr>rel_kind = k, rel_target = t\<rparr>
      in if r \<in> set (nd_rels n) then w else w\<lparr>wk_nodes := (wk_nodes w)[i := n\<lparr>nd_rels := nd_rels n @ [r]\<rparr>]\<rparr>)"

text \<open>What a node links to, in order, and whether members of a group are left out.\<close>

definition links :: "native \<Rightarrow> (nat \<times> string) list" where
  "links e =
     (case native_cause e of
        Some c \<Rightarrow> [(c, ''cause'')]
      | None \<Rightarrow> if suppress_context e then [] else (case native_context e of None \<Rightarrow> [] | Some c \<Rightarrow> [(c, ''context'')])) @
     (case group e of None \<Rightarrow> [] | Some (_, children) \<Rightarrow> map (\<lambda>c. (c, ''aggregate'')) (take 5 children))"

definition overfull :: "native \<Rightarrow> bool" where
  "overfull e = (case group e of None \<Rightarrow> False | Some (_, children) \<Rightarrow> 5 < length children)"

text \<open>
  The nested \<open>visit\<close> and the sequence of its \<open>link\<close>s; \<open>rd\<close> reads a node and \<open>most\<close> is the limit of nodes. The
  outer None is a \<open>RecursionError\<close>.
\<close>

function visit_error :: "(native \<Rightarrow> nat \<Rightarrow> Node \<times> bool) \<Rightarrow> nat \<Rightarrow> heap \<Rightarrow> nat \<Rightarrow> nat \<Rightarrow> nat list \<Rightarrow> walk \<Rightarrow> (nat option \<times> walk) option"
  and visit_links :: "(native \<Rightarrow> nat \<Rightarrow> Node \<times> bool) \<Rightarrow> nat \<Rightarrow> heap \<Rightarrow> nat \<Rightarrow> (nat \<times> string) list \<Rightarrow> nat \<Rightarrow> nat list \<Rightarrow> walk \<Rightarrow> walk option" where
  "visit_error rd most hp e depth anc w =
     (if e \<in> set anc \<or> 4 < depth then Some (None, mark_cut True w)
      else (case map_of (wk_identities w) e of
          Some i \<Rightarrow>
            (case height 8 (wk_nodes w) i of
               None \<Rightarrow> None
             | Some k \<Rightarrow> if 4 < depth + k then Some (None, mark_cut True w) else Some (Some i, w))
        | None \<Rightarrow>
            if most \<le> length (wk_nodes w) then Some (None, mark_cut True w)
            else
              let i = length (wk_nodes w); (n, cut) = rd (hp e) i;
                  w1 = (mark_cut cut w)\<lparr>wk_nodes := wk_nodes w @ [n], wk_identities := (e, i) # wk_identities w\<rparr>
              in map_option (\<lambda>w2. (Some i, mark_cut (overfull (hp e)) w2)) (visit_links rd most hp i (links (hp e)) (Suc depth) (e # anc) w1)))"
| "visit_links rd most hp i [] depth anc w = Some w"
| "visit_links rd most hp i ((c, k) # ls) depth anc w =
     (if 5 \<le> length (nd_rels (wk_nodes w ! i)) then visit_links rd most hp i ls depth anc (mark_cut True w)
      else (case visit_error rd most hp c depth anc w of
          None \<Rightarrow> None
        | Some (None, w1) \<Rightarrow> visit_links rd most hp i ls depth anc w1
        | Some (Some t, w1) \<Rightarrow> visit_links rd most hp i ls depth anc (add_edge i k t w1)))"
  by pat_completeness auto

termination
  by (relation "measures [\<lambda>x. case x of Inl (_, _, _, _, d, _) \<Rightarrow> 6 - d | Inr (_, _, _, _, _, d, _) \<Rightarrow> 6 - d,
      \<lambda>x. case x of Inl _ \<Rightarrow> 0 | Inr (_, _, _, _, ls, _) \<Rightarrow> Suc (length ls)]") auto

subsection \<open>Keeping within the budget\<close>

text \<open>The frames of node i go from the last on while the graph is too large.\<close>

function pop_frames :: "(rat \<Rightarrow> string) \<Rightarrow> int \<Rightarrow> nat \<Rightarrow> ExceptionEvidence \<Rightarrow> ExceptionEvidence" where
  "pop_frames fr maximum i g =
     (if i < length (ev_nodes g) \<and> nd_frames (ev_nodes g ! i) \<noteq> [] \<and> maximum < int (graph_bytes fr g)
      then pop_frames fr maximum i (g\<lparr>ev_nodes := (ev_nodes g)[i := (ev_nodes g ! i)\<lparr>
             nd_frames := butlast (nd_frames (ev_nodes g ! i)), nd_status := ''truncated''\<rparr>]\<rparr>)
      else g)"
  by auto

termination
  by (relation "measure (\<lambda>(fr, m, i, g). length (nd_frames (ev_nodes g ! i)))") auto

declare pop_frames.simps [simp del]

definition cut_texts :: "(pyval \<Rightarrow> unsafe + pyval) \<Rightarrow> bool \<Rightarrow> Node \<Rightarrow> Node" where
  "cut_texts sanitize fatal n =
     n\<lparr>nd_name := fst (bounded_text sanitize (nd_name n) (if fatal then 64 else 128)),
       nd_message := fst (bounded_text sanitize (nd_message n) (if fatal then 128 else 256))\<rparr>"

definition drop_target :: "nat \<Rightarrow> Node \<Rightarrow> Node" where
  "drop_target t n = n\<lparr>nd_rels := filter (\<lambda>r. rel_target r \<noteq> t) (nd_rels n)\<rparr>"

function pop_nodes :: "(rat \<Rightarrow> string) \<Rightarrow> int \<Rightarrow> ExceptionEvidence \<Rightarrow> ExceptionEvidence" where
  "pop_nodes fr maximum g =
     (if 1 < length (ev_nodes g) \<and> maximum < int (graph_bytes fr g)
      then pop_nodes fr maximum (g\<lparr>ev_nodes := map (drop_target (nd_ident (last (ev_nodes g)))) (butlast (ev_nodes g))\<rparr>)
      else g)"
  by auto

termination
  by (relation "measure (\<lambda>(fr, m, g). length (ev_nodes g))") auto

declare pop_nodes.simps [simp del]

text \<open>The three reductions of a graph that is too large; \<open>truncated\<close> is set, so \<open>text\<close> need not set it again.\<close>

definition shrink :: "(pyval \<Rightarrow> unsafe + pyval) \<Rightarrow> (rat \<Rightarrow> string) \<Rightarrow> bool \<Rightarrow> int \<Rightarrow> ExceptionEvidence \<Rightarrow> ExceptionEvidence" where
  "shrink sanitize fr fatal maximum g0 =
     (let g = g0\<lparr>ev_truncated := True, ev_unavailable := Some ''budget_exceeded''\<rparr>;
          g1 = fold (pop_frames fr maximum) (rev [0..<length (ev_nodes g)]) g;
          g2 = (if maximum < int (graph_bytes fr g1) then g1\<lparr>ev_nodes := map (cut_texts sanitize fatal) (ev_nodes g1)\<rparr> else g1)
      in pop_nodes fr maximum g2)"

definition snapshot_exception ::
  "urllib \<Rightarrow> (pyval \<Rightarrow> unsafe + pyval) \<Rightarrow> (pyval \<Rightarrow> string) \<Rightarrow> (rat \<Rightarrow> string) \<Rightarrow> heap \<Rightarrow> nat \<Rightarrow> bool \<Rightarrow> int option \<Rightarrow> ExceptionEvidence option" where
  "snapshot_exception lib sanitize shown fr hp e fatal budget =
     (let maximum = min (if fatal then 4096 else 32768) (case budget of None \<Rightarrow> 32768 | Some b \<Rightarrow> b)
      in if maximum < 512 then None
         else (case visit_error (read_node lib sanitize shown fatal) (if fatal then 2 else 8) hp e 0 []
                 \<lparr>wk_nodes = [], wk_identities = [], wk_truncated = False\<rparr> of
             None \<Rightarrow> None
           | Some (_, w) \<Rightarrow>
               let g0 = \<lparr>ev_nodes = wk_nodes w, ev_truncated = wk_truncated w, ev_unavailable = None\<rparr>;
                   g1 = (if maximum < int (graph_bytes fr g0) then shrink sanitize fr fatal maximum g0 else g0);
                   g2 = (if ev_truncated g1 \<and> ev_unavailable g1 = None then g1\<lparr>ev_unavailable := Some ''budget_exceeded''\<rparr> else g1)
               in if ev_nodes g2 \<noteq> [] \<and> int (graph_bytes fr g2) \<le> maximum then Some g2 else None))"

end
