(* ===== verification/Exception_Evidence_Facts.thy ===== *)
theory Exception_Evidence_Facts
  imports Exception_Evidence Evidence_Facts
begin

text \<open>
  The walk over a live exception returns on every heap, circular ones included, and what it takes down is a graph
  that the evidence boundary accepts if its sanitized texts are within their limits.
\<close>

subsection \<open>Heights\<close>

text \<open>No path from a node is longer than k - 1.\<close>

abbreviation low :: "nat \<Rightarrow> Node list \<Rightarrow> nat \<Rightarrow> bool" where
  "low k ns i \<equiv> height k ns i \<noteq> None"

lemma those_None: "those xs = None \<longleftrightarrow> None \<in> set xs"
  by (induction xs) (auto split: option.splits)

lemma those_Some: "those xs = Some ys \<longleftrightarrow> xs = map Some ys"
  by (induction xs arbitrary: ys) (auto split: option.splits)

lemma low_Suc: "low (Suc k) ns i \<longleftrightarrow> (\<forall>t \<in> set (targets (ns ! i)). low k ns t)"
  by (simp add: those_None del: not_None_eq) (metis imageE imageI)

lemma low_0 [simp]: "\<not> low 0 ns i"
  by simp

declare height.simps [simp del]

lemma fold_max_le: "fold max (map Suc hs) a \<le> m \<longleftrightarrow> a \<le> m \<and> (\<forall>h \<in> set hs. h < (m :: nat))"
  by (induction hs arbitrary: a) auto

text \<open>The value that \<open>height\<close> finds says how low a node is.\<close>

lemma height_low: "height k ns i = Some h \<Longrightarrow> h < m \<Longrightarrow> low m ns i"
proof (induction k arbitrary: i h m)
  case (Suc k)
  then obtain l where m: "m = Suc l" by (cases m) auto
  from Suc.prems(1) obtain hs where hs: "map (height k ns) (targets (ns ! i)) = map Some hs" "h = fold max (map Suc hs) 0"
    by (auto simp: height.simps those_Some)
  have "low l ns t" if "t \<in> set (targets (ns ! i))" for t
  proof -
    from that hs(1) obtain h' where h': "height k ns t = Some h'" "h' \<in> set hs" by (metis image_iff image_set in_set_conv_nth length_map nth_map)
    have "h' < l" using hs(2) h'(2) Suc.prems(2) m fold_max_le [of hs 0 l] by auto
    then show ?thesis by (rule Suc.IH [OF h'(1)])
  qed
  then show ?case unfolding m low_Suc by blast
qed (simp add: height.simps)

lemma low_mono: "low k ns i \<Longrightarrow> k \<le> m \<Longrightarrow> low m ns i"
proof (induction k arbitrary: i m)
  case (Suc k)
  from Suc.prems(2) obtain l where "m = Suc l" "k \<le> l" by (cases m) auto
  with Suc show ?case by (auto simp: low_Suc simp del: not_None_eq)
qed (simp del: not_None_eq)

lemma height_agrees:
  assumes "\<forall>j \<in> C. ns' ! j = ns ! j \<and> set (targets (ns ! j)) \<subseteq> C"
  shows "i \<in> C \<Longrightarrow> height k ns' i = height k ns i"
proof (induction k arbitrary: i)
  case (Suc k)
  have same: "ns' ! i = ns ! i" and below: "map (height k ns') (targets (ns ! i)) = map (height k ns) (targets (ns ! i))"
    using assms Suc by auto
  show ?case unfolding height.simps same below ..
qed (simp add: height.simps)

subsection \<open>The invariant of the walk\<close>

definition causal :: "string \<Rightarrow> bool" where
  "causal k \<longleftrightarrow> k = ''cause'' \<or> k = ''context''"

definition rels_ok :: "Relationship list \<Rightarrow> bool" where
  "rels_ok rs \<longleftrightarrow> length rs \<le> 5 \<and> distinct rs \<and> (\<forall>r \<in> set rs. causal (rel_kind r) \<or> rel_kind r = ''aggregate'') \<and>
     length (filter (\<lambda>r. causal (rel_kind r)) rs) \<le> 1"

text \<open>
  \<open>P\<close> are the nodes whose links are being followed. Every link leads to a node that is finished, and no path from
  there is longer than four.
\<close>

definition walk_ok :: "nat set \<Rightarrow> nat list \<Rightarrow> walk \<Rightarrow> bool" where
  "walk_ok P anc w \<longleftrightarrow>
     (let ns = wk_nodes w; C = {..<length ns} - P in
      (\<forall>i < length ns. nd_ident (ns ! i) = i \<and> rels_ok (nd_rels (ns ! i)) \<and> set (targets (ns ! i)) \<subseteq> C) \<and>
      (\<forall>i \<in> C. low 5 ns i) \<and> dict_ok (wk_identities w) \<and>
      (\<forall>(x, i) \<in> set (wk_identities w). i < length ns \<and> (i \<in> P \<longrightarrow> x \<in> set anc)))"

definition reads :: "(native \<Rightarrow> nat \<Rightarrow> Node \<times> bool) \<Rightarrow> bool" where
  "reads rd \<longleftrightarrow> (\<forall>e i. nd_ident (fst (rd e i)) = i \<and> nd_rels (fst (rd e i)) = [])"

text \<open>From w to w' only links of node \<open>i\<close> and nodes were added; new nodes hang on one another or on \<open>i\<close>, and are what \<open>rd\<close> read.\<close>

definition hang :: "nat \<Rightarrow> nat set \<Rightarrow> nat set \<Rightarrow> Node list \<Rightarrow> bool" where
  "hang m I J ns \<longleftrightarrow> (\<forall>j < length ns. m \<le> j \<and> j \<notin> J \<longrightarrow> (\<exists>p < j. (p \<in> I \<or> m \<le> p) \<and> j \<in> set (targets (ns ! p))))"

definition taken :: "(native \<Rightarrow> nat \<Rightarrow> Node \<times> bool) \<Rightarrow> heap \<Rightarrow> Node list \<Rightarrow> bool" where
  "taken rd hp ns \<longleftrightarrow> (\<forall>j < length ns. \<exists>e. ns ! j = (fst (rd (hp e) j))\<lparr>nd_rels := nd_rels (ns ! j)\<rparr>)"

definition grown :: "nat \<Rightarrow> nat set \<Rightarrow> walk \<Rightarrow> walk \<Rightarrow> bool" where
  "grown most I w w' \<longleftrightarrow> length (wk_nodes w) \<le> length (wk_nodes w') \<and> length (wk_nodes w') \<le> max most (length (wk_nodes w)) \<and>
     (\<forall>j < length (wk_nodes w). (j \<notin> I \<longrightarrow> wk_nodes w' ! j = wk_nodes w ! j) \<and>
        set (targets (wk_nodes w ! j)) \<subseteq> set (targets (wk_nodes w' ! j))) \<and>
     set (wk_identities w) \<subseteq> set (wk_identities w')"

lemma walk_ok_cut [simp]: "walk_ok P anc (mark_cut b w) = walk_ok P anc w"
  by (simp add: walk_ok_def mark_cut_def)

lemma cut_nodes [simp]: "wk_nodes (mark_cut b w) = wk_nodes w" "wk_identities (mark_cut b w) = wk_identities w"
  by (simp_all add: mark_cut_def)

lemma walk_okD:
  assumes "walk_ok P anc w" "i < length (wk_nodes w)"
  shows "nd_ident (wk_nodes w ! i) = i" "rels_ok (nd_rels (wk_nodes w ! i))"
    "set (targets (wk_nodes w ! i)) \<subseteq> {..<length (wk_nodes w)} - P" "i \<notin> P \<Longrightarrow> low 5 (wk_nodes w) i"
  using assms by (simp_all add: walk_ok_def Let_def)

text \<open>The empty walk, a new node, a finished node and a new link.\<close>

lemma walk_ok_empty: "walk_ok {} [] \<lparr>wk_nodes = [], wk_identities = [], wk_truncated = b\<rparr>"
  by (simp add: walk_ok_def)

lemma walk_ok_new:
  assumes "walk_ok P anc w" "map_of (wk_identities w) e = None" "nd_ident n = length (wk_nodes w)" "nd_rels n = []"
    "P \<subseteq> {..<length (wk_nodes w)}"
  shows "walk_ok (insert (length (wk_nodes w)) P) (e # anc)
    (w\<lparr>wk_nodes := wk_nodes w @ [n], wk_identities := (e, length (wk_nodes w)) # wk_identities w\<rparr>)"
proof -
  let ?ns = "wk_nodes w" and ?i = "length (wk_nodes w)"
  have C: "{..<Suc ?i} - insert ?i P = {..<?i} - P" by auto
  have low: "low 5 (?ns @ [n]) i" if "i < ?i" "i \<notin> P" for i
    using height_agrees [of "{..<?i} - P" "?ns @ [n]" ?ns i 5] walk_okD(3,4) [OF assms(1)] that by (auto simp: nth_append simp del: not_None_eq)
  have rels: "rels_ok [] \<and> targets n = []" using assms(4) by (simp add: rels_ok_def targets_def)
  show ?thesis
    using assms walk_okD [OF assms(1)] low rels C
    by (auto simp: walk_ok_def Let_def nth_append less_Suc_eq map_of_eq_None_iff simp del: not_None_eq)
qed

lemma walk_ok_finish:
  assumes "walk_ok (insert i P) (e # anc) w" "(e, i) \<in> set (wk_identities w)" "i < length (wk_nodes w)"
    "\<forall>t \<in> set (targets (wk_nodes w ! i)). low 4 (wk_nodes w) t" "i \<notin> P"
  shows "walk_ok P anc w"
proof -
  have "low 5 (wk_nodes w) i" using assms(4) low_Suc [of 4 "wk_nodes w" i] by (simp del: not_None_eq)
  then have L: "low 5 (wk_nodes w) j" if "j < length (wk_nodes w)" "j \<notin> P" for j
    using walk_okD(4) [OF assms(1), of j] that by (cases "j = i") (simp_all del: not_None_eq)
  have T: "nd_ident (wk_nodes w ! j) = j \<and> rels_ok (nd_rels (wk_nodes w ! j)) \<and>
      set (targets (wk_nodes w ! j)) \<subseteq> {..<length (wk_nodes w)} - P" if "j < length (wk_nodes w)" for j
    using walk_okD(1-3) [OF assms(1) that] by auto
  have D: "dict_ok (wk_identities w)" and I: "\<And>x j. (x, j) \<in> set (wk_identities w) \<Longrightarrow> j < length (wk_nodes w) \<and> (j = i \<or> j \<in> P \<longrightarrow> x = e \<or> x \<in> set anc)"
    using assms(1) by (auto simp: walk_ok_def Let_def)
  have "x \<in> set anc" if "(x, j) \<in> set (wk_identities w)" "j \<in> P" "i \<notin> P" for x j
    using I [OF that(1)] that eq_key_imp_eq_value [OF D _ assms(2)] by blast
  with I have "j < length (wk_nodes w) \<and> (j \<in> P \<longrightarrow> x \<in> set anc)" if "(x, j) \<in> set (wk_identities w)" "i \<notin> P" for x j
    using that by blast
  with D T L assms(5) show ?thesis unfolding walk_ok_def Let_def by blast
qed

lemma add_edge_nodes:
  "length (wk_nodes (add_edge i k t w)) = length (wk_nodes w)" "j \<noteq> i \<Longrightarrow> wk_nodes (add_edge i k t w) ! j = wk_nodes w ! j"
  "wk_identities (add_edge i k t w) = wk_identities w"
  by (simp_all add: add_edge_def Let_def)

lemma add_edge_rels:
  "i < length (wk_nodes w) \<Longrightarrow> nd_rels (wk_nodes (add_edge i k t w) ! i) =
     List.insert \<lparr>rel_kind = k, rel_target = t\<rparr> (nd_rels (wk_nodes w ! i)) \<or>
   nd_rels (wk_nodes (add_edge i k t w) ! i) = nd_rels (wk_nodes w ! i) @ [\<lparr>rel_kind = k, rel_target = t\<rparr>] \<and>
     \<lparr>rel_kind = k, rel_target = t\<rparr> \<notin> set (nd_rels (wk_nodes w ! i))"
  by (simp add: add_edge_def Let_def)

lemma add_edge_targets:
  assumes "i < length (wk_nodes w)"
  shows "set (targets (wk_nodes (add_edge i k t w) ! i)) = insert t (set (targets (wk_nodes w ! i)))"
proof (cases "\<lparr>rel_kind = k, rel_target = t\<rparr> \<in> set (nd_rels (wk_nodes w ! i))")
  case True
  then have "t \<in> set (targets (wk_nodes w ! i))" unfolding targets_def by (force simp: image_iff)
  with True show ?thesis by (auto simp: add_edge_def)
qed (use assms in \<open>auto simp: add_edge_def Let_def targets_def\<close>)

lemma add_edge_ident: "i < length (wk_nodes w) \<Longrightarrow> nd_ident (wk_nodes (add_edge i k t w) ! j) = nd_ident (wk_nodes w ! j)"
  by (cases "j = i") (auto simp: add_edge_def Let_def)

definition causes :: "Node list \<Rightarrow> nat \<Rightarrow> (nat \<times> string) list \<Rightarrow> nat" where
  "causes ns i ls = length (filter (\<lambda>r. causal (rel_kind r)) (nd_rels (ns ! i))) + length (filter (\<lambda>l. causal (snd l)) ls)"

lemma add_edge_causes:
  "i < length (wk_nodes w) \<Longrightarrow> causes (wk_nodes (add_edge i k t w)) i ls \<le> causes (wk_nodes w) i ((c, k) # ls)"
  by (auto simp: add_edge_def Let_def causes_def)

lemma rels_ok_append:
  assumes "causal k \<or> k = ''aggregate''" "length rs < 5" "rels_ok rs" "\<lparr>rel_kind = k, rel_target = t\<rparr> \<notin> set rs"
    "length (filter (\<lambda>r. causal (rel_kind r)) rs) + (if causal k then 1 else 0) \<le> 1"
  shows "rels_ok (rs @ [\<lparr>rel_kind = k, rel_target = t\<rparr>])"
  using assms unfolding rels_ok_def by (cases "causal k") simp_all

lemma walk_ok_edge:
  assumes "walk_ok P anc w" "i \<in> P" "i < length (wk_nodes w)" "t < length (wk_nodes w)" "t \<notin> P" "causal k \<or> k = ''aggregate''"
    "length (nd_rels (wk_nodes w ! i)) < 5" "causes (wk_nodes w) i [(c, k)] \<le> 1"
  shows "walk_ok P anc (add_edge i k t w)"
proof -
  let ?ns = "wk_nodes w" and ?ns' = "wk_nodes (add_edge i k t w)"
  have ok: "rels_ok (nd_rels (?ns ! i))" by (rule walk_okD(2) [OF assms(1,3)])
  have "rels_ok (nd_rels (?ns' ! i))"
  proof (cases "\<lparr>rel_kind = k, rel_target = t\<rparr> \<in> set (nd_rels (?ns ! i))")
    case True
    then show ?thesis using ok by (simp add: add_edge_def)
  next
    case False
    then have "nd_rels (?ns' ! i) = nd_rels (?ns ! i) @ [\<lparr>rel_kind = k, rel_target = t\<rparr>]"
      using assms(3) by (simp add: add_edge_def Let_def)
    moreover have "length (filter (\<lambda>r. causal (rel_kind r)) (nd_rels (?ns ! i))) + (if causal k then 1 else 0) \<le> 1"
      using assms(8) by (cases "causal k") (simp_all add: causes_def)
    ultimately show ?thesis using rels_ok_append [OF assms(6,7) ok False] by simp
  qed
  then have rels: "rels_ok (nd_rels (?ns' ! j))" if "j < length ?ns" for j
    using that walk_okD(2) [OF assms(1)] add_edge_nodes(2) by (cases "j = i") auto
  have targets: "set (targets (?ns' ! j)) \<subseteq> {..<length ?ns} - P" if "j < length ?ns" for j
    using that walk_okD(3) [OF assms(1)] add_edge_nodes(2) add_edge_targets [OF assms(3)] assms(4,5) by (cases "j = i") auto
  have low: "low 5 ?ns' j" if "j < length ?ns" "j \<notin> P" for j
  proof -
    have "\<forall>j \<in> {..<length ?ns} - P. ?ns' ! j = ?ns ! j \<and> set (targets (?ns ! j)) \<subseteq> {..<length ?ns} - P"
    proof (intro ballI conjI)
      fix j assume j: "j \<in> {..<length ?ns} - P"
      then have "j \<noteq> i" using assms(2) by blast
      then show "?ns' ! j = ?ns ! j" by (rule add_edge_nodes(2))
      show "set (targets (?ns ! j)) \<subseteq> {..<length ?ns} - P" using walk_okD(3) [OF assms(1), of j] j by simp
    qed
    from height_agrees [OF this, of j 5] walk_okD(4) [OF assms(1) that] that show ?thesis by (simp del: not_None_eq)
  qed
  have D: "dict_ok (wk_identities w)" "\<forall>(x, i) \<in> set (wk_identities w). i < length ?ns \<and> (i \<in> P \<longrightarrow> x \<in> set anc)"
    and ident: "\<And>j. j < length ?ns \<Longrightarrow> nd_ident (?ns ! j) = j"
    using assms(1) by (simp_all add: walk_ok_def Let_def)
  show ?thesis
    unfolding walk_ok_def Let_def add_edge_nodes add_edge_ident [OF assms(3)]
    using rels targets low ident D by (intro conjI allI impI ballI) simp_all
qed

subsection \<open>The walk\<close>

lemma grown_cut [simp]: "grown most I w (mark_cut b w') = grown most I w w'" "grown most I (mark_cut b w) w' = grown most I w w'"
  by (simp_all add: grown_def)

lemma grown_refl [simp]: "grown most I w w"
  by (simp add: grown_def)

lemma grownD:
  assumes "grown most I w w'"
  shows "length (wk_nodes w) \<le> length (wk_nodes w')" "length (wk_nodes w') \<le> max most (length (wk_nodes w))"
    "j < length (wk_nodes w) \<Longrightarrow> j \<notin> I \<Longrightarrow> wk_nodes w' ! j = wk_nodes w ! j"
    "j < length (wk_nodes w) \<Longrightarrow> set (targets (wk_nodes w ! j)) \<subseteq> set (targets (wk_nodes w' ! j))"
    "set (wk_identities w) \<subseteq> set (wk_identities w')"
  using assms by (simp_all add: grown_def)

lemma grown_trans:
  assumes "grown most I w w'" "grown most J w' w''" "I \<subseteq> K" "J \<inter> {..<length (wk_nodes w)} \<subseteq> K"
  shows "grown most K w w''"
proof -
  have len: "length (wk_nodes w) \<le> length (wk_nodes w'')" "length (wk_nodes w'') \<le> max most (length (wk_nodes w))"
    using grownD(1,2) [OF assms(1)] grownD(1,2) [OF assms(2)] by simp_all
  have "wk_nodes w'' ! j = wk_nodes w ! j" if "j < length (wk_nodes w)" "j \<notin> K" for j
  proof -
    have "j \<notin> I" "j \<notin> J" using that assms(3,4) by auto
    then show ?thesis using grownD(3) [OF assms(1)] grownD(3) [OF assms(2)] grownD(1) [OF assms(1)] that(1) by simp
  qed
  moreover have "set (targets (wk_nodes w ! j)) \<subseteq> set (targets (wk_nodes w'' ! j))" if "j < length (wk_nodes w)" for j
    using grownD(4) [OF assms(1) that] grownD(4) [OF assms(2), of j] grownD(1) [OF assms(1)] that by simp
  moreover have "set (wk_identities w) \<subseteq> set (wk_identities w'')"
    using grownD(5) [OF assms(1)] grownD(5) [OF assms(2)] by simp
  ultimately show ?thesis using len unfolding grown_def by blast
qed

lemma grown_edge:
  assumes "i < length (wk_nodes w)"
  shows "grown most {i} w (add_edge i k t w)"
proof -
  have "set (targets (wk_nodes w ! j)) \<subseteq> set (targets (wk_nodes (add_edge i k t w) ! j))" for j
    using add_edge_targets [OF assms] add_edge_nodes(2) by (cases "j = i") auto
  then show ?thesis unfolding grown_def using add_edge_nodes by simp
qed

lemma grown_low:
  assumes "grown most {i} w w'" "walk_ok P anc w" "i \<in> P" "j < length (wk_nodes w)" "j \<notin> P"
  shows "height k (wk_nodes w') j = height k (wk_nodes w) j"
proof (rule height_agrees [of "{..<length (wk_nodes w)} - P"])
  show "\<forall>j \<in> {..<length (wk_nodes w)} - P. wk_nodes w' ! j = wk_nodes w ! j \<and> set (targets (wk_nodes w ! j)) \<subseteq> {..<length (wk_nodes w)} - P"
  proof (intro ballI conjI)
    fix j assume j: "j \<in> {..<length (wk_nodes w)} - P"
    then have "j \<noteq> i" using assms(3) by blast
    with j show "wk_nodes w' ! j = wk_nodes w ! j" using grownD(3) [OF assms(1), of j] by simp
    show "set (targets (wk_nodes w ! j)) \<subseteq> {..<length (wk_nodes w)} - P" using walk_okD(3) [OF assms(2), of j] j by simp
  qed
qed (use assms in simp)

lemma taken_edge:
  assumes "taken rd hp (wk_nodes w)" "i < length (wk_nodes w)"
  shows "taken rd hp (wk_nodes (add_edge i k t w))"
proof (unfold taken_def add_edge_nodes, intro allI impI)
  fix j assume "j < length (wk_nodes w)"
  with assms obtain e where e: "wk_nodes w ! j = (fst (rd (hp e) j))\<lparr>nd_rels := nd_rels (wk_nodes w ! j)\<rparr>" by (auto simp: taken_def)
  have "wk_nodes (add_edge i k t w) ! j = (wk_nodes w ! j)\<lparr>nd_rels := nd_rels (wk_nodes (add_edge i k t w) ! j)\<rparr>"
    using assms(2) by (cases "j = i") (simp_all add: add_edge_def Let_def)
  with e show "\<exists>e. wk_nodes (add_edge i k t w) ! j = (fst (rd (hp e) j))\<lparr>nd_rels := nd_rels (wk_nodes (add_edge i k t w) ! j)\<rparr>"
    by (metis (no_types, lifting) Node.surjective Node.update_convs(7))
qed

definition visited :: "(native \<Rightarrow> nat \<Rightarrow> Node \<times> bool) \<Rightarrow> nat \<Rightarrow> heap \<Rightarrow> nat \<Rightarrow> nat set \<Rightarrow> nat list \<Rightarrow> walk \<Rightarrow> nat option \<Rightarrow> walk \<Rightarrow> bool" where
  "visited rd most hp depth P anc w r w' \<longleftrightarrow> walk_ok P anc w' \<and> taken rd hp (wk_nodes w') \<and> grown most {} w w' \<and>
     (case r of None \<Rightarrow> wk_nodes w' = wk_nodes w
      | Some t \<Rightarrow> t < length (wk_nodes w') \<and> t \<notin> P \<and> low (5 - depth) (wk_nodes w') t \<and> hang (length (wk_nodes w)) {} {t} (wk_nodes w'))"

definition linked :: "(native \<Rightarrow> nat \<Rightarrow> Node \<times> bool) \<Rightarrow> nat \<Rightarrow> heap \<Rightarrow> nat \<Rightarrow> nat \<Rightarrow> nat set \<Rightarrow> nat list \<Rightarrow> walk \<Rightarrow> walk \<Rightarrow> bool" where
  "linked rd most hp i depth P anc w w' \<longleftrightarrow> walk_ok P anc w' \<and> taken rd hp (wk_nodes w') \<and> grown most {i} w w' \<and>
     (\<forall>t \<in> set (targets (wk_nodes w' ! i)). low (5 - depth) (wk_nodes w') t) \<and> hang (length (wk_nodes w)) {i} {} (wk_nodes w')"

definition linking :: "(native \<Rightarrow> nat \<Rightarrow> Node \<times> bool) \<Rightarrow> heap \<Rightarrow> nat \<Rightarrow> (nat \<times> string) list \<Rightarrow> nat \<Rightarrow> nat set \<Rightarrow> nat list \<Rightarrow> walk \<Rightarrow> bool" where
  "linking rd hp i ls depth P anc w \<longleftrightarrow> walk_ok P anc w \<and> taken rd hp (wk_nodes w) \<and> P \<subseteq> {..<length (wk_nodes w)} \<and> i \<in> P \<and>
     (\<forall>t \<in> set (targets (wk_nodes w ! i)). low (5 - depth) (wk_nodes w) t) \<and>
     (\<forall>(c, k) \<in> set ls. causal k \<or> k = ''aggregate'') \<and> causes (wk_nodes w) i ls \<le> 1"

lemma visited_cut [simp]: "visited rd most hp depth P anc w r (mark_cut b w') = visited rd most hp depth P anc w r w'"
  unfolding visited_def cut_nodes walk_ok_cut grown_cut ..

lemma linking_links: "(\<forall>(c, k) \<in> set (links e). causal k \<or> k = ''aggregate'') \<and> length (filter (\<lambda>l. causal (snd l)) (links e)) \<le> 1"
  by (auto simp: links_def causal_def split: option.splits)

text \<open>A new node: what its links must bring with them, and what they leave.\<close>

lemma new_linking:
  assumes "reads rd" "walk_ok P anc w" "P \<subseteq> {..<length (wk_nodes w)}" "taken rd hp (wk_nodes w)"
    "map_of (wk_identities w) e = None" "rd (hp e) (length (wk_nodes w)) = (n, b)"
  shows "linking rd hp (length (wk_nodes w)) (links (hp e)) depth (insert (length (wk_nodes w)) P) (e # anc)
    ((mark_cut b w)\<lparr>wk_nodes := wk_nodes w @ [n], wk_identities := (e, length (wk_nodes w)) # wk_identities w\<rparr>)"
    (is "linking rd hp ?i _ depth ?P _ ?w")
proof -
  have n: "nd_ident n = ?i" "nd_rels n = []" using assms(1,6) unfolding reads_def by (metis fst_conv)+
  have "walk_ok ?P (e # anc) ?w"
    using walk_ok_new [of P anc "mark_cut b w" e n] assms(2,3,5) n by simp
  moreover have "\<exists>x. (wk_nodes w @ [n]) ! j = (fst (rd (hp x) j))\<lparr>nd_rels := nd_rels ((wk_nodes w @ [n]) ! j)\<rparr>" if "j < Suc ?i" for j
  proof (cases "j = ?i")
    case True
    have "n = (fst (rd (hp e) ?i))\<lparr>nd_rels := nd_rels n\<rparr>" using assms(6) by simp
    with True show ?thesis by (metis nth_append_length)
  next
    case False
    with that assms(4) show ?thesis by (simp add: taken_def nth_append)
  qed
  moreover have "?P \<subseteq> {..<Suc ?i}" using assms(3) by auto
  ultimately show ?thesis
    using linking_links [of "hp e"] n unfolding linking_def causes_def taken_def by (simp add: targets_def)
qed

lemma new_visited:
  assumes "linked rd most hp i (Suc depth) (insert i P) (e # anc) w1 w'" "i = length (wk_nodes w)" "i < most" "depth \<le> 4"
    "P \<subseteq> {..<length (wk_nodes w)}"
    "wk_nodes w1 = wk_nodes w @ [n]" "wk_identities w1 = (e, i) # wk_identities w"
  shows "visited rd most hp depth P anc w (Some i) w'"
proof -
  note L = assms(1) [unfolded linked_def]
  have i: "i \<notin> P" using assms(2,5) by auto
  have g1: "grown most {} w w1" using assms(2,3,6,7) by (auto simp: grown_def nth_append)
  have g2: "grown most {i} w1 w'" using L by blast
  have grown: "grown most {} w w'" by (rule grown_trans [OF g1 g2]) (use assms(2) in auto)
  have len: "i < length (wk_nodes w')" using grownD(1) [OF g2] assms(2,6) by simp
  have ident: "(e, i) \<in> set (wk_identities w')" using grownD(5) [OF g2] assms(7) by simp
  have d: "5 - Suc depth = 4 - depth" "5 - depth = Suc (4 - depth)" using assms(4) by simp_all
  have tg: "low (4 - depth) (wk_nodes w') t" if "t \<in> set (targets (wk_nodes w' ! i))" for t
    using L that d(1) by (metis (no_types))
  have "low 4 (wk_nodes w') t" if "t \<in> set (targets (wk_nodes w' ! i))" for t
    by (rule low_mono [OF tg [OF that]]) simp
  then have ok: "walk_ok P anc w'" using walk_ok_finish [OF _ ident len _ i] L by blast
  have lowi: "low (5 - depth) (wk_nodes w') i" unfolding d(2) low_Suc using tg by blast
  have "hang (length (wk_nodes w)) {} {i} (wk_nodes w')"
    unfolding hang_def
  proof (intro allI impI)
    fix j assume j: "j < length (wk_nodes w')" "length (wk_nodes w) \<le> j \<and> j \<notin> {i}"
    have "hang (length (wk_nodes w1)) {i} {} (wk_nodes w')" using L by blast
    moreover have "length (wk_nodes w1) \<le> j" using j assms(2,6) by simp
    ultimately obtain p where "p < j" "p = i \<or> length (wk_nodes w1) \<le> p" "j \<in> set (targets (wk_nodes w' ! p))"
      using j(1) unfolding hang_def by blast
    then show "\<exists>p < j. (p \<in> {} \<or> length (wk_nodes w) \<le> p) \<and> j \<in> set (targets (wk_nodes w' ! p))"
      using assms(2,6) by (intro exI [of _ p]) auto
  qed
  with L ok grown len i lowi show ?thesis unfolding visited_def by simp
qed

text \<open>One link more.\<close>

lemma visited_linking:
  assumes "linking rd hp i ((c, k) # ls) depth P anc w" "visited rd most hp depth P anc w r w1"
    "length (nd_rels (wk_nodes w ! i)) < 5"
  shows "linking rd hp i ls depth P anc (case r of None \<Rightarrow> w1 | Some t \<Rightarrow> add_edge i k t w1)"
    "grown most {i} w (case r of None \<Rightarrow> w1 | Some t \<Rightarrow> add_edge i k t w1)"
    "hang (length (wk_nodes w)) {i} {} (wk_nodes (case r of None \<Rightarrow> w1 | Some t \<Rightarrow> add_edge i k t w1))"
proof -
  note V = assms(2) [unfolded visited_def] and L = assms(1) [unfolded linking_def]
  have g: "grown most {} w w1" using V by blast
  then have g': "grown most {i} w w1" by (simp add: grown_def)
  have i: "i < length (wk_nodes w)" "i \<in> P" "i < length (wk_nodes w1)" using L grownD(1) [OF g] by auto
  have same: "wk_nodes w1 ! i = wk_nodes w ! i" using grownD(3) [OF g i(1)] by simp
  have P: "P \<subseteq> {..<length (wk_nodes w1)}" using L grownD(1) [OF g] by auto
  have low1: "low (5 - depth) (wk_nodes w1) t" if t: "t \<in> set (targets (wk_nodes w1 ! i))" for t
  proof -
    have "t < length (wk_nodes w)" "t \<notin> P" using t same walk_okD(3) [of P anc w i] L i(1) by auto
    from grown_low [OF g' _ i(2) this] L t same show ?thesis by metis
  qed
  have c1: "causes (wk_nodes w1) i ((c, k) # ls) \<le> 1" using L same by (simp add: causes_def)
  show "linking rd hp i ls depth P anc (case r of None \<Rightarrow> w1 | Some t \<Rightarrow> add_edge i k t w1)"
  proof (cases r)
    case None
    have "causes (wk_nodes w1) i ls \<le> 1" using c1 by (simp add: causes_def split: if_splits)
    with None V L P i low1 show ?thesis by (simp add: linking_def del: not_None_eq)
  next
    case (Some t)
    let ?w = "add_edge i k t w1"
    have t: "t < length (wk_nodes w1)" "t \<notin> P" "low (5 - depth) (wk_nodes w1) t" using V Some by simp_all
    have cc: "causes (wk_nodes w1) i [(c, k)] \<le> 1" using c1 by (simp add: causes_def split: if_splits)
    have ok1: "walk_ok P anc w1" using V by blast
    have kk: "causal k \<or> k = ''aggregate''" using L by simp
    have ok: "walk_ok P anc ?w" using walk_ok_edge [OF ok1 i(2,3) t(1,2) kk] assms(3) same cc by simp
    have "low (5 - depth) (wk_nodes ?w) u" if u: "u \<in> set (targets (wk_nodes ?w ! i))" for u
    proof -
      have "u < length (wk_nodes w1)" "u \<notin> P" using walk_okD(3) [OF ok, of i] i(3) u by (auto simp: add_edge_nodes)
      then have "height (5 - depth) (wk_nodes ?w) u = height (5 - depth) (wk_nodes w1) u"
        by (rule grown_low [OF grown_edge [OF i(3)] ok1 i(2)])
      moreover have "low (5 - depth) (wk_nodes w1) u" using u t(3) low1 add_edge_targets [OF i(3), of k t] by auto
      ultimately show ?thesis by simp
    qed
    moreover have "taken rd hp (wk_nodes ?w)" using V by (intro taken_edge [OF _ i(3)]) blast
    moreover have "causes (wk_nodes ?w) i ls \<le> 1" using add_edge_causes [OF i(3), of k t ls c] c1 by simp
    ultimately show ?thesis using Some ok L P i(2) by (simp add: linking_def add_edge_nodes del: not_None_eq)
  qed
  show "grown most {i} w (case r of None \<Rightarrow> w1 | Some t \<Rightarrow> add_edge i k t w1)"
    using g' grown_trans [OF g' grown_edge [OF i(3)], of "{i}"] by (simp split: option.splits)
  show "hang (length (wk_nodes w)) {i} {} (wk_nodes (case r of None \<Rightarrow> w1 | Some t \<Rightarrow> add_edge i k t w1))"
  proof (cases r)
    case None
    with V show ?thesis by (simp add: hang_def)
  next
    case (Some t)
    let ?w = "add_edge i k t w1"
    have "\<exists>p < j. (p \<in> {i} \<or> length (wk_nodes w) \<le> p) \<and> j \<in> set (targets (wk_nodes ?w ! p))"
      if j: "j < length (wk_nodes w1)" "length (wk_nodes w) \<le> j" for j
    proof (cases "j = t")
      case True
      then have "j \<in> set (targets (wk_nodes ?w ! i))" using add_edge_targets [OF i(3)] by simp
      with i(1) j(2) show ?thesis by (intro exI [of _ i]) simp
    next
      case False
      from V Some have "hang (length (wk_nodes w)) {} {t} (wk_nodes w1)" by simp
      with j False obtain p where p: "p < j" "length (wk_nodes w) \<le> p" "j \<in> set (targets (wk_nodes w1 ! p))"
        unfolding hang_def by blast
      then have "wk_nodes ?w ! p = wk_nodes w1 ! p" using i(1) by (intro add_edge_nodes(2)) simp
      with p show ?thesis by (intro exI [of _ p]) simp
    qed
    with Some show ?thesis by (simp add: hang_def add_edge_nodes)
  qed
qed

lemma linked_after:
  assumes "grown most {i} w w1" "hang (length (wk_nodes w)) {i} {} (wk_nodes w1)" "linked rd most hp i depth P anc w1 w'" "i < length (wk_nodes w)"
  shows "linked rd most hp i depth P anc w w'"
proof -
  note L = assms(3) [unfolded linked_def]
  have g: "grown most {i} w1 w'" using L by blast
  have "\<exists>p < j. (p \<in> {i} \<or> length (wk_nodes w) \<le> p) \<and> j \<in> set (targets (wk_nodes w' ! p))"
    if j: "j < length (wk_nodes w')" "length (wk_nodes w) \<le> j" for j
  proof (cases "j < length (wk_nodes w1)")
    case True
    with assms(2) j obtain p where p: "p < j" "p \<in> {i} \<or> length (wk_nodes w) \<le> p" "j \<in> set (targets (wk_nodes w1 ! p))"
      unfolding hang_def by blast
    with grownD(4) [OF g, of p] True show ?thesis by (intro exI [of _ p]) auto
  next
    case False
    with L j obtain p where "p < j" "p \<in> {i} \<or> length (wk_nodes w1) \<le> p" "j \<in> set (targets (wk_nodes w' ! p))"
      unfolding hang_def by (metis emptyE not_le)
    with grownD(1) [OF assms(1)] show ?thesis by (intro exI [of _ p]) auto
  qed
  then have "hang (length (wk_nodes w)) {i} {} (wk_nodes w')" unfolding hang_def by blast
  moreover have "grown most {i} w w'" by (rule grown_trans [OF assms(1) g]) auto
  ultimately show ?thesis using L unfolding linked_def by blast
qed

declare visit_error.simps [simp del] visit_links.simps [simp del]

lemma walk_steps:
  "reads rd \<Longrightarrow> walk_ok P anc w \<Longrightarrow> P \<subseteq> {..<length (wk_nodes w)} \<Longrightarrow> taken rd hp (wk_nodes w) \<Longrightarrow>
     \<exists>r w'. visit_error rd most hp e depth anc w = Some (r, w') \<and> visited rd most hp depth P anc w r w'"
  "reads rd \<Longrightarrow> linking rd hp i ls depth P anc w \<Longrightarrow>
     \<exists>w'. visit_links rd most hp i ls depth anc w = Some w' \<and> linked rd most hp i depth P anc w w'"
proof (induction rd most hp e depth anc w and rd most hp i ls depth anc w arbitrary: P and P rule: visit_error_visit_links.induct)
  case (1 rd most hp e depth anc w)
  have stay: "visited rd most hp depth P anc w None (mark_cut b w)" for b
    using "1.prems" unfolding visited_def by simp
  show ?case
  proof (cases "e \<in> set anc \<or> 4 < depth")
    case True
    then show ?thesis using stay by (subst visit_error.simps) auto
  next
    case d: False
    show ?thesis
    proof (cases "map_of (wk_identities w) e")
      case (Some i)
      then have ei: "(e, i) \<in> set (wk_identities w)" by (rule map_of_SomeD)
      then have i: "i < length (wk_nodes w)" "i \<notin> P" using "1.prems"(2) d by (auto simp: walk_ok_def Let_def)
      have "low 8 (wk_nodes w) i" by (rule low_mono [OF walk_okD(4) [OF "1.prems"(2) i]]) simp
      then obtain k where k: "height 8 (wk_nodes w) i = Some k" by blast
      show ?thesis
      proof (cases "4 < depth + k")
        case True
        then show ?thesis using stay d Some k by (subst visit_error.simps) simp
      next
        case False
        then have "low (5 - depth) (wk_nodes w) i" by (intro height_low [OF k]) simp
        moreover have "hang (length (wk_nodes w)) {} {i} (wk_nodes w)" by (simp add: hang_def)
        ultimately have "visited rd most hp depth P anc w (Some i) w"
          using "1.prems" i unfolding visited_def by simp
        then show ?thesis using d Some k False by (subst visit_error.simps) simp
      qed
    next
      case None
      show ?thesis
      proof (cases "most \<le> length (wk_nodes w)")
        case True
        then show ?thesis using stay d None by (subst visit_error.simps) simp
      next
        case room: False
        define i where "i = length (wk_nodes w)"
        obtain n b where rd: "rd (hp e) i = (n, b)" by (cases "rd (hp e) i")
        define w1 where "w1 = (mark_cut b w)\<lparr>wk_nodes := wk_nodes w @ [n], wk_identities := (e, i) # wk_identities w\<rparr>"
        have l1: "linking rd hp i (links (hp e)) (Suc depth) (insert i P) (e # anc) w1"
          unfolding w1_def i_def by (rule new_linking [OF "1.prems" None]) (use rd i_def in simp)
        from "1.IH" [OF d None room i_def rd [symmetric] refl w1_def "1.prems"(1) l1]
        obtain w2 where w2: "visit_links rd most hp i (links (hp e)) (Suc depth) (e # anc) w1 = Some w2"
            "linked rd most hp i (Suc depth) (insert i P) (e # anc) w1 w2"
          by blast
        have "visited rd most hp depth P anc w (Some i) w2"
          by (rule new_visited [OF w2(2) i_def, of n]) (use room d "1.prems"(3) in \<open>simp_all add: i_def w1_def\<close>)
        moreover have "visit_error rd most hp e depth anc w = Some (Some i, mark_cut (overfull (hp e)) w2)"
          using d None room rd w2(1) by (subst visit_error.simps) (simp add: i_def w1_def Let_def)
        ultimately show ?thesis by simp
      qed
    qed
  qed
next
  case (2 rd most hp i depth anc w)
  then show ?case by (auto simp: visit_links.simps linking_def linked_def hang_def simp del: not_None_eq)
next
  case (3 rd most hp i c k ls depth anc w)
  note L = "3.prems"(2) [unfolded linking_def]
  have i: "i < length (wk_nodes w)" using L by auto
  show ?case
  proof (cases "5 \<le> length (nd_rels (wk_nodes w ! i))")
    case True
    have "causes (wk_nodes w) i ls \<le> 1" using L by (simp add: causes_def split: if_splits)
    then have "linking rd hp i ls depth P anc (mark_cut True w)" using L by (simp add: linking_def del: not_None_eq)
    from "3.IH"(1) [OF True "3.prems"(1) this] obtain w' where
      "visit_links rd most hp i ls depth anc (mark_cut True w) = Some w'" "linked rd most hp i depth P anc (mark_cut True w) w'" by blast
    then show ?thesis using True by (auto simp: visit_links.simps linked_def)
  next
    case False
    from L "3.IH"(2) [OF False "3.prems"(1)] obtain r w1 where v: "visit_error rd most hp c depth anc w = Some (r, w1)"
        "visited rd most hp depth P anc w r w1" by blast
    from False have short: "length (nd_rels (wk_nodes w ! i)) < 5" by simp
    define w2 where "w2 = (case r of None \<Rightarrow> w1 | Some t \<Rightarrow> add_edge i k t w1)"
    note step = visited_linking [OF "3.prems"(2) v(2) short, folded w2_def]
    have "\<exists>w'. visit_links rd most hp i ls depth anc w2 = Some w' \<and> linked rd most hp i depth P anc w2 w'"
    proof (cases r)
      case None
      with "3.IH"(3) [OF False, of "(r, w1)" r w1] v(1) step(1) "3.prems"(1) show ?thesis by (simp add: w2_def)
    next
      case (Some t)
      with "3.IH"(4) [OF False, of "(r, w1)" r w1 t] v(1) step(1) "3.prems"(1) show ?thesis by (simp add: w2_def)
    qed
    then obtain w' where w': "visit_links rd most hp i ls depth anc w2 = Some w'" "linked rd most hp i depth P anc w2 w'" by blast
    have "visit_links rd most hp i ((c, k) # ls) depth anc w = Some w'"
      using False v(1) w'(1) by (simp add: visit_links.simps w2_def split: option.splits)
    with linked_after [OF step(2,3) w'(2) i] show ?thesis by blast
  qed
qed

subsection \<open>What the walk leaves\<close>

text \<open>A graph whose nodes are numbered from the root 0, with bounded paths, every other node linked from an older one.\<close>

definition shaped :: "Node list \<Rightarrow> bool" where
  "shaped ns \<longleftrightarrow>
     (\<forall>i < length ns. nd_ident (ns ! i) = i \<and> rels_ok (nd_rels (ns ! i)) \<and> set (targets (ns ! i)) \<subseteq> {..<length ns} \<and> low 5 ns i) \<and>
     (\<forall>j < length ns. 0 < j \<longrightarrow> (\<exists>p < j. j \<in> set (targets (ns ! p))))"

lemma walk_returns:
  assumes "reads rd" "0 < most"
  shows "\<exists>w. visit_error rd most hp e 0 [] \<lparr>wk_nodes = [], wk_identities = [], wk_truncated = False\<rparr> = Some (Some 0, w) \<and>
    wk_nodes w \<noteq> [] \<and> length (wk_nodes w) \<le> most \<and> shaped (wk_nodes w) \<and> taken rd hp (wk_nodes w)"
proof -
  let ?w = "\<lparr>wk_nodes = [], wk_identities = [], wk_truncated = False\<rparr>"
  from walk_steps(1) [OF assms(1) walk_ok_empty] obtain r w
    where w: "visit_error rd most hp e 0 [] ?w = Some (r, w)" "visited rd most hp 0 {} [] ?w r w"
    by (fastforce simp: taken_def)
  note V = w(2) [unfolded visited_def]
  from w(1) assms(2) have r: "r = Some 0" by (subst (asm) visit_error.simps) (auto split: prod.splits)
  have hang: "hang 0 {} {0} (wk_nodes w)" and len: "0 < length (wk_nodes w)" using V r by simp_all
  have ok: "walk_ok {} [] w" and g: "grown most {} ?w w" using V by blast+
  have "shaped (wk_nodes w)"
    using walk_okD [OF ok] hang unfolding shaped_def hang_def by simp
  with w(1) r len V grownD(2) [OF g] show ?thesis by simp
qed

lemma read_node_fields:
  obtains name message fs c left where "read_frames lib sanitize (if fatal then 8 else 32) (traceback e) = (fs, c, left)"
    "fst (read_node lib sanitize shown fatal e i) = \<lparr>nd_ident = i, nd_name = name, nd_message = message,
       nd_origin = (if fs = [] then ''unavailable'' else ''runtime_reported''),
       nd_status = (if left then ''truncated'' else if fs = [] then ''unavailable'' else ''parsed''), nd_frames = fs, nd_rels = []\<rparr>"
proof -
  obtain n a where n: "bounded_text sanitize (exception_name e) 256 = (n, a)" by fastforce
  obtain m b where m: "bounded_text sanitize (case group e of Some (s, _) \<Rightarrow> s | None \<Rightarrow> safe_message shown e) (if fatal then 512 else 2048) = (m, b)"
    by fastforce
  obtain fs c left where fs: "read_frames lib sanitize (if fatal then 8 else 32) (traceback e) = (fs, c, left)" by (metis prod_cases3)
  show thesis by (rule that [OF fs]) (simp only: read_node_def n m fs Let_def prod.case fst_conv)
qed

lemma read_reads: "reads (read_node lib sanitize shown fatal)"
  unfolding reads_def
proof (intro allI)
  fix e i
  show "nd_ident (fst (read_node lib sanitize shown fatal e i)) = i \<and> nd_rels (fst (read_node lib sanitize shown fatal e i)) = []"
    by (rule read_node_fields [of lib sanitize fatal e shown i]) simp
qed

text \<open>Frames of a node that was read: how many, and their line numbers.\<close>

definition nd_ok :: "bool \<Rightarrow> Node \<Rightarrow> bool" where
  "nd_ok fatal n \<longleftrightarrow> length (nd_frames n) \<le> (if fatal then 8 else 32) \<and>
     (\<forall>f \<in> set (nd_frames n). \<forall>l. frame_line f = Some l \<longrightarrow> 1 \<le> l \<and> l < 2147483648) \<and>
     nd_origin n \<in> {''unavailable'', ''runtime_reported''} \<and> nd_status n \<in> {''truncated'', ''unavailable'', ''parsed''}"

lemma sint_lt: "sint (x :: 32 word) < 2147483648"
  using sint_lt [of x] by simp

lemma read_frames_ok:
  "read_frames lib sanitize n tb = (fs, c, left) \<Longrightarrow> length fs \<le> n \<and> (\<forall>f \<in> set fs. \<forall>l. frame_line f = Some l \<longrightarrow> 1 \<le> l \<and> l < 2147483648)"
proof (induction lib sanitize n tb arbitrary: fs c left rule: read_frames.induct)
  case (3 lib sanitize n function_name filename line tb)
  obtain fn a where fn: "bounded_text sanitize function_name 256 = (fn, a)" by fastforce
  obtain fl b where loc: "location lib sanitize filename = (fl, b)" by fastforce
  obtain gs d l where gs: "read_frames lib sanitize n tb = (gs, d, l)" by (metis prod_cases3)
  show ?case using "3.prems" "3.IH" [OF fn [symmetric] refl loc [symmetric] refl gs] gs fn loc by (auto simp: sint_lt split: if_splits)
qed auto

lemma read_node_ok: "nd_ok fatal (fst (read_node lib sanitize shown fatal e i))"
proof (rule read_node_fields [of lib sanitize fatal e shown i])
  fix name message fs c left
  assume "read_frames lib sanitize (if fatal then 8 else 32) (traceback e) = (fs, c, left)"
    and n: "fst (read_node lib sanitize shown fatal e i) = \<lparr>nd_ident = i, nd_name = name, nd_message = message,
       nd_origin = (if fs = [] then ''unavailable'' else ''runtime_reported''),
       nd_status = (if left then ''truncated'' else if fs = [] then ''unavailable'' else ''parsed''), nd_frames = fs, nd_rels = []\<rparr>"
  from read_frames_ok [OF this(1)] show "nd_ok fatal (fst (read_node lib sanitize shown fatal e i))"
    unfolding nd_ok_def n by simp
qed

end
