(* ===== verification/Exception_Graph.thy ===== *)
theory Exception_Graph
  imports Exception_Evidence_Facts
begin

text \<open>
  The reductions of a graph that is too large keep its shape, and the evidence boundary accepts what
  \<open>snapshot_exception\<close> returns as long as the sanitized texts are within its limits.
\<close>

subsection \<open>The reductions\<close>

definition skeleton :: "Node list \<Rightarrow> (nat \<times> Relationship list) list" where
  "skeleton ns = map (\<lambda>n. (nd_ident n, nd_rels n)) ns"

definition sound :: "bool \<Rightarrow> Node list \<Rightarrow> bool" where
  "sound fatal ns \<longleftrightarrow> ns \<noteq> [] \<and> length ns \<le> (if fatal then 2 else 8) \<and> shaped ns \<and> list_all (nd_ok fatal) ns"

lemma skeleton_nth:
  assumes "skeleton ns' = skeleton ns"
  shows "length ns' = length ns" "i < length ns \<Longrightarrow> nd_ident (ns' ! i) = nd_ident (ns ! i)"
    "i < length ns \<Longrightarrow> nd_rels (ns' ! i) = nd_rels (ns ! i)" "i < length ns \<Longrightarrow> targets (ns' ! i) = targets (ns ! i)"
proof -
  show len: "length ns' = length ns" using assms unfolding skeleton_def by (metis length_map)
  show "nd_ident (ns' ! i) = nd_ident (ns ! i)" "nd_rels (ns' ! i) = nd_rels (ns ! i)" "targets (ns' ! i) = targets (ns ! i)"
    if "i < length ns"
    using arg_cong [OF assms, of "\<lambda>xs. xs ! i"] that len by (simp_all add: skeleton_def targets_def)
qed

text \<open>Fewer links never make a path longer.\<close>

lemma low_fewer:
  assumes "\<forall>j < n. set (targets (ns' ! j)) \<subseteq> set (targets (ns ! j)) \<inter> {..<n}"
  shows "low k ns i \<Longrightarrow> i < n \<Longrightarrow> low k ns' i"
proof (induction k arbitrary: i)
  case (Suc k)
  show ?case unfolding low_Suc
  proof
    fix t assume "t \<in> set (targets (ns' ! i))"
    with assms Suc.prems(2) have "t \<in> set (targets (ns ! i))" "t < n" by auto
    with Suc show "low k ns' t" unfolding low_Suc by blast
  qed
qed (simp del: not_None_eq)

lemma shaped_same:
  assumes "shaped ns" "skeleton ns' = skeleton ns"
  shows "shaped ns'"
proof -
  note S = skeleton_nth [OF assms(2)]
  have closed: "set (targets (ns ! i)) \<subseteq> {..<length ns}" if "i < length ns" for i using assms(1) that by (simp add: shaped_def)
  have "low 5 ns' i" if "i < length ns" for i
    by (rule low_fewer [of "length ns" ns' ns]) (use assms(1) closed S that in \<open>auto simp: shaped_def\<close>)
  moreover have "\<exists>p < j. j \<in> set (targets (ns' ! p))" if j: "j < length ns" "0 < j" for j
  proof -
    from assms(1) j obtain p where "p < j" "j \<in> set (targets (ns ! p))" unfolding shaped_def by blast
    with j S(4) [of p] show ?thesis by auto
  qed
  ultimately show ?thesis using assms(1) S unfolding shaped_def by simp
qed

lemma rels_ok_filter:
  assumes "rels_ok rs"
  shows "rels_ok (filter P rs)"
proof -
  have "filter (\<lambda>r. causal (rel_kind r)) (filter P rs) = filter P (filter (\<lambda>r. causal (rel_kind r)) rs)"
    by (simp add: conj_commute)
  then have "length (filter (\<lambda>r. causal (rel_kind r)) (filter P rs)) \<le> length (filter (\<lambda>r. causal (rel_kind r)) rs)"
    by (metis length_filter_le)
  moreover have "length (filter P rs) \<le> length rs" by simp
  ultimately show ?thesis using assms unfolding rels_ok_def by (intro conjI) (auto simp del: filter_filter length_filter_le)
qed

lemma drop_targets: "set (targets (drop_target t n)) = set (targets n) - {t}"
  by (auto simp: drop_target_def targets_def)

lemma shaped_drop:
  assumes "shaped ns" "1 < length ns"
  shows "shaped (map (drop_target (nd_ident (last ns))) (butlast ns))" (is "shaped ?ns")
proof -
  let ?m = "length ns - 1"
  have last: "nd_ident (last ns) = ?m" using assms last_conv_nth [of ns] by (cases "ns = []") (simp_all add: shaped_def)
  have tg: "set (targets (?ns ! i)) = set (targets (ns ! i)) - {?m}" if "i < ?m" for i
    using that by (simp add: nth_butlast drop_targets last)
  have closed: "set (targets (?ns ! i)) \<subseteq> set (targets (ns ! i)) \<inter> {..<?m}" if i: "i < ?m" for i
  proof -
    have "set (targets (ns ! i)) \<subseteq> {..<length ns}" using assms(1) i by (simp add: shaped_def)
    with tg [OF i] assms(2) show ?thesis by auto
  qed
  have "low 5 ?ns i" if i: "i < ?m" for i
    by (rule low_fewer [of ?m ?ns ns]) (use assms(1) closed i in \<open>simp_all add: shaped_def del: not_None_eq\<close>)
  moreover have "\<exists>p < j. j \<in> set (targets (?ns ! p))" if j: "j < ?m" "0 < j" for j
  proof -
    have "j < length ns" using j(1) by simp
    with assms(1) j(2) obtain p where p: "p < j" "j \<in> set (targets (ns ! p))" unfolding shaped_def by blast
    with j(1) tg [of p] show ?thesis by auto
  qed
  moreover have "nd_ident (?ns ! i) = i \<and> rels_ok (nd_rels (?ns ! i))" if i: "i < ?m" for i
    using assms(1) i rels_ok_filter [of "nd_rels (ns ! i)"] by (simp add: nth_butlast drop_target_def shaped_def)
  ultimately show ?thesis using closed unfolding shaped_def by (simp del: not_None_eq) 
qed

text \<open>What a reduction of frames and texts leaves as it is.\<close>

definition kept :: "bool \<Rightarrow> ExceptionEvidence \<Rightarrow> ExceptionEvidence \<Rightarrow> bool" where
  "kept fatal g g' \<longleftrightarrow> skeleton (ev_nodes g') = skeleton (ev_nodes g) \<and>
     (list_all (nd_ok fatal) (ev_nodes g) \<longrightarrow> list_all (nd_ok fatal) (ev_nodes g')) \<and>
     ev_truncated g' = ev_truncated g \<and> ev_unavailable g' = ev_unavailable g"

lemma kept_refl [simp]: "kept fatal g g"
  by (simp add: kept_def)

lemma kept_trans: "kept fatal g g' \<Longrightarrow> kept fatal g' g'' \<Longrightarrow> kept fatal g g''"
  by (simp add: kept_def)

lemma kept_pop:
  assumes "i < length (ev_nodes g)"
  shows "kept fatal g (g\<lparr>ev_nodes := (ev_nodes g)[i := (ev_nodes g ! i)\<lparr>
    nd_frames := butlast (nd_frames (ev_nodes g ! i)), nd_status := ''truncated''\<rparr>]\<rparr>)"
proof -
  let ?n = "ev_nodes g ! i"
  let ?n' = "?n\<lparr>nd_frames := butlast (nd_frames ?n), nd_status := ''truncated''\<rparr>"
  have "skeleton ((ev_nodes g)[i := ?n']) = skeleton (ev_nodes g)"
    using assms by (simp add: skeleton_def map_update list_update_same_conv)
  moreover have "nd_ok fatal ?n'" if "nd_ok fatal ?n"
    using that by (auto simp: nd_ok_def dest!: in_set_butlastD split: if_splits)
  ultimately show ?thesis using assms set_update_subset_insert [of "ev_nodes g" i ?n'] by (auto simp: kept_def list_all_iff)
qed

lemma kept_frames: "kept fatal g (pop_frames fr maximum i g)"
proof (induction fr maximum i g rule: pop_frames.induct)
  case (1 fr maximum i g)
  show ?case
  proof (cases "i < length (ev_nodes g) \<and> nd_frames (ev_nodes g ! i) \<noteq> [] \<and> maximum < int (graph_bytes fr g)")
    case True
    from kept_trans [OF kept_pop "1.IH" [OF True]] True show ?thesis unfolding pop_frames.simps [of fr maximum i g] if_P [OF True] by blast
  next
    case False
    show ?thesis unfolding pop_frames.simps [of fr maximum i g] if_not_P [OF False] by simp
  qed
qed

lemma kept_all_frames: "kept fatal g (fold (pop_frames fr maximum) is g)"
  by (induction "is" arbitrary: g) (auto intro: kept_trans kept_frames)

lemma kept_texts: "kept fatal g (g\<lparr>ev_nodes := map (cut_texts sanitize b) (ev_nodes g)\<rparr>)"
  by (simp add: kept_def skeleton_def cut_texts_def nd_ok_def list_all_iff)

lemma sound_kept:
  assumes "kept fatal g g'" "sound fatal (ev_nodes g)"
  shows "sound fatal (ev_nodes g')"
proof -
  have s: "skeleton (ev_nodes g') = skeleton (ev_nodes g)" using assms(1) by (simp add: kept_def)
  from skeleton_nth(1) [OF s] have "ev_nodes g' \<noteq> []" using assms(2) by (auto simp: sound_def)
  with s skeleton_nth(1) [OF s] shaped_same [OF _ s] assms show ?thesis by (simp add: sound_def kept_def)
qed

lemma sound_drop:
  assumes "sound fatal ns" "1 < length ns"
  shows "sound fatal (map (drop_target (nd_ident (last ns))) (butlast ns))" (is "sound fatal ?ns")
proof -
  have "length ?ns \<le> length ns" by simp
  then have "length ?ns \<le> (if fatal then 2 else 8)" using assms(1) unfolding sound_def by linarith
  moreover have "?ns \<noteq> []" using assms(2) by (cases ns) auto
  moreover have "list_all (nd_ok fatal) ?ns"
    using assms(1) by (auto simp: sound_def list_all_iff drop_target_def nd_ok_def dest: in_set_butlastD)
  ultimately show ?thesis using shaped_drop [OF _ assms(2)] assms(1) by (simp add: sound_def)
qed

lemma sound_nodes:
  "sound fatal (ev_nodes g) \<Longrightarrow> sound fatal (ev_nodes (pop_nodes fr maximum g)) \<and>
     ev_truncated (pop_nodes fr maximum g) = ev_truncated g \<and> ev_unavailable (pop_nodes fr maximum g) = ev_unavailable g"
proof (induction fr maximum g rule: pop_nodes.induct)
  case (1 fr maximum g)
  show ?case
  proof (cases "1 < length (ev_nodes g) \<and> maximum < int (graph_bytes fr g)")
    case True
    from "1.IH" [OF True] sound_drop [OF "1.prems"] True show ?thesis
      unfolding pop_nodes.simps [of fr maximum g] if_P [OF True] by simp
  next
    case False
    show ?thesis unfolding pop_nodes.simps [of fr maximum g] if_not_P [OF False] using "1.prems" by simp
  qed
qed

definition reason_ok :: "ExceptionEvidence \<Rightarrow> bool" where
  "reason_ok g \<longleftrightarrow> (if ev_truncated g then ev_unavailable g = Some ''budget_exceeded'' else ev_unavailable g = None)"

lemma shrink_sound:
  assumes "sound fatal (ev_nodes g)"
  shows "sound fatal (ev_nodes (shrink sanitize fr fatal maximum g)) \<and> reason_ok (shrink sanitize fr fatal maximum g)"
proof -
  let ?g = "g\<lparr>ev_truncated := True, ev_unavailable := Some ''budget_exceeded''\<rparr>"
  let ?g1 = "fold (pop_frames fr maximum) (rev [0..<length (ev_nodes ?g)]) ?g"
  let ?g2 = "if maximum < int (graph_bytes fr ?g1) then ?g1\<lparr>ev_nodes := map (cut_texts sanitize fatal) (ev_nodes ?g1)\<rparr> else ?g1"
  have k1: "kept fatal ?g ?g1" by (rule kept_all_frames)
  have k2: "kept fatal ?g1 ?g2" using kept_texts by simp
  have k: "kept fatal ?g ?g2" by (rule kept_trans [OF k1 k2])
  have "sound fatal (ev_nodes ?g2)" by (rule sound_kept [OF k]) (use assms in simp)
  from sound_nodes [OF this] k show ?thesis unfolding shrink_def Let_def reason_ok_def kept_def by simp
qed

text \<open>Everything that \<open>snapshot_exception\<close> returns.\<close>

lemma snapshot_sound:
  assumes "snapshot_exception lib sanitize shown fr hp e fatal budget = Some g"
  shows "sound fatal (ev_nodes g) \<and> reason_ok g \<and>
    int (graph_bytes fr g) \<le> min (if fatal then 4096 else 32768) (case budget of None \<Rightarrow> 32768 | Some b \<Rightarrow> b)"
proof -
  define maximum :: int where "maximum = min (if fatal then 4096 else 32768) (case budget of None \<Rightarrow> 32768 | Some b \<Rightarrow> b)"
  let ?rd = "read_node lib sanitize shown fatal"
  have limit: "0 < (if fatal then 2 else 8 :: nat)" by simp
  obtain w where w: "visit_error ?rd (if fatal then 2 else 8) hp e 0 [] \<lparr>wk_nodes = [], wk_identities = [], wk_truncated = False\<rparr> = Some (Some 0, w)"
    and ok: "wk_nodes w \<noteq> []" "length (wk_nodes w) \<le> (if fatal then 2 else 8)" "shaped (wk_nodes w)" "taken ?rd hp (wk_nodes w)"
    using walk_returns [OF read_reads, of "if fatal then 2 else 8" lib sanitize shown fatal hp e] limit by blast
  have "nd_ok fatal (wk_nodes w ! j)" if "j < length (wk_nodes w)" for j
  proof -
    from ok(4) that obtain x where x: "wk_nodes w ! j = (fst (?rd (hp x) j))\<lparr>nd_rels := nd_rels (wk_nodes w ! j)\<rparr>" by (auto simp: taken_def)
    have "nd_ok fatal (n\<lparr>nd_rels := rs\<rparr>) = nd_ok fatal n" for n rs by (simp add: nd_ok_def)
    with x read_node_ok show ?thesis by metis
  qed
  with ok have s: "sound fatal (wk_nodes w)" by (simp add: sound_def list_all_length)
  define g0 where "g0 = \<lparr>ev_nodes = wk_nodes w, ev_truncated = wk_truncated w, ev_unavailable = None\<rparr>"
  define g1 where "g1 = (if maximum < int (graph_bytes fr g0) then shrink sanitize fr fatal maximum g0 else g0)"
  define g2 where "g2 = (if ev_truncated g1 \<and> ev_unavailable g1 = None then g1\<lparr>ev_unavailable := Some ''budget_exceeded''\<rparr> else g1)"
  have "snapshot_exception lib sanitize shown fr hp e fatal budget =
      (if maximum < 512 then None else if ev_nodes g2 \<noteq> [] \<and> int (graph_bytes fr g2) \<le> maximum then Some g2 else None)"
    unfolding snapshot_exception_def Let_def w option.case prod.case
    unfolding maximum_def [symmetric] g0_def [symmetric]
    unfolding g1_def [symmetric] unfolding g2_def [symmetric] ..
  with assms have "g = g2" and max: "int (graph_bytes fr g2) \<le> maximum" by (simp_all split: if_splits)
  moreover have "sound fatal (ev_nodes g2) \<and> reason_ok g2"
  proof (cases "maximum < int (graph_bytes fr g0)")
    case True
    have "sound fatal (ev_nodes g1) \<and> reason_ok g1" using shrink_sound [of fatal g0] s True by (simp add: g1_def g0_def)
    then show ?thesis by (auto simp: g2_def reason_ok_def split: if_splits)
  next
    case False
    then have "g1 = g0" by (simp add: g1_def)
    moreover have "sound fatal (ev_nodes g0)" "ev_unavailable g0 = None" using s by (simp_all add: g0_def)
    ultimately show ?thesis by (simp add: g2_def reason_ok_def)
  qed
  ultimately show ?thesis unfolding maximum_def by blast
qed

subsection \<open>Sizes\<close>

text \<open>A value within the limits of the count, but for its size: then the count is complete.\<close>

fun narrow :: "pyval \<Rightarrow> bool" where
  "narrow (PList xs) = (length xs \<le> 256 \<and> list_all narrow xs)"
| "narrow (PDict d) = (length d \<le> 256 \<and> str_keys d \<and> list_all (\<lambda>kv. narrow (snd kv)) d)"
| "narrow (PTuple xs) = False"
| "narrow (PObj n) = False"
| "narrow v = True"

lemma count_complete:
  "plain_numbers v \<Longrightarrow> narrow v \<Longrightarrow> int (nodes v) \<le> r \<Longrightarrow> depth + depth_of v \<le> 16 \<Longrightarrow>
     \<exists>n. count fr v depth r = Some (n, r - int (nodes v)) \<and> json_bytes False nk fr v = Some n"
  "plain_list xs \<Longrightarrow> list_all narrow xs \<Longrightarrow> int (nodes_list xs) \<le> r \<Longrightarrow> depth + depth_list xs \<le> 17 \<Longrightarrow>
     \<exists>ts. count_list fr xs depth r = Some (sum_list (map utf8_len ts), r - int (nodes_list xs)) \<and> json_list False nk fr xs = Some ts"
  "plain_items d \<Longrightarrow> list_all (\<lambda>kv. narrow (snd kv)) d \<Longrightarrow> str_keys d \<Longrightarrow> int (nodes_items d) \<le> r \<Longrightarrow> depth + depth_items d \<le> 17 \<Longrightarrow> depth \<le> 16 \<Longrightarrow>
     \<exists>ts. count_items fr d depth r = Some (sum_list (map utf8_len ts), r - int (nodes_items d)) \<and> json_items False nk fr d = Some ts"
proof (induction fr v depth r and fr xs depth r and fr d depth r rule: count_count_list_count_items.induct)
  case (1 fr xs depth r)
  have go: "\<not> (stopped depth (r - 1) \<or> 256 < length xs)" using "1.prems" by (auto simp: stopped_def)
  from "1.IH" [OF go] "1.prems" obtain ts where
    "count_list fr xs (Suc depth) (r - 1) = Some (sum_list (map utf8_len ts), r - 1 - int (nodes_list xs))" "json_list False nk fr xs = Some ts" by auto
  with go json_list_length [OF this(2)] show ?case by (simp add: json_bytes_def utf8_len_join)
next
  case (2 fr d depth r)
  have go: "\<not> (stopped depth (r - 1) \<or> 256 < length d \<or> \<not> str_keys d)" using "2.prems" by (auto simp: stopped_def)
  show ?case
  proof (cases d)
    case Nil
    with go show ?thesis by (simp add: json_bytes_def)
  next
    case (Cons kv d')
    then have "depth < 16" using "2.prems" by (cases kv) auto
    with "2.IH" [OF go] "2.prems" obtain ts where
      "count_items fr d (Suc depth) (r - 1) = Some (sum_list (map utf8_len ts), r - 1 - int (nodes_items d))" "json_items False nk fr d = Some ts" by auto
    with go json_items_length [OF this(2)] show ?thesis by (simp add: json_bytes_def utf8_len_join)
  qed
next
  case (11 fr x xs depth r)
  have r: "int (nodes x) \<le> r" "depth + depth_of x \<le> 16" and ds: "depth + depth_list xs \<le> 17" using "11.prems" by auto
  from "11.IH"(1) [OF _ _ r] "11.prems" obtain a where a: "count fr x depth r = Some (a, r - int (nodes x))" "json_bytes False nk fr x = Some a" by auto
  from "11.IH"(2) [OF a(1) refl _ _ _ ds] "11.prems" obtain ts where
    "count_list fr xs depth (r - int (nodes x)) = Some (sum_list (map utf8_len ts), r - int (nodes x) - int (nodes_list xs))" "json_list False nk fr xs = Some ts" by auto
  with a show ?case by (auto simp: json_bytes_def)
next
  case (13 fr k v d depth r)
  then obtain s where k: "k = PStr s" by (auto elim: is_str_cases)
  have r: "0 \<le> r - 1" "int (nodes v) \<le> r - 1" "depth + depth_of v \<le> 16" and ds: "depth + depth_items d \<le> 17" using "13.prems" by auto
  have ck: "count fr k depth r = Some (utf8_len (json_str False s), r - 1)" using r(1) "13.prems" k by (simp add: stopped_def)
  from "13.IH"(2) [OF ck refl _ _ r(2,3)] "13.prems" obtain b where b: "count fr v depth (r - 1) = Some (b, r - 1 - int (nodes v))" "json_bytes False nk fr v = Some b" by auto
  from "13.IH"(3) [OF ck refl b(1) refl _ _ _ _ ds] "13.prems" obtain ts where
    "count_items fr d depth (r - 1 - int (nodes v)) = Some (sum_list (map utf8_len ts), r - 1 - int (nodes v) - int (nodes_items d))" "json_items False nk fr d = Some ts" by auto
  with ck b k show ?case by (auto simp: json_bytes_def)
qed (auto simp: stopped_def json_bytes_def)

lemma canonical_complete:
  assumes "plain_numbers v" "narrow v" "nodes v \<le> 4096" "depth_of v \<le> 16"
  shows "json_bytes False nk fr v = Some (canonical_size fr v)"
  using count_complete(1) [OF assms(1,2), of 4096 0 fr nk] assms(3,4) by (auto simp: canonical_size_def)

lemma plain_list_all: "plain_list xs = list_all plain_numbers xs"
  by (induction xs) auto

lemma nodes_list_le: "\<forall>x \<in> set xs. nodes x \<le> k \<Longrightarrow> nodes_list xs \<le> length xs * k"
  by (induction xs) fastforce+

lemma depth_list_le: "\<forall>x \<in> set xs. depth_of x \<le> k \<Longrightarrow> depth_list xs \<le> Suc k"
  by (induction xs) auto

lemma frame_sizes:
  "nodes (frame_value f) = 11" "depth_of (frame_value f) = 1" "narrow (frame_value f)"
  "(\<And>l. frame_line f = Some l \<Longrightarrow> 1 \<le> l \<and> l < 2147483648) \<Longrightarrow> plain_numbers (frame_value f)"
  by (auto simp: frame_value_def opt_str_def str_keys_def split: option.splits)

lemma rel_sizes:
  "nodes (rel_value r) = 5" "depth_of (rel_value r) = 1" "narrow (rel_value r)" "rel_target r < 8 \<Longrightarrow> plain_numbers (rel_value r)"
  by (auto simp: rel_value_def str_keys_def)

lemma node_sizes:
  assumes "nd_ok fatal n" "length (nd_rels n) \<le> 5" "\<forall>t \<in> set (targets n). t < 8" "nd_ident n < 8"
  shows "nodes (node_value n) \<le> 394" "depth_of (node_value n) \<le> 3" "narrow (node_value n)" "plain_numbers (node_value n)"
proof -
  have frames: "length (nd_frames n) \<le> 32" using assms(1) by (simp add: nd_ok_def split: if_splits)
  have "nodes_list (map frame_value (nd_frames n)) \<le> 32 * 11" "nodes_list (map rel_value (nd_rels n)) \<le> 5 * 5"
    using nodes_list_le [of "map frame_value (nd_frames n)" 11] nodes_list_le [of "map rel_value (nd_rels n)" 5] frames assms(2)
    by (simp_all add: frame_sizes rel_sizes)
  then show "nodes (node_value n) \<le> 394" by (simp add: node_value_def)
  have "depth_list (map frame_value (nd_frames n)) \<le> 2" "depth_list (map rel_value (nd_rels n)) \<le> 2"
    using depth_list_le [of "map frame_value (nd_frames n)" 1] depth_list_le [of "map rel_value (nd_rels n)" 1]
    by (simp_all add: frame_sizes rel_sizes numeral_2_eq_2)
  then show "depth_of (node_value n) \<le> 3" by (simp add: node_value_def)
  show "narrow (node_value n)" using frames assms(2) by (simp add: node_value_def list_all_iff frame_sizes rel_sizes str_keys_def)
  have "plain_numbers (frame_value f)" if "f \<in> set (nd_frames n)" for f
    using assms(1) that by (intro frame_sizes(4)) (auto simp: nd_ok_def)
  then show "plain_numbers (node_value n)"
    using assms(3,4) by (auto simp: node_value_def plain_list_all list_all_iff targets_def intro: rel_sizes(4))
qed

subsection \<open>The boundary\<close>

definition fits :: "nat \<Rightarrow> string \<Rightarrow> bool" where
  "fits m s \<longleftrightarrow> length s \<le> m \<and> utf8_len s \<le> m"

definition frame_fits :: "Frame \<Rightarrow> bool" where
  "frame_fits f \<longleftrightarrow> (case frame_function f of None \<Rightarrow> True | Some s \<Rightarrow> fits 256 s) \<and> (case frame_file f of None \<Rightarrow> True | Some s \<Rightarrow> fits 2048 s)"

definition node_fits :: "Node \<Rightarrow> bool" where
  "node_fits n \<longleftrightarrow> fits 256 (nd_name n) \<and> fits 2048 (nd_message n) \<and> list_all frame_fits (nd_frames n)"

definition texts_fit :: "ExceptionEvidence \<Rightarrow> bool" where
  "texts_fit g \<longleftrightarrow> list_all node_fits (ev_nodes g)"

lemma integer_int: "integer (PInt i) lo hi \<longleftrightarrow> 0 \<le> i \<and> i \<le> max_double \<and> lo \<le> i \<and> (case hi of None \<Rightarrow> True | Some h \<Rightarrow> i \<le> h)"
  by (auto simp: integer_def number_def split: option.splits)

lemma int_of_int [simp]: "int_of (PInt i) = i"
  by (simp add: int_of_def)

lemma frame_accepted:
  assumes "\<And>l. frame_line f = Some l \<Longrightarrow> 1 \<le> l \<and> l < 2147483648"
  shows "frame_ok (frame_value f) \<longleftrightarrow> frame_fits f"
proof -
  have "l \<le> max_double" if "l < 2147483648" for l by (rule max_double_ge) (use that in simp)
  with assms show ?thesis
    by (cases "frame_function f"; cases "frame_file f"; cases "frame_line f")
      (auto simp: frame_value_def opt_str_def frame_fits_def fits_def dgetn_def integer_int has_key_def null_or_def str_keys_def)
qed

text \<open>The links of a node: what the loop over them collects.\<close>

lemma edges_accepted:
  "length (filter (\<lambda>r. causal (rel_kind r)) rs) \<le> 1 \<Longrightarrow> distinct rs \<Longrightarrow> \<forall>r \<in> set rs. (causal (rel_kind r) \<or> rel_kind r = ''aggregate'') \<and> rel_target r < 8 \<and>
       (rel_kind r, int (rel_target r)) \<notin> set seen \<Longrightarrow>
   graph_edges (map rel_value rs) seen c ts =
     Some (c + length (filter (\<lambda>r. causal (rel_kind r)) rs), ts @ map (\<lambda>r. int (rel_target r)) rs)"
proof (induction rs arbitrary: seen c ts)
  case (Cons r rs)
  have d: "int (rel_target r) \<le> max_double" by (rule max_double_ge) (use Cons.prems(3) in auto)
  have e: "graph_edges (map rel_value (r # rs)) seen c ts =
      graph_edges (map rel_value rs) ((rel_kind r, int (rel_target r)) # seen) (c + (if causal (rel_kind r) then 1 else 0)) (ts @ [int (rel_target r)])"
    using Cons.prems(3) d by (auto simp: rel_value_def dgetn_def integer_int has_key_def str_keys_def causal_def)
  have "(rel_kind x, int (rel_target x)) \<noteq> (rel_kind r, int (rel_target r))" if "x \<in> set rs" for x
    using Cons.prems(2) that by (cases x; cases r) auto
  then show ?case unfolding e using Cons.prems by (subst Cons.IH) (auto split: if_splits)
qed simp

lemma node_fields_accepted:
  assumes "nd_ok fatal n" "nd_ident n < 8"
  shows "node_fields [(PStr ''id'', PInt (int (nd_ident n))), (PStr ''name'', PStr (nd_name n)),
     (PStr ''message'', PStr (nd_message n)), (PStr ''stack'', PNone), (PStr ''trace_origin'', PStr (nd_origin n)),
     (PStr ''parsing_status'', PStr (nd_status n)), (PStr ''frames'', PList fs),
     (PStr ''relationships'', PList rs)] \<longleftrightarrow> fits 256 (nd_name n) \<and> fits 2048 (nd_message n)"
proof -
  have d: "int (nd_ident n) \<le> max_double" by (rule max_double_ge) (use assms(2) in simp)
  show ?thesis
    using assms d by (auto simp: node_fields_def dgetn_def integer_int has_key_def str_keys_def null_or_def fits_def nd_ok_def)
qed

definition adjacency :: "Node list \<Rightarrow> (int \<times> int list) list" where
  "adjacency ns = map (\<lambda>n. (int (nd_ident n), map int (targets n))) ns"

lemma update_new: "k \<notin> set (map fst d) \<Longrightarrow> AList.update k v d = d @ [(k, v)]"
  by (induction d) auto

lemma nodes_accepted:
  "\<forall>n \<in> set ns. nd_ok fatal n \<and> nd_ident n < 8 \<and> rels_ok (nd_rels n) \<and> (\<forall>t \<in> set (targets n). t < 8) \<Longrightarrow>
   distinct (map nd_ident ns) \<Longrightarrow> \<forall>n \<in> set ns. int (nd_ident n) \<notin> set (map fst adj) \<Longrightarrow>
   graph_nodes (map node_value ns) adj = (if list_all node_fits ns then Some (adj @ adjacency ns) else None)"
proof (induction ns arbitrary: adj)
  case (Cons n ns)
  note n = Cons.prems(1) [rule_format, of n, simplified]
  have fr: "list_all frame_ok (map frame_value (nd_frames n)) \<longleftrightarrow> list_all frame_fits (nd_frames n)"
    using n by (auto simp: list_all_iff nd_ok_def frame_accepted)
  have len: "length (nd_frames n) \<le> 32" "length (nd_rels n) \<le> 5" using n by (auto simp: nd_ok_def rels_ok_def split: if_splits)
  have ed: "graph_edges (map rel_value (nd_rels n)) [] 0 [] =
      Some (length (filter (\<lambda>r. causal (rel_kind r)) (nd_rels n)), map int (targets n))"
    using n edges_accepted [of "nd_rels n" "[]" 0 "[]"] by (simp add: rels_ok_def targets_def)
  have one: "length (filter (\<lambda>r. causal (rel_kind r)) (nd_rels n)) \<le> 1" using n by (simp add: rels_ok_def)
  have new: "int (nd_ident n) \<notin> set (map fst adj)" using Cons.prems(3) by simp
  have "graph_nodes (map node_value (n # ns)) adj =
      (if node_fits n then graph_nodes (map node_value ns) (adj @ [(int (nd_ident n), map int (targets n))]) else None)"
    using node_fields_accepted [of fatal n] n fr len ed one new
    by (simp add: node_value_def dgetn_def node_fits_def update_new)
  moreover have "graph_nodes (map node_value ns) (adj @ [(int (nd_ident n), map int (targets n))]) =
      (if list_all node_fits ns then Some ((adj @ [(int (nd_ident n), map int (targets n))]) @ adjacency ns) else None)"
  proof (rule Cons.IH)
    have "nd_ident m \<noteq> nd_ident n" if "m \<in> set ns" for m using Cons.prems(2) that by (auto simp: image_iff)
    then show "\<forall>m \<in> set ns. int (nd_ident m) \<notin> set (map fst (adj @ [(int (nd_ident n), map int (targets n))]))"
      using Cons.prems(3) by simp
  qed (use Cons.prems in simp_all)
  ultimately show ?case by (simp add: adjacency_def)
qed (simp add: adjacency_def)

text \<open>The walk of the boundary over such a graph succeeds and sees everything below its start.\<close>

lemma height_Suc: "height k ns i = Some h \<Longrightarrow> height (Suc k) ns i = Some h"
proof (induction k arbitrary: i h)
  case (Suc k)
  from Suc.prems obtain hs where hs: "map (height k ns) (targets (ns ! i)) = map Some hs" "h = fold max (map Suc hs) 0"
    by (auto simp: height.simps(2) [of k] those_Some)
  have "map (height (Suc k) ns) (targets (ns ! i)) = map Some hs"
  proof (rule nth_equalityI)
    show len: "length (map (height (Suc k) ns) (targets (ns ! i))) = length (map Some hs)" using arg_cong [OF hs(1), of length] by simp
    show "map (height (Suc k) ns) (targets (ns ! i)) ! j = map Some hs ! j" if "j < length (map (height (Suc k) ns) (targets (ns ! i)))" for j
      using arg_cong [OF hs(1), of "\<lambda>xs. xs ! j"] that len Suc.IH by simp
  qed
  with hs(2) show ?case by (simp add: height.simps(2) [of "Suc k"] those_Some)
qed (simp add: height.simps)

lemma height_edge:
  assumes "height k ns i = Some h" "t \<in> set (targets (ns ! i))"
  obtains h' where "height k ns t = Some h'" "h' < h"
proof -
  from assms(1) obtain m where k: "k = Suc m" by (cases k) (auto simp: height.simps)
  with assms(1) obtain hs where hs: "map (height m ns) (targets (ns ! i)) = map Some hs" "h = fold max (map Suc hs) 0"
    by (auto simp: height.simps(2) [of m] those_Some)
  from assms(2) hs(1) obtain h' where h': "height m ns t = Some h'" "h' \<in> set hs"
    by (metis image_iff image_set in_set_conv_nth length_map nth_map)
  have "h' < h" using hs(2) h'(2) fold_max_le [of hs 0 h] by simp
  with height_Suc [OF h'(1)] k show thesis by (intro that) simp_all
qed

lemma map_of_adjacency:
  assumes "\<forall>i < length ns. nd_ident (ns ! i) = i" "i < length ns"
  shows "map_of (adjacency ns) (int i) = Some (map int (targets (ns ! i)))"
proof -
  have "distinct (map nd_ident ns)"
  proof -
    have "map nd_ident ns = [0..<length ns]" using assms(1) by (intro nth_equalityI) simp_all
    then show ?thesis by simp
  qed
  then have "distinct (map fst (adjacency ns))" by (simp add: adjacency_def comp_def distinct_map inj_on_def)
  moreover have "(int i, map int (targets (ns ! i))) \<in> set (adjacency ns)"
    unfolding adjacency_def using assms by (force simp: image_iff in_set_conv_nth)
  ultimately show ?thesis by simp
qed

lemma visit_accepted:
  "shaped ns \<Longrightarrow> adj = adjacency ns \<Longrightarrow> x = int i \<Longrightarrow> i < length ns \<Longrightarrow> height 5 ns i = Some h \<Longrightarrow> depth + h \<le> 4 \<Longrightarrow>
     \<forall>a \<in> set anc. \<exists>b h'. a = int b \<and> height 5 ns b = Some h' \<and> h < h' \<Longrightarrow> \<exists>vis'. visit adj x depth anc vis = (True, vis')"
  "shaped ns \<Longrightarrow> adj = adjacency ns \<Longrightarrow>
     \<forall>c \<in> set cs. \<exists>i h. c = int i \<and> i < length ns \<and> height 5 ns i = Some h \<and> depth + h \<le> 4 \<and>
       (\<forall>a \<in> set anc. \<exists>b h'. a = int b \<and> height 5 ns b = Some h' \<and> h < h') \<Longrightarrow> \<exists>vis'. visit_all adj cs depth anc vis = (True, vis')"
proof (induction adj x depth anc vis and adj cs depth anc vis arbitrary: i h and rule: visit_visit_all.induct)
  case (1 adj x depth anc vis)
  have cs: "map_of adj x = Some (map int (targets (ns ! i)))"
    using map_of_adjacency [of ns i] "1.prems" by (simp add: shaped_def)
  have go: "\<not> (x \<in> set anc \<or> 4 < depth)" using "1.prems" by fastforce
  have "\<exists>j h'. c = int j \<and> j < length ns \<and> height 5 ns j = Some h' \<and> Suc depth + h' \<le> 4 \<and>
      (\<forall>a \<in> set (x # anc). \<exists>b h''. a = int b \<and> height 5 ns b = Some h'' \<and> h' < h'')"
    if "c \<in> set (map int (targets (ns ! i)))" for c
  proof -
    from that obtain t where t: "c = int t" "t \<in> set (targets (ns ! i))" by auto
    have "t < length ns" using "1.prems"(1,4) t(2) by (auto simp: shaped_def)
    moreover obtain h' where h': "height 5 ns t = Some h'" "h' < h" by (rule height_edge [OF "1.prems"(5) t(2)])
    moreover have "\<exists>b h''. a = int b \<and> height 5 ns b = Some h'' \<and> h' < h''" if "a \<in> set (x # anc)" for a
      using that "1.prems"(3,5,7) h'(2) by (auto intro: less_trans)
    ultimately show ?thesis using t(1) "1.prems"(6) by (intro exI [of _ t] exI [of _ h']) simp
  qed
  then have "\<exists>vis'. visit_all adj (map int (targets (ns ! i))) (Suc depth) (x # anc) (List.insert x vis) = (True, vis')"
    by (intro "1.IH" [OF cs go "1.prems"(1,2)]) blast
  then show ?case using cs go by simp
next
  case (3 adj c cs depth anc vis)
  from "3.prems"(3) obtain i h where c: "c = int i" "i < length ns" "height 5 ns i = Some h" "depth + h \<le> 4"
    "\<forall>a \<in> set anc. \<exists>b h'. a = int b \<and> height 5 ns b = Some h' \<and> h < h'" by auto
  from "3.IH"(1) [OF "3.prems"(1,2) c] obtain v where v: "visit adj c depth anc vis = (True, v)" by blast
  from "3.IH"(2) [OF v [symmetric] refl "3.prems"(1,2)] "3.prems"(3) show ?case using v by (simp del: visit.simps)
qed simp

lemma visit_sees:
  "visit adj x depth anc vis = (True, vis') \<Longrightarrow> set vis \<subseteq> set vis' \<and> (\<forall>n y. (edge adj ^^ n) x y \<longrightarrow> y \<in> set vis')"
  "visit_all adj cs depth anc vis = (True, vis') \<Longrightarrow> set vis \<subseteq> set vis' \<and> (\<forall>c \<in> set cs. \<forall>n y. (edge adj ^^ n) c y \<longrightarrow> y \<in> set vis')"
proof (induction adj x depth anc vis and adj cs depth anc vis arbitrary: vis' and vis' rule: visit_visit_all.induct)
  case (1 adj x depth anc vis)
  from "1.prems" obtain cs where cs: "map_of adj x = Some cs" and go: "\<not> (x \<in> set anc \<or> 4 < depth)"
    and all: "visit_all adj cs (Suc depth) (x # anc) (List.insert x vis) = (True, vis')"
    by (auto split: option.splits if_splits)
  note below = "1.IH" [OF cs go all]
  have "y \<in> set vis'" if path: "(edge adj ^^ n) x y" for n y
  proof (cases n)
    case 0
    with path below show ?thesis by auto
  next
    case (Suc m)
    from path Suc obtain c where "edge adj x c" and "(edge adj ^^ m) c y" by (metis relpowp_Suc_D2)
    with below cs show ?thesis by (fastforce simp: edge_def)
  qed
  with below show ?case by auto
next
  case (3 adj c cs depth anc vis)
  from "3.prems" obtain v where c: "visit adj c depth anc vis = (True, v)" and rest: "visit_all adj cs depth anc v = (True, vis')"
    by (auto simp del: visit.simps split: prod.splits bool.splits)
  from "3.IH"(1) [OF c] "3.IH"(2) [OF c [symmetric] refl rest] show ?case by auto
qed simp

lemma height_less: "height k ns i = Some h \<Longrightarrow> h < k"
proof (induction k arbitrary: i h)
  case (Suc k)
  then obtain hs where hs: "map (height k ns) (targets (ns ! i)) = map Some hs" "h = fold max (map Suc hs) 0"
    by (auto simp: height.simps(2) [of k] those_Some)
  have "x < k" if "x \<in> set hs" for x
  proof -
    from that have "Some x \<in> set (map (height k ns) (targets (ns ! i)))" unfolding hs(1) by simp
    then obtain t where "height k ns t = Some x" by auto
    then show ?thesis by (rule Suc.IH)
  qed
  with hs(2) show ?case using fold_max_le [of hs 0 k] by simp
qed (simp add: height.simps)

lemma shaped_visit:
  assumes "shaped ns" "ns \<noteq> []"
  shows "\<exists>vis. visit (adjacency ns) 0 0 [] [] = (True, vis) \<and> length vis = length (adjacency ns)"
proof -
  have ident: "\<forall>i < length ns. nd_ident (ns ! i) = i" using assms(1) by (simp add: shaped_def)
  have "low 5 ns 0" using assms by (simp add: shaped_def)
  then obtain h where h: "height 5 ns 0 = Some h" by auto
  from height_less [OF h] have "0 + h \<le> 4" by simp
  from visit_accepted(1) [OF assms(1) refl _ _ h this, of 0 "[]" "[]"] assms(2)
  obtain vis where v: "visit (adjacency ns) 0 0 [] [] = (True, vis)" by auto
  have reach: "j < length ns \<Longrightarrow> \<exists>n. (edge (adjacency ns) ^^ n) 0 (int j)" for j
  proof (induction j rule: less_induct)
    case (less j)
    show ?case
    proof (cases "j = 0")
      case True
      then show ?thesis by (intro exI [of _ 0]) simp
    next
      case False
      with assms(1) less.prems obtain p where p: "p < j" "j \<in> set (targets (ns ! p))" unfolding shaped_def by blast
      with less obtain n where n: "(edge (adjacency ns) ^^ n) 0 (int p)" by auto
      have "edge (adjacency ns) (int p) (int j)"
        using map_of_adjacency [OF ident, of p] p less.prems by (simp add: edge_def)
      with n show ?thesis by (intro exI [of _ "Suc n"]) auto
    qed
  qed
  have "int ` {..<length ns} \<subseteq> set vis"
  proof
    fix y assume "y \<in> int ` {..<length ns}"
    then obtain j where "y = int j" "j < length ns" by auto
    with reach [of j] visit_sees(1) [OF v] show "y \<in> set vis" by blast
  qed
  moreover have "set vis \<subseteq> int ` {..<length ns}"
  proof
    fix y assume "y \<in> set vis"
    with visit_reaches(1) [OF v] obtain n where "(edge (adjacency ns) ^^ n) 0 y" by auto
    with visit_bounds(1) [OF v] have "y \<in> fst ` set (adjacency ns)" by (metis map_of_eq_None_iff)
    then show "y \<in> int ` {..<length ns}" using ident by (auto simp: adjacency_def in_set_conv_nth)
  qed
  moreover have "distinct vis" using visit_reaches(1) [OF v] by simp
  ultimately have "length vis = card (int ` {..<length ns})" by (metis distinct_card subset_antisym)
  also have "\<dots> = length (adjacency ns)" by (simp add: card_image adjacency_def)
  finally show ?thesis using v by blast
qed

lemma sound_node:
  assumes "sound fatal ns" "n \<in> set ns"
  shows "nd_ok fatal n \<and> nd_ident n < 8 \<and> rels_ok (nd_rels n) \<and> (\<forall>t \<in> set (targets n). t < 8)"
proof -
  from assms(2) obtain i where i: "i < length ns" "n = ns ! i" by (auto simp: in_set_conv_nth)
  have "length ns \<le> 8" using assms(1) by (simp add: sound_def split: if_splits)
  with i assms have "nd_ok fatal n \<and> nd_ident n < 8 \<and> rels_ok (nd_rels n)" and "set (targets n) \<subseteq> {..<length ns}"
    by (auto simp: sound_def shaped_def list_all_iff)
  with \<open>length ns \<le> 8\<close> show ?thesis by fastforce
qed

lemma graph_written:
  assumes "sound fatal (ev_nodes g)"
  shows "json_bytes False True fr (PDict (graph_value g)) = Some (graph_bytes fr g)"
    "canonical_size fr (PDict (graph_value g)) = graph_bytes fr g"
proof -
  have n: "nodes (node_value n) \<le> 394 \<and> depth_of (node_value n) \<le> 3 \<and> narrow (node_value n) \<and> plain_numbers (node_value n)"
    if mem: "n \<in> set (ev_nodes g)" for n
    using node_sizes [of fatal n] sound_node [OF assms mem] by (simp add: rels_ok_def)
  have len: "length (ev_nodes g) \<le> 8" using assms by (simp add: sound_def split: if_splits)
  have "nodes_list (map node_value (ev_nodes g)) \<le> 8 * 394"
    using nodes_list_le [of "map node_value (ev_nodes g)" 394] n len by fastforce
  then have a: "nodes (PDict (graph_value g)) \<le> 4096" by (simp add: graph_value_def opt_str_def split: option.splits)
  have "depth_list (map node_value (ev_nodes g)) \<le> 4"
    using depth_list_le [of "map node_value (ev_nodes g)" 3] n by auto
  then have b: "depth_of (PDict (graph_value g)) \<le> 16" by (simp add: graph_value_def opt_str_def split: option.splits)
  have c: "narrow (PDict (graph_value g))" using n len by (simp add: graph_value_def opt_str_def list_all_iff str_keys_def split: option.splits)
  have d: "plain_numbers (PDict (graph_value g))" using n by (simp add: graph_value_def opt_str_def plain_list_all list_all_iff split: option.splits)
  from canonical_complete [OF d c a b, of True fr]
  show "json_bytes False True fr (PDict (graph_value g)) = Some (graph_bytes fr g)"
    "canonical_size fr (PDict (graph_value g)) = graph_bytes fr g" by (simp_all add: graph_bytes_def)
qed

lemma graph_accepted:
  assumes "sound fatal (ev_nodes g)" "reason_ok g" "graph_bytes fr g \<le> 32768"
  shows "graph_valid fr (PDict (graph_value g)) \<longleftrightarrow> texts_fit g"
proof -
  let ?ns = "ev_nodes g"
  have len: "1 \<le> length ?ns" "length ?ns \<le> 8" using assms(1) by (cases ?ns; simp add: sound_def split: if_splits)+
  have shaped: "shaped ?ns" using assms(1) by (simp add: sound_def)
  have ident: "map nd_ident ?ns = [0..<length ?ns]" using shaped by (intro nth_equalityI) (simp_all add: shaped_def)
  have "\<forall>n \<in> set ?ns. nd_ok fatal n \<and> nd_ident n < 8 \<and> rels_ok (nd_rels n) \<and> (\<forall>t \<in> set (targets n). t < 8)"
    using sound_node [OF assms(1)] by blast
  from nodes_accepted [OF this, of "[]"] ident
  have nodes: "graph_nodes (map node_value ?ns) [] = (if texts_fit g then Some (adjacency ?ns) else None)" by (simp add: texts_fit_def)
  have size: "canonical_size fr (PDict (graph_value g)) \<le> 32768" using graph_written(2) [OF assms(1)] assms(3) by simp
  have heads: "closed [''version'', ''runtime'', ''root_id'', ''nodes'', ''truncated'', ''unavailable_reason''] [] (PDict (graph_value g))"
    "dgetn (graph_value g) ''version'' = PInt 1" "dgetn (graph_value g) ''root_id'' = PInt 0" "dgetn (graph_value g) ''runtime'' = PStr ''python''"
    "dgetn (graph_value g) ''truncated'' = PBool (ev_truncated g)" "dgetn (graph_value g) ''unavailable_reason'' = opt_str (ev_unavailable g)"
    "dgetn (graph_value g) ''nodes'' = PList (map node_value ?ns)"
    by (simp_all add: graph_value_def has_key_def dgetn_def str_keys_def)
  have one: "integer (PInt 1) 1 (Some 1)" "integer (PInt 0) 0 (Some 7)" "one_str (PStr ''python'') graph_runtimes"
    using max_double_ge [of 1] max_double_ge [of 0] by (simp_all add: integer_int graph_runtimes_def)
  have reason: "one_of (opt_str (ev_unavailable g)) [None, Some ''unknown'', Some ''unsafe'', Some ''unsupported'', Some ''budget_exceeded'']"
    using assms(2) by (auto simp: reason_ok_def opt_str_def split: if_splits)
  obtain vis where v: "visit (adjacency ?ns) 0 0 [] [] = (True, vis)" "length vis = length (adjacency ?ns)"
    using shaped_visit [OF shaped] len(1) by fastforce
  show ?thesis
    unfolding graph_valid.simps heads(2-7) using heads(1) one reason nodes size len v by (simp del: visit.simps closed.simps)
qed

end
