(* ===== verification/Exception_Details.thy ===== *)
theory Exception_Details
  imports Exception_Graph Session_Facts
begin

text \<open>
  \<open>exception_snapshot.exception_details\<close>, the receipts of \<open>exception_identity.py\<close>, and the exception that a
  capture meets (\<open>thrown\<close> in theory Capture) as read from the heap of live exceptions.
\<close>

subsection \<open>Details\<close>

definition frame_text :: "string \<times> string \<times> 32 word \<Rightarrow> string" where
  "frame_text x = (case x of (function_name, filename, line) \<Rightarrow>
     ''  File '' @ take 256 filename @ '', line '' @ dec_int (sint line) @ '', in '' @ take 128 function_name)"

definition next_error :: "native \<Rightarrow> nat option" where
  "next_error e = (case native_cause e of Some c \<Rightarrow> Some c | None \<Rightarrow> if suppress_context e then None else native_context e)"

text \<open>The loop, with how many exceptions may still be described, the described ones and the frames seen.\<close>

fun detail_lines :: "(pyval \<Rightarrow> string) \<Rightarrow> heap \<Rightarrow> nat \<Rightarrow> nat list \<Rightarrow> nat \<Rightarrow> nat \<Rightarrow> string list" where
  "detail_lines shown hp 0 known seen e = []"
| "detail_lines shown hp (Suc n) known seen e =
     (if e \<in> set known then []
      else
        let frames = map frame_text (take (64 - seen) (traceback (hp e)));
            here = (exception_name (hp e) @ '': '' @ safe_message shown (hp e)) # frames
        in if 64 \<le> seen + length frames then here @ [''  ... additional frames omitted'']
           else (case next_error (hp e) of
               None \<Rightarrow> here
             | Some c \<Rightarrow> here @ ''Caused by:'' # detail_lines shown hp n (e # known) (seen + length frames) c))"

fun join_lines :: "string list \<Rightarrow> string" where
  "join_lines [] = []"
| "join_lines [s] = s"
| "join_lines (s # t # ts) = s @ CHR 0x0A # join_lines (t # ts)"

definition exception_details :: "(pyval \<Rightarrow> string) \<Rightarrow> heap \<Rightarrow> nat \<Rightarrow> string \<times> string \<times> string" where
  "exception_details shown hp e = (exception_name (hp e), safe_message shown (hp e), take 16384 (join_lines (detail_lines shown hp 8 [] 0 e)))"

subsection \<open>Receipts\<close>

text \<open>
  What \<open>admit_identity\<close> keeps in the dictionary of an exception. \<open>hooked\<close> says that an application hook is set, \<open>operation\<close> is
  the identifier of the current one.
\<close>

record receipt =
  rc_owner :: nat
  rc_scope :: string
  rc_at :: rat
  rc_automatic :: bool

definition admit_identity :: "bool \<Rightarrow> nat \<Rightarrow> string option \<Rightarrow> rat \<Rightarrow> bool \<Rightarrow> bool \<Rightarrow> receipt option \<Rightarrow> bool \<times> receipt option" where
  "admit_identity hooked owner operation now automatic accepted slot =
     (if hooked then (True, slot)
      else (case operation of
          None \<Rightarrow> (True, slot)
        | Some ident \<Rightarrow>
            if (case slot of None \<Rightarrow> False
                | Some r \<Rightarrow> \<not> accepted \<and> rc_owner r = owner \<and> ident = rc_scope r \<and> now - rc_at r < 30 \<and> automatic \<noteq> rc_automatic r)
            then (False, None)
            else (True, if accepted then Some \<lparr>rc_owner = owner, rc_scope = ident, rc_at = now, rc_automatic = automatic\<rparr> else slot)))"

subsection \<open>A live exception at a capture\<close>

definition operation_ident :: "moment \<Rightarrow> client \<Rightarrow> string option" where
  "operation_ident m cl = (case operation_scope m cl of PDict d \<Rightarrow> (case dgetn d ''operation_id'' of PStr s \<Rightarrow> Some s | _ \<Rightarrow> None) | _ \<Rightarrow> None)"

definition thrown_from :: "host \<Rightarrow> heap \<Rightarrow> nat \<Rightarrow> bool \<Rightarrow> pyval \<Rightarrow> bool \<Rightarrow> thrown" where
  "thrown_from h hp e fatal facts admitted =
     \<lparr>er_details = (case exception_details (h_shown h) hp e of (n, msg, stack) \<Rightarrow> (PStr n, PStr msg, PStr stack)),
      er_graph = (\<lambda>budget. map_option (\<lambda>g. PDict (graph_value g))
        (snapshot_exception (h_lib h) (sanitize_telemetry (h_lib h) (h_loads h) (h_fr h) []) (h_shown h) (h_fr h) hp e fatal (Some budget))),
      er_facts = facts, er_admitted = admitted\<rparr>"

text \<open>\<open>capture_exception\<close> of an exception on the heap whose dictionary holds \<open>slot\<close>, up to the receipt of an accepted event.\<close>

definition capture_native ::
  "host \<Rightarrow> moment \<Rightarrow> heap \<Rightarrow> nat \<Rightarrow> bool \<Rightarrow> nat \<Rightarrow> receipt option \<Rightarrow> pyval \<Rightarrow> bool \<Rightarrow> bool \<Rightarrow> pydict option \<Rightarrow> client \<Rightarrow> client" where
  "capture_native h m hp e hooked owner slot facts handled fatal given cl =
     (let automatic = (fatal \<or> (case given of Some d \<Rightarrow> has_key ''logger_name'' d | None \<Rightarrow> False));
          admitted = fst (admit_identity hooked owner (operation_ident m (ensure_current_process m cl)) (mono (at_clock m)) automatic False slot)
      in capture_exception h m (thrown_from h hp e fatal facts admitted) handled fatal given cl)"

subsection \<open>Bounds\<close>

lemma detail_lines_length:
  "seen \<le> 64 \<Longrightarrow> length (detail_lines shown hp n known seen e) \<le> 2 * n + (64 - seen)"
proof (induction n arbitrary: known seen e)
  case (Suc n)
  let ?frames = "map frame_text (take (64 - seen) (traceback (hp e)))"
  have f: "length ?frames \<le> 64 - seen" by simp
  show ?case
  proof (cases "e \<in> set known \<or> 64 \<le> seen + length ?frames \<or> next_error (hp e) = None")
    case True
    then show ?thesis using f by (auto simp: Let_def split: if_splits option.splits)
  next
    case False
    then obtain c where c: "next_error (hp e) = Some c" by blast
    have "length (detail_lines shown hp n (e # known) (seen + length ?frames) c) \<le> 2 * n + (64 - (seen + length ?frames))"
      by (rule Suc.IH) (use f Suc.prems in linarith)
    then show ?thesis using False c f by (auto simp: Let_def)
  qed
qed simp

text \<open>The exceptions that the details describe: the causes in order, each once, eight at most.\<close>

fun chain :: "heap \<Rightarrow> nat \<Rightarrow> nat list \<Rightarrow> nat \<Rightarrow> nat list" where
  "chain hp 0 known e = []"
| "chain hp (Suc n) known e =
     (if e \<in> set known then [] else e # (case next_error (hp e) of None \<Rightarrow> [] | Some c \<Rightarrow> chain hp n (e # known) c))"

definition described :: "(pyval \<Rightarrow> string) \<Rightarrow> heap \<Rightarrow> nat \<Rightarrow> string list" where
  "described shown hp e = (exception_name (hp e) @ '': '' @ safe_message shown (hp e)) # map frame_text (traceback (hp e)) @
     (if next_error (hp e) = None then [] else [''Caused by:''])"

lemma chain_distinct: "distinct (chain hp n known e) \<and> set (chain hp n known e) \<inter> set known = {} \<and> length (chain hp n known e) \<le> n"
proof (induction n arbitrary: known e)
  case (Suc n)
  show ?case
  proof (cases "next_error (hp e)")
    case (Some c)
    with Suc.IH [of "e # known" c] show ?thesis by auto
  qed simp
qed simp

lemma detail_lines_chain:
  "seen + sum_list (map (\<lambda>x. length (traceback (hp x))) (chain hp n known e)) < 64 \<Longrightarrow>
   detail_lines shown hp n known seen e = concat (map (described shown hp) (chain hp n known e))"
proof (induction n arbitrary: known seen e)
  case (Suc n)
  show ?case
  proof (cases "e \<in> set known")
    case False
    then have few: "seen + length (traceback (hp e)) < 64" using Suc.prems by (auto split: option.splits)
    then have all: "take (64 - seen) (traceback (hp e)) = traceback (hp e)" by simp
    show ?thesis
    proof (cases "next_error (hp e)")
      case None
      with False few all show ?thesis by (simp add: Let_def described_def)
    next
      case (Some c)
      have "detail_lines shown hp n (e # known) (seen + length (traceback (hp e))) c = concat (map (described shown hp) (chain hp n (e # known) c))"
        by (rule Suc.IH) (use Suc.prems False Some in simp)
      with False few all Some show ?thesis by (simp add: Let_def described_def [of shown hp e])
    qed
  qed simp
qed simp

text \<open>
  The details of a live exception describe its chain of causes, each exception once and at most eight, on circular
  chains too: within the limit of 64 frames the stack is exactly their descriptions in order, cut off at 16384
  characters, and with any number of frames it has at most 80 lines.
\<close>

theorem details_chain:
  assumes "sum_list (map (\<lambda>x. length (traceback (hp x))) (chain hp 8 [] e)) < 64"
  shows "exception_details shown hp e = (exception_name (hp e), safe_message shown (hp e),
      take 16384 (join_lines (concat (map (described shown hp) (chain hp 8 [] e))))) \<and>
    distinct (chain hp 8 [] e) \<and> length (chain hp 8 [] e) \<le> 8 \<and> length (detail_lines shown hp 8 [] 0 e') \<le> 80"
  using detail_lines_chain [of 0 hp 8 "[]" e shown] assms chain_distinct [of hp 8 "[]" e]
    detail_lines_length [of 0 shown hp 8 "[]" e'] by (simp add: exception_details_def)

definition circular :: heap where
  "circular e = \<lparr>type_name = ''ValueError'', native_args = [PStr ''no''], group = None, traceback = [(''f'', ''a.py'', 3)],
     native_cause = Some (1 - e), native_context = None, suppress_context = False\<rparr>"

theorem details_chain_witness:
  "chain circular 8 [] 0 = [0, 1] \<and> exception_details (\<lambda>v. []) circular 0 = (''ValueError'', ''no'',
     take 16384 (join_lines (described (\<lambda>v. []) circular 0 @ described (\<lambda>v. []) circular 1)))"
proof -
  have c: "chain circular 8 [] 0 = [0, 1]" by code_simp
  have n: "exception_name (circular 0) = ''ValueError''" "safe_message (\<lambda>v. []) (circular 0) = ''no''" by code_simp+
  from details_chain [of circular 0 "\<lambda>v. []" 0] c n show ?thesis by (simp add: circular_def)
qed

text \<open>A circular chain leaves a ''Caused by:'' that no cause follows.\<close>

lemma dangling_cause: "last (detail_lines (\<lambda>v. []) circular 8 [] 0 0) = ''Caused by:''"
  by code_simp

subsection \<open>Receipts\<close>

text \<open>A sequence of calls of \<open>admit_identity\<close> on one exception: how many were admitted as new, and how many were accepted.\<close>

fun admit_all :: "(bool \<times> nat \<times> string option \<times> rat \<times> bool \<times> bool) list \<Rightarrow> receipt option \<Rightarrow> bool list \<times> receipt option" where
  "admit_all [] slot = ([], slot)"
| "admit_all ((hooked, owner, operation, now, automatic, accepted) # cs) slot =
     (let (ok, slot1) = admit_identity hooked owner operation now automatic accepted slot; (oks, slot2) = admit_all cs slot1 in (ok # oks, slot2))"

definition accepts :: "bool \<times> nat \<times> string option \<times> rat \<times> bool \<times> bool \<Rightarrow> bool" where
  "accepts c = snd (snd (snd (snd (snd c))))"

lemma refused_le:
  "length (filter Not (fst (admit_all cs slot))) \<le> length (filter accepts cs) + (if slot = None then 0 else 1)"
proof (induction cs arbitrary: slot)
  case (Cons c cs)
  obtain hooked owner operation now automatic accepted where c: "c = (hooked, owner, operation, now, automatic, accepted)" by (cases c)
  obtain ok slot1 where a: "admit_identity hooked owner operation now automatic accepted slot = (ok, slot1)" by fastforce
  have "(if ok then 0 else 1) + (if slot1 = None then 0 else 1) \<le> (if accepted then 1 else 0) + (if slot = None then 0 else 1 :: nat)"
    using a by (auto simp: admit_identity_def split: if_splits option.splits)
  with Cons.IH [of slot1] show ?case by (auto simp: c a accepts_def split: prod.splits if_splits)
qed simp

text \<open>
  C36: Receipts never lose a failure: over any sequence of calls on one exception that starts without a receipt, no more
  captures are refused than events were accepted; a refused capture is of the other kind (automatic or by hand) than
  the accepted one, by the same client in the same operation within 30 seconds, and takes the receipt away.
\<close>

theorem receipts_suppress_duplicates:
  "length (filter Not (fst (admit_all cs None))) \<le> length (filter accepts cs) \<and>
   (admit_identity hooked owner operation now automatic accepted slot = (False, slot') \<longleftrightarrow>
     \<not> hooked \<and> \<not> accepted \<and> slot' = None \<and> (\<exists>r. slot = Some r \<and> rc_owner r = owner \<and> operation = Some (rc_scope r) \<and>
       now - rc_at r < 30 \<and> automatic \<noteq> rc_automatic r))"
  using refused_le [of cs None] by (auto simp: admit_identity_def split: option.splits)

subsection \<open>Evidence at the boundary\<close>

text \<open>
  C9: The walk over a live exception returns on every heap, however its causes, contexts and groups are linked, shared
  or circular: it leaves at most 8 nodes (2 for a fatal error) that are numbered from the root 0, each other node
  linked from an older one, with distinct links of which at most one is causal, and no path longer than four links.
\<close>

theorem snapshot_walk_returns:
  "\<exists>w. visit_error (read_node lib sanitize shown fatal) (if fatal then 2 else 8) hp e 0 []
      \<lparr>wk_nodes = [], wk_identities = [], wk_truncated = False\<rparr> = Some (Some 0, w) \<and>
    wk_nodes w \<noteq> [] \<and> length (wk_nodes w) \<le> (if fatal then 2 else 8) \<and> shaped (wk_nodes w)"
proof -
  have "0 < (if fatal then 2 else 8 :: nat)" by simp
  from walk_returns [OF read_reads this, of lib sanitize shown fatal hp e] show ?thesis by blast
qed

text \<open>
  C8: What \<open>snapshot_exception\<close> returns is within its byte budget and its limits of nodes and frames, and the validator
  of the evidence boundary accepts it exactly if the sanitized names, messages, functions and files are within the
  boundary's limits: cut nodes, dropped frames and removed links never make a graph that the boundary refuses.
\<close>

theorem snapshot_accepted:
  assumes "snapshot_exception lib (sanitize_telemetry lib loads fr extra) shown fr hp e fatal budget = Some g"
  shows "(graph_valid fr (PDict (graph_value g)) \<longleftrightarrow> texts_fit g) \<and>
    int (canonical_size fr (PDict (graph_value g))) \<le> min (if fatal then 4096 else 32768) (case budget of None \<Rightarrow> 32768 | Some b \<Rightarrow> b) \<and>
    ev_nodes g \<noteq> [] \<and> length (ev_nodes g) \<le> (if fatal then 2 else 8) \<and>
    list_all (\<lambda>n. length (nd_frames n) \<le> (if fatal then 8 else 32)) (ev_nodes g)"
proof -
  note s = snapshot_sound [OF assms]
  then have "graph_bytes fr g \<le> 32768" by (simp split: if_splits)
  with s graph_accepted [of fatal g fr] graph_written(2) [of fatal g fr] show ?thesis
    by (simp add: sound_def nd_ok_def list_all_iff)
qed

text \<open>An error that is its own cause.\<close>

definition alone :: heap where
  "alone e = \<lparr>type_name = ''error'', native_args = [PStr ''no''], group = None, traceback = [], native_cause = Some 0,
     native_context = None, suppress_context = False\<rparr>"

definition alone_graph :: ExceptionEvidence where
  "alone_graph = \<lparr>ev_nodes = [\<lparr>nd_ident = 0, nd_name = ''error'', nd_message = ''no'', nd_origin = ''unavailable'', nd_status = ''unavailable'',
     nd_frames = [], nd_rels = []\<rparr>], ev_truncated = True, ev_unavailable = Some ''budget_exceeded''\<rparr>"

lemma bounded_word:
  assumes "word s" "length s \<le> 64" "utf8_len s \<le> 64" "utf8_take m (take m s) = s" "\<not> opens_json s" "utf8_len (json_str False s) \<le> 1000"
  shows "bounded_text (sanitize_telemetry plain_lib (\<lambda>s. None) (\<lambda>q. []) []) s m = (s, False)"
proof -
  have "sanitize_telemetry plain_lib (\<lambda>s. None) (\<lambda>q. []) [] (PStr s) = Inr (PStr s)"
    by (rule sanitize_text) (use assms in \<open>simp_all add: word_kept\<close>)
  then show ?thesis using assms(4) by (simp add: bounded_text_def Let_def)
qed

lemma alone_node:
  "read_node plain_lib (sanitize_telemetry plain_lib (\<lambda>s. None) (\<lambda>q. []) []) (\<lambda>v. []) False (alone 0) 0 =
     (\<lparr>nd_ident = 0, nd_name = ''error'', nd_message = ''no'', nd_origin = ''unavailable'', nd_status = ''unavailable'',
       nd_frames = [], nd_rels = []\<rparr>, False)"
proof -
  have "bounded_text (sanitize_telemetry plain_lib (\<lambda>s. None) (\<lambda>q. []) []) ''error'' 256 = (''error'', False)"
    "bounded_text (sanitize_telemetry plain_lib (\<lambda>s. None) (\<lambda>q. []) []) ''no'' 2048 = (''no'', False)"
    by (rule bounded_word; code_simp)+
  moreover have "exception_name (alone 0) = ''error''" "safe_message (\<lambda>v. []) (alone 0) = ''no''" by code_simp+
  ultimately show ?thesis by (simp add: read_node_def alone_def)
qed

lemma alone_bytes:
  "graph_bytes (\<lambda>q. []) alone_graph = 253" "graph_bytes (\<lambda>q. []) (alone_graph\<lparr>ev_unavailable := None\<rparr>) = 240"
  by code_simp+
lemma alone_snapshot:
  assumes "budget = None \<or> budget = Some b \<and> 512 \<le> b"
  shows "snapshot_exception plain_lib (sanitize_telemetry plain_lib (\<lambda>s. None) (\<lambda>q. []) []) (\<lambda>v. []) (\<lambda>q. []) alone 0 False budget = Some alone_graph"
proof -
  let ?san = "sanitize_telemetry plain_lib (\<lambda>s. None) (\<lambda>q. []) []"
  have l: "links (alone 0) = [(0, ''cause'')]" "overfull (alone 0) = False" by (simp_all add: links_def overfull_def alone_def)
  have w: "visit_error (read_node plain_lib ?san (\<lambda>v. []) False) 8 alone 0 0 [] \<lparr>wk_nodes = [], wk_identities = [], wk_truncated = False\<rparr> =
      Some (Some 0, \<lparr>wk_nodes = ev_nodes alone_graph, wk_identities = [(0, 0)], wk_truncated = True\<rparr>)"
    by (simp add: visit_error.simps visit_links.simps l alone_node mark_cut_def alone_graph_def)
  have b: "graph_bytes (\<lambda>q. []) \<lparr>ev_nodes = ev_nodes alone_graph, ev_truncated = True, ev_unavailable = None\<rparr> = 240"
    using alone_bytes(2) by (simp add: alone_graph_def)
  have g: "\<lparr>ev_nodes = ev_nodes alone_graph, ev_truncated = True, ev_unavailable = Some ''budget_exceeded''\<rparr> = alone_graph"
    by (simp add: alone_graph_def)
  have "ev_nodes alone_graph \<noteq> []" by (simp add: alone_graph_def)
  then show ?thesis using alone_bytes(1) assms by (auto simp: snapshot_exception_def w b g Let_def)
qed

theorem snapshot_accepted_witness: "graph_valid (\<lambda>q. []) (PDict (graph_value alone_graph)) \<and> length (ev_nodes alone_graph) \<le> 8"
proof -
  have "texts_fit alone_graph" by code_simp
  with snapshot_accepted [OF alone_snapshot [of None]] show ?thesis by (simp del: graph_valid.simps)
qed

subsection \<open>The budget of an event\<close>

lemma json_dict_bytes:
  "json_bytes ea nk fr (PDict d) = map_option (\<lambda>ts. 2 + sum_list (map utf8_len ts) + (length d - 1)) (json_items ea nk fr d)"
  using json_items_length [of ea nk fr d] by (cases "json_items ea nk fr d") (simp_all add: json_bytes_def utf8_len_join)

text \<open>
  C35: The evidence that a capture adds to an event is within the budget of the boundary as a whole: the JSON of the
  exception graph, the execution and the evidence reference together take at most 32768 bytes, 4096 for a fatal error.
\<close>

theorem exception_evidence_budget:
  assumes "exception_additions h m (thrown_from h hp e fatal facts ok) fatal candidate cl = Some (g # added)"
  shows "\<exists>n. json_bytes False True (h_fr h) (PDict (g # added @
      (case dgetn candidate ''context'' of PDict c \<Rightarrow> copy_if_key ''evidence_reference'' ''evidence_reference'' c | _ \<Rightarrow> []))) = Some n \<and>
    n \<le> (if fatal then 4096 else 32768)"
proof -
  let ?snap = "operation_snapshot (at_context m) (mono (at_clock m)) (owners cl)"
  let ?e = "case ?snap of None \<Rightarrow> [] | Some x \<Rightarrow> [(PStr ''execution'', x)]"
  let ?r = "case dgetn candidate ''context'' of PDict c \<Rightarrow> copy_if_key ''evidence_reference'' ''evidence_reference'' c | _ \<Rightarrow> []"
  let ?san = "sanitize_telemetry (h_lib h) (h_loads h) (h_fr h) []"
  from assms obtain n x where n: "json_bytes False True (h_fr h) (PDict (?e @ ?r)) = Some n"
    and x: "snapshot_exception (h_lib h) ?san (h_shown h) (h_fr h) hp e fatal (Some ((if fatal then 4096 else 32768) - (int n + 32))) = Some x"
    and g: "g = (PStr ''exception_evidence'', PDict (graph_value x))" and added: "added = ?e"
    by (auto simp: exception_additions_def thrown_from_def Let_def split: if_splits option.splits)
  note s = snapshot_sound [OF x]
  then have j: "json_bytes False True (h_fr h) (PDict (graph_value x)) = Some (graph_bytes (h_fr h) x)"
    and size: "int (graph_bytes (h_fr h) x) \<le> (if fatal then 4096 else 32768) - (int n + 32)"
    using graph_written(1) [of fatal x "h_fr h"] by (simp_all split: if_splits)
  from n obtain ts where ts: "json_items False True (h_fr h) (?e @ ?r) = Some ts" "n = 2 + sum_list (map utf8_len ts) + (length (?e @ ?r) - 1)"
    unfolding json_dict_bytes by blast
  obtain t where t: "json_val False True (h_fr h) (PDict (graph_value x)) = Some t" "utf8_len t = graph_bytes (h_fr h) x"
    using j unfolding json_bytes_def by blast
  have key: "utf8_len (json_str False ''exception_evidence'') = 20" by code_simp
  have "json_bytes False True (h_fr h) (PDict (g # ?e @ ?r)) =
      Some (2 + (21 + graph_bytes (h_fr h) x + sum_list (map utf8_len ts)) + length (?e @ ?r))"
    unfolding json_dict_bytes g json_items.simps json_key.simps t(1) ts(1) option.case option.map by (simp add: t(2) key)
  moreover have "2 + (21 + graph_bytes (h_fr h) x + sum_list (map utf8_len ts)) + length (?e @ ?r) \<le> (if fatal then 4096 else 32768)"
    using size ts(2) by (cases fatal) simp_all
  ultimately show ?thesis unfolding added by blast
qed

theorem exception_evidence_budget_witness:
  "\<exists>n. json_bytes False True (\<lambda>q. []) (PDict [(PStr ''exception_evidence'', PDict (graph_value alone_graph))]) = Some n \<and> n \<le> 32768"
proof -
  let ?cl = "sample_client\<lparr>queue := (queue sample_client)\<lparr>features := [''exception_evidence_v1''], capture_exception_evidence := True\<rparr>,
    owners := no_operations\<rparr>"
  have o: "operation_snapshot (at_context sample_moment) (mono (at_clock sample_moment)) no_operations = None"
    by (simp add: operation_snapshot_def current_operation_def no_operations_def)
  have j: "json_bytes False True (\<lambda>q. []) (PDict []) = Some 2" by code_simp
  have "exception_additions sample_host sample_moment (thrown_from sample_host alone 0 False PNone True) False [] ?cl =
      Some [(PStr ''exception_evidence'', PDict (graph_value alone_graph))]"
    using alone_snapshot [of "Some 32734" 32734] o j
    by (simp add: exception_additions_def thrown_from_def sample_host_def dgetn_def Let_def)
  from exception_evidence_budget [OF this] show ?thesis by (simp add: sample_host_def dgetn_def)
qed

end
