(* ===== verification/Integrations.thy ===== *)
theory Integrations
  imports Session_Facts
begin

text \<open>
  The web integrations: \<open>integrations/common.py\<close>, and the middleware of \<open>django.py\<close>, \<open>fastapi.py\<close> and \<open>flask.py\<close> as
  sequences of calls of one client. The application is a function of the client: it answers, raises an \<open>Exception\<close> (which
  the SDK reads as \<open>thrown\<close>) or leaves by another \<open>BaseException\<close>. Headers and queries are lists of texts, ASCII bytes
  and \<open>latin-1\<close> texts are the same; \<open>time.time()\<close> at the response is the argument \<open>now\<close>.
\<close>

type_synonym headers = "(string \<times> string) list"

record http_request =
  rq_method :: string
  rq_path :: string
  rq_headers :: headers
  rq_query :: headers

datatype ending = Returned | Raised thrown | Aborted

subsection \<open>What the integrations share\<close>

definition TRACE_ID_HEADER :: string where "TRACE_ID_HEADER = ''x-debugbundle-trace-id''"
definition REQUEST_ID_HEADERS :: "string list" where "REQUEST_ID_HEADERS = [''x-request-id'', ''x-correlation-id'']"

definition duration_ms :: "rat \<Rightarrow> rat \<Rightarrow> int" where
  "duration_ms began now = max 0 (trunc_rat ((now - began) * 1000))"

definition as_dict :: "headers \<Rightarrow> headers" where
  "as_dict items = fold (\<lambda>(k, v). AList.update k v) items []"

definition lower_headers :: "headers \<Rightarrow> headers" where
  "lower_headers hs = as_dict (map (\<lambda>(k, v). (str_lower k, v)) hs)"

definition present :: "headers \<Rightarrow> string \<Rightarrow> string option" where
  "present d k = (case map_of d k of Some (c # s) \<Rightarrow> Some (c # s) | _ \<Rightarrow> None)"

fun first_present :: "headers \<Rightarrow> string list \<Rightarrow> string option" where
  "first_present d [] = None"
| "first_present d (k # ks) = (case present d k of Some s \<Rightarrow> Some s | None \<Rightarrow> first_present d ks)"

definition correlation_context :: "headers \<Rightarrow> pydict" where
  "correlation_context hs =
     (let d = lower_headers hs
      in (case present d TRACE_ID_HEADER of None \<Rightarrow> [] | Some t \<Rightarrow> [(PStr ''trace_id'', PStr t)]) @
         (case first_present d REQUEST_ID_HEADERS of None \<Rightarrow> [] | Some r \<Rightarrow> [(PStr ''request_id'', PStr r)]))"

definition texts :: "headers \<Rightarrow> pyval" where
  "texts d = PDict (map (\<lambda>(k, v). (PStr k, PStr v)) d)"

definition request_payload :: "http_request \<Rightarrow> pydict" where
  "request_payload r = [(PStr ''method'', PStr (rq_method r)), (PStr ''path'', PStr (rq_path r)),
     (PStr ''headers'', texts (lower_headers (rq_headers r))), (PStr ''query'', texts (as_dict (rq_query r)))]"

definition response_payload :: "int \<Rightarrow> rat \<Rightarrow> rat \<Rightarrow> pydict" where
  "response_payload answer began now = [(PStr ''status_code'', PInt answer), (PStr ''duration_ms'', PInt (duration_ms began now))]"

text \<open>Before and after the application; the tokens of the context and of the request. Leaving says whether it raised.\<close>

definition enter_request ::
  "host \<Rightarrow> moment \<Rightarrow> http_request \<Rightarrow> client \<Rightarrow> (pydict \<times> lease) token \<times> (RemoteProbeDirective list \<times> lease) token \<times> client" where
  "enter_request h m r cl =
     (let (ct, cl1) = bind_scoped_context h m (correlation_context (rq_headers r)) cl;
          (rt, cl2) = begin_request h m (request_payload r) cl1
      in (ct, rt, cl2))"

definition leave_request :: "moment \<Rightarrow> (pydict \<times> lease) token \<Rightarrow> (RemoteProbeDirective list \<times> lease) token \<Rightarrow> client \<Rightarrow> bool \<times> client" where
  "leave_request m ct rt cl =
     (let (raised, cl1) = end_request m rt cl
      in if raised then (True, cl1) else (case reset_scoped_context m ct cl1 of None \<Rightarrow> (True, cl1) | Some cl2 \<Rightarrow> (False, cl2)))"

definition request_context :: "http_request \<Rightarrow> pydict" where
  "request_context r = [(PStr ''request'', PDict (request_payload r))]"

subsection \<open>Django\<close>

definition django_call ::
  "host \<Rightarrow> (nat \<Rightarrow> moment) \<Rightarrow> rat \<Rightarrow> http_request \<Rightarrow> (client \<Rightarrow> (ending \<times> int) \<times> client) \<Rightarrow> client \<Rightarrow> ending \<times> bool \<times> client" where
  "django_call h ms now r app cl =
     (let began = wall (at_clock (ms 0)); (ct, rt, cl1) = enter_request h (ms 0) r cl; ((ending, answer), cl2) = app cl1;
          cl3 = (case ending of
              Raised err \<Rightarrow> capture_exception h (ms 1) err True False (Some (request_context r)) cl2
            | Returned \<Rightarrow> capture_request h (ms 1) (request_payload r) (Some (response_payload answer began now)) None cl2
            | Aborted \<Rightarrow> cl2);
          (raised, cl4) = leave_request (ms 2) ct rt cl3
      in (ending, raised, cl4))"

subsection \<open>FastAPI\<close>

fun split_at_char :: "char \<Rightarrow> string \<Rightarrow> string list" where
  "split_at_char c [] = [[]]"
| "split_at_char c (x # s) = (if x = c then [] # split_at_char c s else (case split_at_char c s of [] \<Rightarrow> [[x]] | t # ts \<Rightarrow> (x # t) # ts))"

definition query_items :: "string \<Rightarrow> headers" where
  "query_items q = as_dict (map (\<lambda>s. let (k, _, v) = partition_at CHR ''='' s in (k, v)) (filter (\<lambda>s. s \<noteq> []) (split_at_char CHR ''&'' q)))"

record asgi_scope =
  as_type :: "string option"
  as_method :: "string option"
  as_path :: "string option"
  as_headers :: headers
  as_query :: string

definition asgi_request :: "asgi_scope \<Rightarrow> http_request" where
  "asgi_request s = \<lparr>rq_method = (case as_method s of None \<Rightarrow> ''GET'' | Some t \<Rightarrow> t), rq_path = (case as_path s of None \<Rightarrow> ''/'' | Some p \<Rightarrow> p),
     rq_headers = as_dict (as_headers s), rq_query = query_items (as_query s)\<rparr>"

text \<open>The application sends responses through \<open>wrapped_send\<close>: the statuses it started a response with, in order.\<close>

definition fastapi_http ::
  "host \<Rightarrow> (nat \<Rightarrow> moment) \<Rightarrow> rat \<Rightarrow> http_request \<Rightarrow> (client \<Rightarrow> (ending \<times> int list) \<times> client) \<Rightarrow> client \<Rightarrow> ending \<times> bool \<times> client" where
  "fastapi_http h ms now r app cl =
     (let began = wall (at_clock (ms 0)); (ct, rt, cl1) = enter_request h (ms 0) r cl; ((ending, statuses), cl2) = app cl1;
          cl3 = (case ending of
              Raised err \<Rightarrow> capture_exception h (ms 2) err True False (Some (request_context r))
                (capture_request h (ms 1) (request_payload r) (Some (response_payload 500 began now)) None cl2)
            | _ \<Rightarrow> cl2);
          cl4 = (if statuses = [] then cl3
                 else capture_request h (ms 3) (request_payload r) (Some (response_payload (last statuses) began now)) None cl3);
          (raised, cl5) = leave_request (ms 4) ct rt cl4
      in (ending, raised, cl5))"

definition fastapi_call ::
  "host \<Rightarrow> (nat \<Rightarrow> moment) \<Rightarrow> rat \<Rightarrow> asgi_scope \<Rightarrow> (client \<Rightarrow> (ending \<times> int list) \<times> client) \<Rightarrow> client \<Rightarrow> ending \<times> bool \<times> client" where
  "fastapi_call h ms now s app cl =
     (if as_type s \<noteq> Some ''http'' then (let ((ending, _), cl') = app cl in (ending, False, cl'))
      else fastapi_http h ms now (asgi_request s) app cl)"

subsection \<open>Flask\<close>

definition flask_request :: "http_request \<Rightarrow> http_request" where
  "flask_request r = r\<lparr>rq_headers := as_dict (rq_headers r), rq_query := as_dict (rq_query r)\<rparr>"

text \<open>The hooks, which Flask calls; \<open>g\<close> holds when the request started and its tokens.\<close>

record flask_g =
  g_started :: "rat option"
  g_context :: "(pydict \<times> lease) token option"
  g_trigger :: "(RemoteProbeDirective list \<times> lease) token option"

definition flask_before :: "host \<Rightarrow> moment \<Rightarrow> http_request \<Rightarrow> client \<Rightarrow> flask_g \<times> client" where
  "flask_before h m r cl =
     (let (ct, rt, cl1) = enter_request h m (flask_request r) cl
      in (\<lparr>g_started = Some (wall (at_clock m)), g_context = Some ct, g_trigger = Some rt\<rparr>, cl1))"

definition flask_after :: "host \<Rightarrow> moment \<Rightarrow> rat \<Rightarrow> http_request \<Rightarrow> flask_g \<Rightarrow> int \<Rightarrow> client \<Rightarrow> client" where
  "flask_after h m now r g answer cl =
     (let began = (case g_started g of Some t \<Rightarrow> t | None \<Rightarrow> wall (at_clock m))
      in capture_request h m (request_payload (flask_request r)) (Some (response_payload answer began now)) None cl)"

definition flask_teardown :: "host \<Rightarrow> moment \<Rightarrow> http_request \<Rightarrow> flask_g \<Rightarrow> thrown option \<Rightarrow> client \<Rightarrow> bool \<times> client" where
  "flask_teardown h m r g err cl =
     (let cl1 = (case err of None \<Rightarrow> cl | Some x \<Rightarrow> capture_exception h m x True False (Some (request_context (flask_request r))) cl);
          (raised, cl2) = (case g_trigger g of None \<Rightarrow> (False, cl1) | Some rt \<Rightarrow> end_request m rt cl1)
      in if raised then (True, cl2)
         else (case g_context g of
             None \<Rightarrow> (False, cl2)
           | Some ct \<Rightarrow> (case reset_scoped_context m ct cl2 of None \<Rightarrow> (True, cl2) | Some cl3 \<Rightarrow> (False, cl3))))"

subsection \<open>Captures leave contexts alone\<close>

definition holdings :: "client \<Rightarrow> nat \<times> pydict scopes \<times> RemoteProbeDirective list scopes \<times> operations" where
  "holdings cl = (process cl, scoped cl, requests cl, owners cl)"

lemma ensured: "process cl = at_pid m \<Longrightarrow> ensure_current_process m cl = cl"
  by (simp add: ensure_current_process_def)

lemma holdings_queue [simp]: "holdings (cl\<lparr>queue := q\<rparr>) = holdings cl"
  by (simp add: holdings_def)

lemma holdings_parts [simp]:
  "holdings (drop_capture cl) = holdings cl" "holdings (snd (offer_event h m p cl)) = holdings cl"
  "holdings (snd (may_prepare high cl)) = holdings cl" "holdings (admit_event h m still e cl) = holdings cl"
  by (simp_all add: drop_capture_def offer_event_def may_prepare_def admit_event_def split: option.split prod.split)

lemma holdings_offer_exception [simp]: "holdings (offer_exception h m fatal p cl) = holdings cl"
  unfolding offer_exception_def Let_def split_beta by simp

lemma holdings_captures:
  assumes "process cl = at_pid m"
  shows "holdings (capture_request h m request response given cl) = holdings cl"
    "holdings (capture_exception h m err handled fatal given cl) = holdings cl"
    "holdings (capture_log h m message level given cl) = holdings cl"
proof -
  note simps = ensured [OF assms] Let_def split_beta
  show "holdings (capture_request h m request response given cl) = holdings cl"
    unfolding capture_request_def simps by (simp split: option.split)
  show "holdings (capture_exception h m err handled fatal given cl) = holdings cl"
    unfolding capture_exception_def simps by (simp split: option.split prod.split)
  show "holdings (capture_log h m message level given cl) = holdings cl"
    unfolding capture_log_def simps by (simp split: option.split list.split)
qed

subsection \<open>A request leaves its context as it found it\<close>

text \<open>What a context sees: its bound values and its operation.\<close>

definition bound :: "nat \<Rightarrow> client \<Rightarrow> (pydict \<times> lease) option \<times> (RemoteProbeDirective list \<times> lease) option \<times> operation option" where
  "bound c cl = (sc_value (scoped cl) c, sc_value (requests cl) c, op_current (owners cl) c)"

text \<open>
  What an application may do to its own context: whatever it binds it has taken back, and it has not released what
  it found. Other contexts, the queue and the rest of the client are free.
\<close>

definition balanced :: "nat \<Rightarrow> client \<Rightarrow> client \<Rightarrow> bool" where
  "balanced c cl cl' \<longleftrightarrow> process cl' = process cl \<and> bound c cl' = bound c cl \<and>
     (\<forall>(v, l) \<in> set_option (sc_value (scoped cl) c). ls_ident l \<notin> set (sc_reset (scoped cl'))) \<and>
     (\<forall>(v, l) \<in> set_option (sc_value (requests cl) c). ls_ident l \<notin> set (sc_reset (requests cl'))) \<and>
     (\<forall>v \<in> set_option (op_current (owners cl) c). op_ident v \<notin> set (op_reset (owners cl')))"

lemma balanced_refl: "holdings cl' = holdings cl \<Longrightarrow> balanced c cl0 cl \<Longrightarrow> balanced c cl0 cl'"
  by (simp add: balanced_def holdings_def bound_def)

lemma entered:
  assumes "enter_request h m r cl = (ct, rt, cl1)" "process cl = at_pid m"
  obtains d l ds k op where
    "ct = \<lparr>tk_id = ls_ident l, tk_context = at_context m, tk_old = sc_value (scoped cl) (at_context m)\<rparr>"
    "rt = \<lparr>tk_id = ls_ident k, tk_context = at_context m, tk_old = sc_value (requests cl) (at_context m)\<rparr>"
    "bound (at_context m) cl1 = (Some (d, l), Some (ds, k), op)" "process cl1 = process cl"
    "ls_operation k = None \<and> op = op_current (owners cl) (at_context m) \<or> (\<exists>v. op = Some v \<and>
       ls_operation k = Some \<lparr>tk_id = op_ident v, tk_context = at_context m, tk_old = op_current (owners cl) (at_context m)\<rparr>)"
proof -
  let ?c = "at_context m"
  note same = ensured [OF assms(2)]
  obtain cl0 where b: "bind_scoped_context h m (correlation_context (rq_headers r)) cl = (ct, cl0)"
    and g: "begin_request h m (request_payload r) cl0 = (rt, cl1)"
    using assms(1) by (auto simp: enter_request_def split: prod.splits)
  from b obtain d p where ct: "ct = \<lparr>tk_id = sc_next (scoped cl), tk_context = ?c, tk_old = sc_value (scoped cl) ?c\<rparr>"
    and cl0: "cl0 = cl\<lparr>scoped := (scoped cl)\<lparr>sc_value := (sc_value (scoped cl))(?c := Some (d, Lease (sc_next (scoped cl)) (generation (queue cl)) p None)),
      sc_next := sc_next (scoped cl) + 1\<rparr>\<rparr>"
    unfolding bind_scoped_context_def same Let_def bind_context_def bind_scope_def by auto
  have same0: "ensure_current_process m cl0 = cl0" using assms(2) by (simp add: cl0 ensured)
  from g obtain ds o1 os q where begun: "begin_operation ?c (PDict [(PStr ''kind'', PStr ''request'')]) (at_uuid m) (mono (at_clock m)) (owners cl) = (o1, os)"
    and rt: "rt = \<lparr>tk_id = sc_next (requests cl), tk_context = ?c, tk_old = sc_value (requests cl) ?c\<rparr>"
    and cl1: "cl1 = cl0\<lparr>owners := os, requests := (requests cl)\<lparr>sc_value := (sc_value (requests cl))(?c := Some (ds, Lease (sc_next (requests cl)) (generation (queue cl)) q o1)),
      sc_next := sc_next (requests cl) + 1\<rparr>\<rparr>"
    unfolding begin_request_def same0 Let_def bind_directives_def bind_scope_def by (auto simp: cl0 split: prod.splits)
  have op: "o1 = None \<and> os = owners cl \<or> (\<exists>v. op_current os ?c = Some v \<and>
       o1 = Some \<lparr>tk_id = op_ident v, tk_context = ?c, tk_old = op_current (owners cl) ?c\<rparr>)"
    using begun by (auto simp: begin_operation_def Let_def split: if_splits)
  show thesis
    by (rule that [of "Lease (sc_next (scoped cl)) (generation (queue cl)) p None" "Lease (sc_next (requests cl)) (generation (queue cl)) q o1"
          d ds "op_current os ?c"]) (use ct rt op in \<open>auto simp: cl1 cl0 bound_def\<close>)
qed

lemma leave_restores:
  assumes "enter_request h m r cl = (ct, rt, cl1)" "process cl = at_pid m" "balanced (at_context m) cl1 cl2" "at_context m' = at_context m"
  shows "\<exists>cl3. leave_request m' ct rt cl2 = (False, cl3) \<and> bound (at_context m) cl3 = bound (at_context m) cl \<and> process cl3 = process cl"
proof -
  let ?c = "at_context m"
  obtain d l ds k op where e:
    "ct = \<lparr>tk_id = ls_ident l, tk_context = ?c, tk_old = sc_value (scoped cl) ?c\<rparr>"
    "rt = \<lparr>tk_id = ls_ident k, tk_context = ?c, tk_old = sc_value (requests cl) ?c\<rparr>"
    "bound ?c cl1 = (Some (d, l), Some (ds, k), op)" "process cl1 = process cl"
    "ls_operation k = None \<and> op = op_current (owners cl) ?c \<or> (\<exists>v. op = Some v \<and>
       ls_operation k = Some \<lparr>tk_id = op_ident v, tk_context = ?c, tk_old = op_current (owners cl) ?c\<rparr>)"
    by (rule entered [OF assms(1,2)])
  have b: "process cl2 = process cl" "sc_value (scoped cl2) ?c = Some (d, l)" "sc_value (requests cl2) ?c = Some (ds, k)"
    "op_current (owners cl2) ?c = op" "ls_ident l \<notin> set (sc_reset (scoped cl2))" "ls_ident k \<notin> set (sc_reset (requests cl2))"
    "\<And>v. op = Some v \<Longrightarrow> op_ident v \<notin> set (op_reset (owners cl2))"
    using assms(3) e(3,4) by (auto simp: balanced_def bound_def)
  have r: "release_lease ?c rt (requests cl2) = Some (Some k, (requests cl2)\<lparr>sc_value := (sc_value (requests cl2))(?c := sc_value (requests cl) ?c),
      sc_reset := ls_ident k # sc_reset (requests cl2), sc_ended := ls_ident k # sc_ended (requests cl2)\<rparr>)"
    using b(3,6) own_ls.seek_top [of k "ls_ident k" 16] by (simp add: release_lease_def e(2))
  have s: "release_lease ?c ct (scoped cl2) = Some (Some l, (scoped cl2)\<lparr>sc_value := (sc_value (scoped cl2))(?c := sc_value (scoped cl) ?c),
      sc_reset := ls_ident l # sc_reset (scoped cl2), sc_ended := ls_ident l # sc_ended (scoped cl2)\<rparr>)"
    using b(2,5) own_ls.seek_top [of l "ls_ident l" 16] by (simp add: release_lease_def e(1))
  obtain os where os: "end_operation ?c (ls_operation k) (owners cl2) = Some os" "op_current os ?c = op_current (owners cl) ?c"
  proof (cases "ls_operation k")
    case None
    with e(5) b(4) show thesis by (intro that [of "owners cl2"]) (auto simp: end_operation_def)
  next
    case (Some t)
    with e(5) obtain v where v: "op = Some v" "t = \<lparr>tk_id = op_ident v, tk_context = ?c, tk_old = op_current (owners cl) ?c\<rparr>" by auto
    with Some b(4) b(7) [OF v(1)] own_op.seek_top [of v "op_ident v" 16] show thesis
      by (intro that [of "the (end_operation ?c (ls_operation k) (owners cl2))"]) (simp_all add: end_operation_def)
  qed
  have en: "\<exists>cl4. end_request m' rt cl2 = (False, cl4) \<and> scoped cl4 = scoped cl2 \<and> process cl4 = process cl2 \<and>
      sc_value (requests cl4) ?c = sc_value (requests cl) ?c \<and> op_current (owners cl4) ?c = op_current (owners cl) ?c"
    using r os by (simp add: end_request_def release_directives_def assms(4))
  then obtain cl4 where cl4: "end_request m' rt cl2 = (False, cl4)" "scoped cl4 = scoped cl2" "process cl4 = process cl2"
    "sc_value (requests cl4) ?c = sc_value (requests cl) ?c" "op_current (owners cl4) ?c = op_current (owners cl) ?c" by blast
  with s b(1) show ?thesis by (simp add: leave_request_def reset_scoped_context_def release_context_def assms(4) bound_def)
qed

lemma django_parts:
  assumes "\<forall>i. at_pid (ms i) = process cl \<and> at_context (ms i) = c" "enter_request h (ms 0) r cl = (ct, rt, cl1)"
    "app cl1 = ((ending, answer), cl2)" "balanced c cl1 cl2"
  shows "\<exists>cl'. django_call h ms now r app cl = (ending, False, cl') \<and> bound c cl' = bound c cl"
proof -
  define cl3 where "cl3 = (case ending of
      Raised err \<Rightarrow> capture_exception h (ms 1) err True False (Some (request_context r)) cl2
    | Returned \<Rightarrow> capture_request h (ms 1) (request_payload r) (Some (response_payload answer (wall (at_clock (ms 0))) now)) None cl2
    | Aborted \<Rightarrow> cl2)"
  have p: "process cl = at_pid (ms 0)" using assms(1) by simp
  have "process cl1 = process cl" by (rule entered [OF assms(2) p])
  then have "process cl2 = at_pid (ms 1)" using assms(1,4) by (simp add: balanced_def)
  from holdings_captures(1,2) [OF this] have "holdings cl3 = holdings cl2" by (simp add: cl3_def split: ending.split)
  then have "balanced (at_context (ms 0)) cl1 cl3" using balanced_refl [OF _ assms(4), of cl3] assms(1) by simp
  from leave_restores [OF assms(2) p this, of "ms 2"] assms(1) obtain cl4 where "leave_request (ms 2) ct rt cl3 = (False, cl4)" "bound c cl4 = bound c cl" by auto
  then show ?thesis unfolding django_call_def assms(2) Let_def prod.case assms(3) cl3_def [symmetric] by simp
qed

lemma fastapi_parts:
  assumes "\<forall>i. at_pid (ms i) = process cl \<and> at_context (ms i) = c" "enter_request h (ms 0) r cl = (ct, rt, cl1)"
    "app cl1 = ((ending, statuses), cl2)" "balanced c cl1 cl2"
  shows "\<exists>cl'. fastapi_http h ms now r app cl = (ending, False, cl') \<and> bound c cl' = bound c cl"
proof -
  define cl3 where "cl3 = (case ending of
      Raised err \<Rightarrow> capture_exception h (ms 2) err True False (Some (request_context r))
        (capture_request h (ms 1) (request_payload r) (Some (response_payload 500 (wall (at_clock (ms 0))) now)) None cl2)
    | _ \<Rightarrow> cl2)"
  define cl4 where "cl4 = (if statuses = [] then cl3
     else capture_request h (ms 3) (request_payload r) (Some (response_payload (last statuses) (wall (at_clock (ms 0))) now)) None cl3)"
  have p: "process cl = at_pid (ms 0)" using assms(1) by simp
  have "process cl1 = process cl" by (rule entered [OF assms(2) p])
  then have p2: "process cl2 = at_pid (ms i)" for i using assms(1,4) by (simp add: balanced_def)
  have o1: "holdings (capture_request h (ms 1) q v g cl2) = holdings cl2" for q v g by (rule holdings_captures(1) [OF p2])
  then have "process (capture_request h (ms 1) q v g cl2) = at_pid (ms 2)" for q v g using p2 [of 2] by (simp add: holdings_def)
  from holdings_captures(2) [OF this] o1 have o3: "holdings cl3 = holdings cl2" by (simp add: cl3_def split: ending.split)
  then have "process cl3 = at_pid (ms 3)" using p2 by (simp add: holdings_def)
  from holdings_captures(1) [OF this] o3 have "holdings cl4 = holdings cl2" by (simp add: cl4_def)
  then have "balanced (at_context (ms 0)) cl1 cl4" using balanced_refl [OF _ assms(4), of cl4] assms(1) by simp
  from leave_restores [OF assms(2) p this, of "ms 4"] assms(1) obtain cl5 where "leave_request (ms 4) ct rt cl4 = (False, cl5)" "bound c cl5 = bound c cl" by auto
  then show ?thesis unfolding fastapi_http_def assms(2) Let_def prod.case assms(3) cl3_def [symmetric] cl4_def [symmetric] by simp
qed

text \<open>
  C11: A request through the Django or the FastAPI middleware ends as the application ended it, whether it answered, raised
  or was aborted, and the context that served it has the scoped values, the probe directives and the operation that it
  had before, provided that the application took back what it bound itself.
\<close>

theorem middleware_restores:
  assumes "\<forall>i. at_pid (ms i) = process cl \<and> at_context (ms i) = c" "as_type s = Some ''http''"
    "enter_request h (ms 0) (asgi_request s) cl = (ct, rt, cl1)" "balanced c cl1 (snd (app cl1))" "balanced c cl1 (snd (asgi cl1))"
  shows "(\<exists>cl'. django_call h ms now (asgi_request s) app cl = (fst (fst (app cl1)), False, cl') \<and> bound c cl' = bound c cl) \<and>
    (\<exists>cl'. fastapi_call h ms now s asgi cl = (fst (fst (asgi cl1)), False, cl') \<and> bound c cl' = bound c cl)"
  using assms(2) django_parts [OF assms(1,3), of app "fst (fst (app cl1))" "snd (fst (app cl1))" "snd (app cl1)" now]
    fastapi_parts [OF assms(1,3), of asgi "fst (fst (asgi cl1))" "snd (fst (asgi cl1))" "snd (asgi cl1)" now] assms(4,5)
  by (simp add: fastapi_call_def)

definition sample_scope :: asgi_scope where
  "sample_scope = \<lparr>as_type = Some ''http'', as_method = None, as_path = Some ''/a'', as_headers = [(''X-Request-Id'', ''7'')], as_query = ''a=1''\<rparr>"

lemma enter_resets:
  "enter_request h m r cl = (ct, rt, cl1) \<Longrightarrow> process cl = at_pid m \<Longrightarrow> sc_reset (scoped cl1) = sc_reset (scoped cl) \<and>
     sc_reset (requests cl1) = sc_reset (requests cl) \<and> op_reset (owners cl1) = op_reset (owners cl)"
  by (auto simp: enter_request_def bind_scoped_context_def begin_request_def ensured bind_context_def bind_directives_def bind_scope_def
      begin_operation_def Let_def split: prod.splits if_splits)

theorem middleware_restores_witness:
  "(\<exists>cl'. django_call sample_host (\<lambda>i. sample_moment) 11 (asgi_request sample_scope) (\<lambda>cl. ((Returned, 200), cl)) sample_client = (Returned, False, cl') \<and>
      bound 0 cl' = (None, None, None)) \<and>
   (\<exists>cl'. fastapi_call sample_host (\<lambda>i. sample_moment) 11 sample_scope (\<lambda>cl. ((Aborted, [200]), cl)) sample_client = (Aborted, False, cl') \<and>
      bound 0 cl' = (None, None, None))"
proof -
  have cl: "process sample_client = 1" "scoped sample_client = no_scopes" "requests sample_client = no_scopes"
    "op_reset (owners sample_client) = []" "op_current (owners sample_client) 0 = None"
    by (simp_all add: clear_operations_def no_operations_def sample_client_def init_client_def new_client_def sample_moment_def ensure_current_process_def Let_def)
  obtain ct rt cl1 where e: "enter_request sample_host sample_moment (asgi_request sample_scope) sample_client = (ct, rt, cl1)" by (metis prod_cases3)
  have "balanced 0 cl1 cl1"
    using enter_resets [OF e] cl by (simp add: sample_moment_def balanced_def no_scopes_def)
  with middleware_restores [OF _ _ e, of 0 "\<lambda>cl. ((Returned, 200), cl)" "\<lambda>cl. ((Aborted, [200]), cl)" 11] cl
  show ?thesis by (simp add: sample_scope_def sample_moment_def bound_def no_scopes_def)
qed

text \<open>
  An application that raises after it has started its response is captured as two requests: one with status 500, and
  one with the status it had sent.
\<close>

lemma raised_after_start:
  assumes "enter_request h (ms 0) r cl = (ct, rt, cl1)" "app cl1 = ((Raised err, [200]), cl2)"
  shows "fastapi_http h ms now r app cl =
    (let payload = (\<lambda>s. Some (response_payload s (wall (at_clock (ms 0))) now));
         first = capture_request h (ms 1) (request_payload r) (payload 500) None cl2;
         failed = capture_exception h (ms 2) err True False (Some (request_context r)) first;
         second = capture_request h (ms 3) (request_payload r) (payload 200) None failed;
         (raised, cl') = leave_request (ms 4) ct rt second
     in (Raised err, raised, cl'))"
  using assms by (simp add: fastapi_http_def Let_def)

text \<open>The correlation names are looked up without regard to case, and an empty header counts as none.\<close>

lemma correlation_example:
  "correlation_context [(''X-Correlation-Id'', ''c''), (''X-Request-ID'', []), (''x-DebugBundle-Trace-Id'', ''t'')] =
     [(PStr ''trace_id'', PStr ''t''), (PStr ''request_id'', PStr ''c'')]"
  by code_simp

end
