(* ===== verification/Log_Capture.thy ===== *)
theory Log_Capture
  imports Exception_Details Integrations
begin

text \<open>
  Captures from loggers: the handler of the standard library (\<open>capture_hooks.py\<close>), the sink for loguru
  (\<open>logger_integrations.py\<close>) and the capture behind structlog's proxies (\<open>structlog_integration._capture\<close>). What a
  record holds is data of the record; None is an exception that reaches the application's logging call.
\<close>

subsection \<open>The message of a record\<close>

definition placeholder :: "char \<Rightarrow> char \<Rightarrow> bool" where
  "placeholder c d \<longleftrightarrow> c = CHR ''%'' \<and> d \<in> {CHR ''s'', CHR ''d'', CHR ''i'', CHR ''f''}"

text \<open>\<open>findall\<close> of the pattern \<open>%[sdif]\<close>, and its \<open>sub\<close> with the next argument each.\<close>

fun placeholders :: "string \<Rightarrow> nat" where
  "placeholders (c # d # s) = (if placeholder c d then Suc (placeholders s) else placeholders (d # s))"
| "placeholders s = 0"

fun fill :: "string \<Rightarrow> string list \<Rightarrow> string" where
  "fill (c # d # s) vs = (if placeholder c d then (case vs of [] \<Rightarrow> [] | v # ws \<Rightarrow> v @ fill s ws) else c # fill (d # s) vs)"
| "fill s vs = s"

definition ARGS_WITHHELD :: string where "ARGS_WITHHELD = '' [log arguments withheld]''"

definition safe_log_message :: "(pyval \<Rightarrow> string) \<Rightarrow> pyval \<Rightarrow> pyval \<Rightarrow> string option" where
  "safe_log_message shown msg given =
     (case msg of
        PStr t \<Rightarrow>
          (let template = take 16384 t
           in if \<not> truthy given then Some template
              else (case given of
                  PTuple xs \<Rightarrow>
                    if 8 < length xs then Some (template @ ARGS_WITHHELD)
                    else map_option (\<lambda>safe. take 16384 (if placeholders template \<noteq> length safe
                        then template @ '' [args: '' @ comma_join safe @ '']'' else fill template safe))
                      (those (map (safe_part shown) xs))
                | _ \<Rightarrow> Some (template @ ARGS_WITHHELD)))
      | _ \<Rightarrow> Some ''[non-string log message withheld]'')"

subsection \<open>The handler of the standard library\<close>

record log_record =
  lr_levelname :: string
  lr_levelno :: int
  lr_name :: string
  lr_pathname :: string
  lr_lineno :: int
  lr_msg :: pyval
  lr_args :: pyval
  lr_error :: "thrown option"

definition emit :: "host \<Rightarrow> moment \<Rightarrow> log_record \<Rightarrow> client \<Rightarrow> client option" where
  "emit h m r cl =
     (case log_level_eligible (enabled (queue cl)) (log_level (queue cl)) (policy (queue cl)) (str_lower (lr_levelname r)) of
        None \<Rightarrow> None
      | Some False \<Rightarrow> Some cl
      | Some True \<Rightarrow>
        let about = [(PStr ''logger_name'', PStr (lr_name r)), (PStr ''pathname'', PStr (lr_pathname r)), (PStr ''lineno'', PInt (lr_lineno r))];
            msg = safe_log_message (h_shown h) (lr_msg r) (lr_args r)
        in case (if 40 \<le> lr_levelno r then lr_error r else None) of
             Some err \<Rightarrow> map_option (\<lambda>s. capture_exception h m err True False (Some (about @ [(PStr ''log_message'', PStr s)])) cl) msg
           | None \<Rightarrow> map_option (\<lambda>s. capture_log h m (PStr s) (str_lower (lr_levelname r)) (Some about) cl) msg)"

subsection \<open>Loguru\<close>

definition loguru_level :: "string \<Rightarrow> string" where
  "loguru_level level =
     (let n = str_strip (str_lower level) in if n = ''warn'' then ''warning'' else if n = ''exception'' then ''error'' else n)"

record loguru_record =
  gr_extra :: pydict
  gr_level :: string
  gr_message :: pyval
  gr_error :: "thrown option"

definition some_dict :: "pydict \<Rightarrow> pydict option" where
  "some_dict d = (if d = [] then None else Some d)"

definition text_or_empty :: "(pyval \<Rightarrow> string) \<Rightarrow> pyval \<Rightarrow> string" where
  "text_or_empty shown v = (if truthy v then py_str shown v else [])"

definition about_logger :: "string \<Rightarrow> string \<Rightarrow> pydict \<Rightarrow> pydict" where
  "about_logger name msg d = dput ''log_message'' (PStr msg) (dput ''logger_name'' (PStr name) d)"

definition loguru_sink :: "host \<Rightarrow> moment \<Rightarrow> loguru_record \<Rightarrow> client \<Rightarrow> client" where
  "loguru_sink h m r cl =
     (let level = loguru_level (gr_level r); msg = text_or_empty (h_shown h) (gr_message r)
      in case (if level \<in> {''error'', ''critical''} then gr_error r else None) of
           Some err \<Rightarrow>
             if \<not> log_eligible level cl then cl
             else capture_exception h m err True False (Some (about_logger ''loguru'' msg (gr_extra r))) cl
         | None \<Rightarrow> capture_log h m (PStr msg) level (some_dict (gr_extra r)) cl)"

subsection \<open>Structlog\<close>

text \<open>\<open>_capture\<close>; \<open>err\<close> is the exception that \<open>exc_info\<close> leads to. While a capture runs in a context, nothing else is captured in it.\<close>

definition structlog_level :: "string \<Rightarrow> string" where
  "structlog_level name = (if name = ''warn'' then ''warning'' else if name = ''exception'' then ''error'' else if name = ''fatal'' then ''critical'' else name)"

definition structlog_capture :: "host \<Rightarrow> moment \<Rightarrow> bool \<Rightarrow> bool \<Rightarrow> string \<Rightarrow> pydict \<Rightarrow> thrown option \<Rightarrow> client \<Rightarrow> client" where
  "structlog_capture h m active capturing name r err cl =
     (if \<not> active \<or> capturing then cl
      else
        let msg = (if has_key ''event'' r then py_str (h_shown h) (dgetn r ''event'') else []); d = ddel ''event'' r; level = structlog_level name
        in case (if level \<in> {''error'', ''critical''} then err else None) of
             Some x \<Rightarrow>
               if \<not> log_eligible level cl then cl
               else capture_exception h m x True False (Some (about_logger ''structlog'' msg (ddel ''exc_info'' d))) cl
           | None \<Rightarrow> capture_log h m (PStr msg) level (some_dict d) cl)"

subsection \<open>Exact messages\<close>

text \<open>The texts between the placeholders, and their alternation with the arguments.\<close>

fun pieces :: "string \<Rightarrow> string list" where
  "pieces (c # d # s) = (if placeholder c d then [] # pieces s else (case pieces (d # s) of [] \<Rightarrow> [[c]] | p # ps \<Rightarrow> (c # p) # ps))"
| "pieces s = [s]"

fun weave :: "string list \<Rightarrow> string list \<Rightarrow> string" where
  "weave (p # ps) (v # vs) = p @ v @ weave ps vs"
| "weave ps vs = concat ps"

lemma pieces_length: "length (pieces s) = Suc (placeholders s)"
  by (induction s rule: pieces.induct) (auto split: list.split)

lemma fill_weave: "placeholders s = length vs \<Longrightarrow> fill s vs = weave (pieces s) vs"
proof (induction s arbitrary: vs rule: pieces.induct)
  case (1 c d s)
  show ?case
  proof (cases "placeholder c d")
    case True
    with "1.prems" obtain v ws where "vs = v # ws" "placeholders s = length ws" by (cases vs) auto
    with True "1.IH"(1) show ?thesis by simp
  next
    case False
    with "1.prems" have n: "placeholders (d # s) = length vs" by (auto split: if_splits)
    obtain p ps where p: "pieces (d # s) = p # ps" using pieces_length [of "d # s"] by (cases "pieces (d # s)") auto
    with False "1.IH"(2) [OF False n] show ?thesis by (cases vs) simp_all
  qed
qed auto

text \<open>
  C37: The message captured for a record is the text of the logging call: with as many plain placeholders as arguments
  it is the template with the arguments in their places, in order, none of them read as a template again; an application
  object is never rendered, and whatever was logged the message has at most 16409 characters.
\<close>

theorem safe_message_exact:
  assumes "safe_log_message shown msg given = Some out"
  shows "length out \<le> 16409 \<and>
    (\<forall>t xs vs. msg = PStr t \<and> given = PTuple xs \<and> xs \<noteq> [] \<and> length xs \<le> 8 \<and> placeholders (take 16384 t) = length xs \<and>
       map (safe_part shown) xs = map Some vs \<longrightarrow> out = take 16384 (weave (pieces (take 16384 t)) vs))"
proof
  have w: "length ARGS_WITHHELD = 25" by (simp add: ARGS_WITHHELD_def)
  show "length out \<le> 16409"
  proof (cases msg)
    case (PStr t)
    with assms have "(\<exists>x. out = take 16384 x) \<or> out = take 16384 t @ ARGS_WITHHELD"
      by (auto simp del: take_append simp: safe_log_message_def Let_def split: pyval.splits if_splits)
    then show ?thesis using w by auto
  qed (use assms in \<open>auto simp: safe_log_message_def\<close>)
  show "\<forall>t xs vs. msg = PStr t \<and> given = PTuple xs \<and> xs \<noteq> [] \<and> length xs \<le> 8 \<and> placeholders (take 16384 t) = length xs \<and>
       map (safe_part shown) xs = map Some vs \<longrightarrow> out = take 16384 (weave (pieces (take 16384 t)) vs)"
  proof (intro allI impI)
    fix t xs vs
    assume a: "msg = PStr t \<and> given = PTuple xs \<and> xs \<noteq> [] \<and> length xs \<le> 8 \<and> placeholders (take 16384 t) = length xs \<and>
       map (safe_part shown) xs = map Some vs"
    then have n: "length vs = length xs" by (metis length_map)
    have "those (map (safe_part shown) xs) = Some vs" using a by (simp add: those_Some)
    with a n assms show "out = take 16384 (weave (pieces (take 16384 t)) vs)"
      by (simp add: safe_log_message_def Let_def fill_weave)
  qed
qed

theorem safe_message_exact_witness:
  "safe_log_message (\<lambda>v. []) (PStr ''%s is %d'') (PTuple [PStr ''%d'', PInt 7]) = Some ''%d is 7'' \<and>
   take 16384 (weave (pieces (take 16384 ''%s is %d'')) [''%d'', ''7'']) = ''%d is 7''"
proof -
  have seven: "dec_int 7 = ''7''" by code_simp
  have e: "safe_log_message (\<lambda>v. []) (PStr ''%s is %d'') (PTuple [PStr ''%d'', PInt 7]) = Some ''%d is 7''"
    using seven by (simp add: safe_log_message_def placeholder_def)
  have "placeholders (take 16384 ''%s is %d'') = 2" "safe_part (\<lambda>v. []) (PStr ''%d'') = Some ''%d''" "safe_part (\<lambda>v. []) (PInt 7) = Some ''7''"
    using seven by (simp_all add: placeholder_def)
  with safe_message_exact [OF e, THEN conjunct2, rule_format, of "''%s is %d''" "[PStr ''%d'', PInt 7]" "[''%d'', ''7'']"] e
  show ?thesis by simp
qed

text \<open>
  C38: The handler of the standard library raises into the application's logging call for exactly one kind of record
  that passes the level: a text template with one to eight arguments of which one is an int of more than 4300 digits.
\<close>

theorem handler_raises_iff:
  assumes "log_level_eligible (enabled (queue cl)) (log_level (queue cl)) (policy (queue cl)) (str_lower (lr_levelname r)) = Some True"
  shows "emit h m r cl = None \<longleftrightarrow> (\<exists>t xs i. lr_msg r = PStr t \<and> lr_args r = PTuple xs \<and> length xs \<le> 8 \<and>
    PInt i \<in> set xs \<and> 4300 < length (dec_int \<bar>i\<bar>))"
proof -
  have part: "safe_part shown v = None \<longleftrightarrow> (\<exists>i. v = PInt i \<and> 4300 < length (dec_int \<bar>i\<bar>))" for shown v by (cases v) auto
  have "emit h m r cl = None \<longleftrightarrow> safe_log_message (h_shown h) (lr_msg r) (lr_args r) = None"
    using assms by (simp add: emit_def Let_def split: option.split)
  also have "\<dots> \<longleftrightarrow> (\<exists>t xs. lr_msg r = PStr t \<and> lr_args r = PTuple xs \<and> length xs \<le> 8 \<and> None \<in> safe_part (h_shown h) ` set xs)"
    by (auto simp: safe_log_message_def Let_def those_None split: pyval.splits)
  also have "\<dots> \<longleftrightarrow> (\<exists>t xs i. lr_msg r = PStr t \<and> lr_args r = PTuple xs \<and> length xs \<le> 8 \<and>
    PInt i \<in> set xs \<and> 4300 < length (dec_int \<bar>i\<bar>))"
  proof -
    have "None \<in> safe_part (h_shown h) ` set xs \<longleftrightarrow> (\<exists>i. PInt i \<in> set xs \<and> 4300 < length (dec_int \<bar>i\<bar>))" for xs
      unfolding image_iff using part by metis
    then show ?thesis by metis
  qed
  finally show ?thesis .
qed

lemma sample_logs: "log_level_eligible (enabled (queue sample_client)) (log_level (queue sample_client)) (policy (queue sample_client)) ''error'' = Some True"
  by code_simp

lemma digits_enough: "n < 10 ^ length (dec_nat n)"
proof (induction n rule: dec_nat.induct)
  case (1 n)
  show ?case
  proof (cases "n < 10")
    case False
    with 1 have "n div 10 < 10 ^ length (dec_nat (n div 10))" by simp
    then have "n < 10 * 10 ^ length (dec_nat (n div 10))" by linarith
    with False show ?thesis by (simp add: dec_nat.simps [of n])
  qed (simp add: dec_nat.simps [of n])
qed

lemma digits_more: "n = 10 ^ k \<Longrightarrow> k < length (dec_nat n)"
  using digits_enough [of n] by simp

definition huge_record :: log_record where
  "huge_record = \<lparr>lr_levelname = ''ERROR'', lr_levelno = 40, lr_name = ''app'', lr_pathname = ''a.py'', lr_lineno = 1,
     lr_msg = PStr ''%d'', lr_args = PTuple [PInt (10 ^ 4300)], lr_error = None\<rparr>"

theorem handler_raises_iff_witness: "emit sample_host sample_moment huge_record sample_client = None"
proof -
  define N :: int where "N = 10 ^ 4300"
  have pos: "0 \<le> N" unfolding N_def by (simp only: zero_le_power zero_le_numeral)
  have "nat N = 10 ^ 4300" unfolding N_def by (simp only: nat_power_eq zero_le_numeral nat_numeral)
  then have "4300 < length (dec_nat (nat N))" by (rule digits_more)
  then have d: "4300 < length (dec_int \<bar>N\<bar>)" using pos by (simp add: dec_int_def)
  have l: "str_lower (lr_levelname huge_record) = ''error''"
    unfolding huge_record_def log_record.simps by code_simp
  have "lr_msg huge_record = PStr ''%d''" "lr_args huge_record = PTuple [PInt N]" by (simp_all only: huge_record_def log_record.simps N_def)
  moreover have "length [PInt N] \<le> 8" "PInt N \<in> set [PInt N]" by simp_all
  ultimately show ?thesis
    using handler_raises_iff [of sample_client huge_record sample_host sample_moment, unfolded l, OF sample_logs] d by blast
qed

end
