(* ===== verification/Process_Hooks.thy ===== *)
theory Process_Hooks
  imports Log_Capture
begin

text \<open>
  The hooks that a client puts into the process (\<open>core.py\<close>: \<open>capture_exceptions\<close>, \<open>capture_logging\<close>, \<open>capture_async\<close>
  and the part of \<open>dispose\<close> that takes them out; \<open>logger_integrations.py\<close>: attaching to structlog and loguru). The
  process is what the interpreter and the libraries hold: the uncaught-exception hook, the handlers of every logger
  and event loop, structlog's \<open>get_logger\<close> and loguru's sinks, the last two None where the library is missing.
\<close>

datatype hook = Native nat | Ours

datatype restorer = Restore_structlog hook | Remove_sink

record hooks =
  sys_hook :: hook
  logger_handlers :: "nat \<Rightarrow> hook list"
  loop_handler :: "nat \<Rightarrow> hook option"
  get_logger :: "hook option"
  loguru_sinks :: "hook list option"
  original_hook :: "hook option"
  logging_bindings :: "nat list"
  async_handlers :: "(nat \<times> hook option) list"
  restorers :: "restorer list"

definition hook_exceptions :: "hooks \<Rightarrow> hooks" where
  "hook_exceptions s = s\<lparr>original_hook := (case original_hook s of None \<Rightarrow> Some (sys_hook s) | Some g \<Rightarrow> Some g), sys_hook := Ours\<rparr>"

definition attach_structlog :: "hooks \<Rightarrow> restorer option \<times> hooks" where
  "attach_structlog s = (case get_logger s of
     Some (Native n) \<Rightarrow> (Some (Restore_structlog (Native n)), s\<lparr>get_logger := Some Ours\<rparr>) | _ \<Rightarrow> (None, s))"

definition attach_loguru :: "hooks \<Rightarrow> restorer option \<times> hooks" where
  "attach_loguru s = (case loguru_sinks s of None \<Rightarrow> (None, s) | Some gs \<Rightarrow> (Some Remove_sink, s\<lparr>loguru_sinks := Some (gs @ [Ours])\<rparr>))"

definition attach_optional_integrations :: "hooks \<Rightarrow> hooks" where
  "attach_optional_integrations s =
     (let (a, s1) = attach_structlog s; (b, s2) = attach_loguru s1
      in s2\<lparr>restorers := (case a of None \<Rightarrow> [] | Some x \<Rightarrow> [x]) @ (case b of None \<Rightarrow> [] | Some x \<Rightarrow> [x])\<rparr>)"

definition hook_logging :: "nat \<Rightarrow> hooks \<Rightarrow> hooks" where
  "hook_logging logger s =
     (let s1 = (if logger \<in> set (logging_bindings s) then s
                else s\<lparr>logger_handlers := (logger_handlers s)(logger := logger_handlers s logger @ [Ours]),
                       logging_bindings := logging_bindings s @ [logger]\<rparr>)
      in if restorers s1 = [] then attach_optional_integrations s1 else s1)"

definition hook_async :: "nat \<Rightarrow> hooks \<Rightarrow> hooks" where
  "hook_async loop s =
     (if loop \<in> set (map fst (async_handlers s)) then s
      else s\<lparr>async_handlers := async_handlers s @ [(loop, loop_handler s loop)], loop_handler := (loop_handler s)(loop := Some Ours)\<rparr>)"

text \<open>A restorer of \<open>dispose\<close>; None when it raises: loguru refuses to remove a sink that is gone.\<close>

definition restore :: "restorer \<Rightarrow> hooks \<Rightarrow> hooks option" where
  "restore r s = (case r of
     Restore_structlog g \<Rightarrow> Some (if get_logger s = Some Ours then s\<lparr>get_logger := Some g\<rparr> else s)
   | Remove_sink \<Rightarrow> (case loguru_sinks s of
        Some gs \<Rightarrow> if Ours \<in> set gs then Some (s\<lparr>loguru_sinks := Some (remove1 Ours gs)\<rparr>) else None
      | None \<Rightarrow> None))"

fun restore_all :: "restorer list \<Rightarrow> hooks \<Rightarrow> bool \<times> hooks" where
  "restore_all [] s = (False, s)"
| "restore_all (r # rs) s = (case restore r s of None \<Rightarrow> (True, s) | Some s1 \<Rightarrow> restore_all rs s1)"

definition unhook_loggers :: "hooks \<Rightarrow> hooks" where
  "unhook_loggers s = s\<lparr>logging_bindings := [],
     logger_handlers := fold (\<lambda>l f. f(l := remove1 Ours (f l))) (logging_bindings s) (logger_handlers s)\<rparr>"

definition unhook_rest :: "hooks \<Rightarrow> hooks" where
  "unhook_rest s = s\<lparr>restorers := [], sys_hook := (case original_hook s of None \<Rightarrow> sys_hook s | Some g \<Rightarrow> g), original_hook := None,
     loop_handler := fold (\<lambda>(l, g) f. f(l := g)) (async_handlers s) (loop_handler s), async_handlers := []\<rparr>"

text \<open>What \<open>dispose\<close> does to the hooks, and whether it raised: then the hooks from there on stay.\<close>

definition unhook :: "hooks \<Rightarrow> bool \<times> hooks" where
  "unhook s = (let (raised, s1) = restore_all (restorers s) (unhook_loggers s) in if raised then (True, s1) else (False, unhook_rest s1))"

subsection \<open>What the hooks do\<close>

text \<open>An exception that nobody catches, with its traceback: the native hooks that run, and the client.\<close>

definition uncaught ::
  "host \<Rightarrow> moment \<Rightarrow> heap \<Rightarrow> nat \<Rightarrow> (string \<times> string \<times> 32 word) list \<Rightarrow> bool \<Rightarrow> nat \<Rightarrow> receipt option \<Rightarrow> pyval \<Rightarrow> hooks \<Rightarrow> client \<Rightarrow> nat list \<times> client" where
  "uncaught h m hp e tb hooked owner slot facts s cl =
     (case sys_hook s of
        Native n \<Rightarrow> ([n], cl)
      | Ours \<Rightarrow> ([], capture_native h m (if traceback (hp e) = [] then hp(e := (hp e)\<lparr>traceback := tb\<rparr>) else hp) e hooked owner slot facts False True None cl))"

definition loop_exception :: "host \<Rightarrow> moment \<Rightarrow> thrown option \<Rightarrow> pyval \<Rightarrow> client \<Rightarrow> client" where
  "loop_exception h m err msg cl =
     (case err of
        Some x \<Rightarrow> capture_exception h m x False False None cl
      | None \<Rightarrow> capture_message h m (PStr (if truthy msg then py_str (h_shown h) msg else ''asyncio exception'')) (Some ''error'') None cl)"

subsection \<open>Hooking and disposing\<close>

datatype hooking = Exceptions | Logging nat | Async nat

fun hooked_by :: "hooking \<Rightarrow> hooks \<Rightarrow> hooks" where
  "hooked_by Exceptions s = hook_exceptions s"
| "hooked_by (Logging l) s = hook_logging l s"
| "hooked_by (Async l) s = hook_async l s"

definition untouched :: "hooks \<Rightarrow> bool" where
  "untouched s \<longleftrightarrow> (\<forall>l. Ours \<notin> set (logger_handlers s l)) \<and> get_logger s \<noteq> Some Ours \<and>
     (case loguru_sinks s of None \<Rightarrow> True | Some gs \<Rightarrow> Ours \<notin> set gs) \<and>
     original_hook s = None \<and> logging_bindings s = [] \<and> async_handlers s = [] \<and> restorers s = []"

text \<open>The parts that the operations work on, related to the process as it was.\<close>

definition logging_ok :: "hooks \<Rightarrow> hooks \<Rightarrow> bool" where
  "logging_ok s0 s \<longleftrightarrow> distinct (logging_bindings s) \<and>
     (\<forall>l. logger_handlers s l = logger_handlers s0 l @ (if l \<in> set (logging_bindings s) then [Ours] else []))"

definition async_ok :: "hooks \<Rightarrow> hooks \<Rightarrow> bool" where
  "async_ok s0 s \<longleftrightarrow> distinct (map fst (async_handlers s)) \<and>
     (\<forall>(l, g) \<in> set (async_handlers s). g = loop_handler s0 l) \<and>
     (\<forall>l. l \<notin> set (map fst (async_handlers s)) \<longrightarrow> loop_handler s l = loop_handler s0 l)"

definition optional_ok :: "hooks \<Rightarrow> hooks \<Rightarrow> bool" where
  "optional_ok s0 s \<longleftrightarrow> restorers s = [] \<and> get_logger s = get_logger s0 \<and> loguru_sinks s = loguru_sinks s0 \<or>
     (let s1 = attach_optional_integrations s0 in restorers s = restorers s1 \<and> get_logger s = get_logger s1 \<and> loguru_sinks s = loguru_sinks s1)"

definition hooks_ok :: "hooks \<Rightarrow> hooks \<Rightarrow> bool" where
  "hooks_ok s0 s \<longleftrightarrow> logging_ok s0 s \<and> async_ok s0 s \<and> optional_ok s0 s \<and>
     (case original_hook s of None \<Rightarrow> sys_hook s = sys_hook s0 | Some g \<Rightarrow> g = sys_hook s0)"

lemma attach_parts:
  "sys_hook (attach_optional_integrations s) = sys_hook s" "original_hook (attach_optional_integrations s) = original_hook s"
  "logger_handlers (attach_optional_integrations s) = logger_handlers s" "logging_bindings (attach_optional_integrations s) = logging_bindings s"
  "loop_handler (attach_optional_integrations s) = loop_handler s" "async_handlers (attach_optional_integrations s) = async_handlers s"
  by (simp_all add: attach_optional_integrations_def attach_structlog_def attach_loguru_def Let_def split_beta split: option.split hook.split)

lemma attach_agrees:
  "get_logger s = get_logger t \<Longrightarrow> loguru_sinks s = loguru_sinks t \<Longrightarrow>
     restorers (attach_optional_integrations s) = restorers (attach_optional_integrations t) \<and>
     get_logger (attach_optional_integrations s) = get_logger (attach_optional_integrations t) \<and>
     loguru_sinks (attach_optional_integrations s) = loguru_sinks (attach_optional_integrations t)"
  by (simp add: attach_optional_integrations_def attach_structlog_def attach_loguru_def Let_def split_beta split: option.split hook.split)

lemma attach_nothing:
  "restorers (attach_optional_integrations s) = [] \<Longrightarrow> get_logger (attach_optional_integrations s) = get_logger s \<and>
     loguru_sinks (attach_optional_integrations s) = loguru_sinks s"
  by (auto simp: attach_optional_integrations_def attach_structlog_def attach_loguru_def Let_def split_beta split: option.splits hook.splits)

lemma hooks_ok_step:
  assumes "hooks_ok s0 s"
  shows "hooks_ok s0 (hooked_by x s)"
proof (cases x)
  case Exceptions
  with assms show ?thesis
    by (simp add: hooks_ok_def hook_exceptions_def logging_ok_def async_ok_def optional_ok_def split: option.splits)
next
  case (Logging l)
  define s1 where "s1 = (if l \<in> set (logging_bindings s) then s
     else s\<lparr>logger_handlers := (logger_handlers s)(l := logger_handlers s l @ [Ours]), logging_bindings := logging_bindings s @ [l]\<rparr>)"
  have s1: "hooks_ok s0 s1" using assms by (auto simp: hooks_ok_def s1_def logging_ok_def async_ok_def optional_ok_def split: option.splits)
  show ?thesis
  proof (cases "restorers s1 = []")
    case True
    then have "get_logger s1 = get_logger s0 \<and> loguru_sinks s1 = loguru_sinks s0"
      using s1 attach_nothing [of s0] by (auto simp: hooks_ok_def optional_ok_def Let_def)
    then have "optional_ok s0 (attach_optional_integrations s1)" using attach_agrees [of s1 s0] by (simp add: optional_ok_def Let_def)
    then have "hooks_ok s0 (attach_optional_integrations s1)"
      using s1 by (simp add: hooks_ok_def logging_ok_def async_ok_def attach_parts split: option.splits)
    with True Logging show ?thesis by (simp add: hook_logging_def s1_def [symmetric])
  next
    case False
    with s1 Logging show ?thesis by (simp add: hook_logging_def s1_def [symmetric])
  qed
next
  case (Async l)
  with assms show ?thesis by (auto simp: hooks_ok_def hook_async_def logging_ok_def async_ok_def optional_ok_def split: option.splits)
qed

interpretation hooking: preserved hooked_by "hooks_ok s0" for s0
  by unfold_locales (rule hooks_ok_step)

lemma hooks_ok_start: "untouched s0 \<Longrightarrow> hooks_ok s0 s0"
  by (simp add: untouched_def hooks_ok_def logging_ok_def async_ok_def optional_ok_def)

lemma unhook_loggers_fold:
  "distinct ls \<Longrightarrow> fold (\<lambda>l f. f(l := remove1 Ours (f l))) ls f l = (if l \<in> set ls then remove1 Ours (f l) else f l)"
  by (induction ls arbitrary: f) auto

lemma unhook_loops_fold:
  "distinct (map fst gs) \<Longrightarrow> fold (\<lambda>(l, g) f. f(l := g)) gs f l = (case map_of gs l of None \<Rightarrow> f l | Some g \<Rightarrow> g)"
proof (induction gs arbitrary: f)
  case (Cons x gs)
  obtain k g where x: "x = (k, g)" by (cases x)
  then have "map_of gs k = None" using Cons.prems by (simp add: map_of_eq_None_iff)
  with Cons x show ?case by simp
qed simp

lemma restore_attached:
  assumes "untouched s0" "restorers s = restorers (attach_optional_integrations s0)"
    "get_logger s = get_logger (attach_optional_integrations s0)" "loguru_sinks s = loguru_sinks (attach_optional_integrations s0)"
  shows "restore_all (restorers s) s = (False, s\<lparr>get_logger := get_logger s0, loguru_sinks := loguru_sinks s0\<rparr>)"
proof -
  have g: "get_logger s0 = None \<or> (\<exists>n. get_logger s0 = Some (Native n))"
    using assms(1) by (cases "get_logger s0"; cases "the (get_logger s0)") (auto simp: untouched_def)
  have r: "remove1 Ours (gs @ [Ours]) = gs" if "loguru_sinks s0 = Some gs" for gs
    using assms(1) that by (simp add: untouched_def remove1_append)
  show ?thesis
  proof (cases "loguru_sinks s0")
    case None
    with g assms(2-) show ?thesis
      by (auto simp: attach_optional_integrations_def attach_structlog_def attach_loguru_def restore_def intro!: hooks.equality)
  next
    case (Some gs)
    with g assms(2-) r show ?thesis
      by (auto simp: attach_optional_integrations_def attach_structlog_def attach_loguru_def restore_def intro!: hooks.equality)
  qed
qed

lemma restore_ok:
  assumes "untouched s0" "optional_ok s0 s"
  shows "restore_all (restorers s) s = (False, s\<lparr>get_logger := get_logger s0, loguru_sinks := loguru_sinks s0\<rparr>)"
proof (cases "restorers s = [] \<and> get_logger s = get_logger s0 \<and> loguru_sinks s = loguru_sinks s0")
  case False
  with assms restore_attached [OF assms(1), of s] show ?thesis by (simp add: optional_ok_def Let_def)
qed simp

text \<open>
  C10: Disposing a client takes out exactly what the client put into the process: after any sequence of hooking the
  uncaught exceptions, loggers and event loops, repeated or not, \<open>dispose\<close> does not raise, and the hook for uncaught
  exceptions, every logger, every event loop, structlog and loguru are as they were before.
\<close>

theorem dispose_restores:
  assumes "untouched s0"
  shows "unhook (run hooked_by xs s0) = (False, s0)"
proof -
  define s where "s = run hooked_by xs s0"
  have ok: "hooks_ok s0 s" unfolding s_def by (rule hooking.run_inv [OF hooks_ok_start [OF assms]])
  have "optional_ok s0 (unhook_loggers s)" using ok by (simp add: hooks_ok_def optional_ok_def unhook_loggers_def)
  from restore_ok [OF assms this] have r: "restore_all (restorers s) (unhook_loggers s) =
      (False, (unhook_loggers s)\<lparr>get_logger := get_logger s0, loguru_sinks := loguru_sinks s0\<rparr>)" by (simp add: unhook_loggers_def)
  have l: "logger_handlers (unhook_loggers s) = logger_handlers s0"
  proof
    fix l
    have "Ours \<notin> set (logger_handlers s0 l)" using assms by (simp add: untouched_def)
    then show "logger_handlers (unhook_loggers s) l = logger_handlers s0 l"
      using ok by (simp add: unhook_loggers_def unhook_loggers_fold hooks_ok_def logging_ok_def remove1_append)
  qed
  have a: "fold (\<lambda>(l, g) f. f(l := g)) (async_handlers s) (loop_handler s) = loop_handler s0"
  proof
    fix l
    have "async_ok s0 s" using ok by (simp add: hooks_ok_def)
    then show "fold (\<lambda>(l, g) f. f(l := g)) (async_handlers s) (loop_handler s) l = loop_handler s0 l"
      by (auto simp: async_ok_def unhook_loops_fold map_of_eq_None_iff dest: map_of_SomeD split: option.split)
  qed
  have e: "(case original_hook s of None \<Rightarrow> sys_hook s | Some g \<Rightarrow> g) = sys_hook s0" using ok by (simp add: hooks_ok_def split: option.splits)
  have "unhook s = (False, unhook_rest ((unhook_loggers s)\<lparr>get_logger := get_logger s0, loguru_sinks := loguru_sinks s0\<rparr>))"
    using r by (simp add: unhook_def unhook_loggers_def)
  moreover have "unhook_rest ((unhook_loggers s)\<lparr>get_logger := get_logger s0, loguru_sinks := loguru_sinks s0\<rparr>) = s0"
    using l a e assms by (intro hooks.equality) (simp_all add: unhook_rest_def unhook_loggers_def untouched_def split: option.splits)
  ultimately show ?thesis by (simp add: s_def)
qed

definition plain_process :: hooks where
  "plain_process = \<lparr>sys_hook = Native 0, logger_handlers = (\<lambda>l. [Native 1]), loop_handler = (\<lambda>l. None), get_logger = Some (Native 2),
     loguru_sinks = Some [Native 3], original_hook = None, logging_bindings = [], async_handlers = [], restorers = []\<rparr>"

theorem dispose_restores_witness:
  "unhook (run hooked_by [Exceptions, Logging 0, Async 4, Logging 0, Exceptions] plain_process) = (False, plain_process)"
  by (rule dispose_restores) (simp add: plain_process_def untouched_def)

text \<open>The hook that the client replaced does not run any more: nobody reports an uncaught exception on the terminal.\<close>

lemma hooked_never_reports: "fst (uncaught h m hp e tb hooked owner slot facts (hook_exceptions s) cl) = []"
  by (simp add: uncaught_def hook_exceptions_def)

text \<open>
  A loguru that dropped its sinks in between makes \<open>dispose\<close> raise, and the hook for uncaught exceptions stays.
\<close>

lemma dispose_stops_at_lost_sink:
  "let s = run hooked_by [Exceptions, Logging 0] plain_process; (raised, s') = unhook (s\<lparr>loguru_sinks := Some []\<rparr>)
   in raised \<and> sys_hook s' = Ours \<and> restorers s' \<noteq> []"
  by (simp add: plain_process_def hook_exceptions_def hook_logging_def attach_optional_integrations_def attach_structlog_def
      attach_loguru_def unhook_def unhook_loggers_def restore_def)

end
