(* ===== verification/Response.thy ===== *)
theory Response
  imports Evidence_Json
begin

text \<open>
  \<open>evidence_http.bounded_response_json\<close>: reading the body of an answer within 256 KiB and a deadline. A response is its
  headers and its body, either read already or as the chunks that arrive, each with the monotonic time after it;
  bytes are characters. \<open>loads\<close> is \<open>json.loads\<close>, None for every exception that the code catches.
\<close>

definition MAX_RESPONSE_BYTES :: nat where "MAX_RESPONSE_BYTES = 256 * 1024"

datatype http_body = Consumed string | Chunks "(string \<times> rat) list"

record http_response =
  rs_content_length :: "string option"
  rs_content_encoding :: "string option"
  rs_body :: http_body

text \<open>\<open>isdigit\<close> also holds of three superscripts, which \<open>int\<close> refuses; None is that ValueError.\<close>

definition length_header_ok :: "string option \<Rightarrow> bool option" where
  "length_header_ok announced = (case announced of
     None \<Rightarrow> Some True
   | Some s \<Rightarrow>
       if s = [] \<or> \<not> list_all (\<lambda>c. is_digit c \<or> ord_of c \<in> {178, 179, 185}) s then Some True
       else if list_all is_digit s then Some (nat_of_digits s \<le> MAX_RESPONSE_BYTES) else None)"

definition encoding_ok :: "string option \<Rightarrow> bool" where
  "encoding_ok enc = (case enc of None \<Rightarrow> True | Some s \<Rightarrow> str_lower s \<in> {''identity'', []})"

fun read_chunks :: "rat \<Rightarrow> (string \<times> rat) list \<Rightarrow> string \<Rightarrow> string option" where
  "read_chunks deadline [] buffer = Some buffer"
| "read_chunks deadline ((chunk, now) # cs) buffer =
     (if MAX_RESPONSE_BYTES - length buffer < length chunk \<or> deadline < now then None else read_chunks deadline cs (buffer @ chunk))"

text \<open>\<open>checked\<close> is the time when a body that was read already is looked at, \<open>now\<close> the time before parsing.\<close>

definition bounded_response_json :: "(string \<Rightarrow> pyval option) \<Rightarrow> rat \<Rightarrow> rat \<Rightarrow> rat \<Rightarrow> http_response \<Rightarrow> pyval option" where
  "bounded_response_json loads deadline checked now r =
     (if length_header_ok (rs_content_length r) \<noteq> Some True \<or> \<not> encoding_ok (rs_content_encoding r) then None
      else (case (case rs_body r of
            Consumed s \<Rightarrow> if MAX_RESPONSE_BYTES < length s \<or> deadline < checked then None else Some s
          | Chunks cs \<Rightarrow> read_chunks deadline cs []) of
          None \<Rightarrow> None
        | Some s \<Rightarrow> if now \<le> deadline then loads s else None))"

lemma read_chunks_iff:
  "length buffer \<le> MAX_RESPONSE_BYTES \<Longrightarrow> read_chunks deadline cs buffer = Some s \<longleftrightarrow>
     s = buffer @ concat (map fst cs) \<and> length s \<le> MAX_RESPONSE_BYTES \<and> (\<forall>(c, t) \<in> set cs. t \<le> deadline)"
proof (induction deadline cs buffer rule: read_chunks.induct)
  case (2 deadline chunk now cs buffer)
  show ?case
  proof (cases "MAX_RESPONSE_BYTES - length buffer < length chunk \<or> deadline < now")
    case True
    with 2(2) show ?thesis by auto
  next
    case False
    then have "length (buffer @ chunk) \<le> MAX_RESPONSE_BYTES" using 2(2) by auto
    from 2(1) [OF False this] False show ?thesis by auto
  qed
qed auto

text \<open>
  C39: The body of an answer is read exactly when it is announced and sent unencoded within 256 KiB, each of its chunks has
  arrived by the deadline and there is time left to parse it; then it is the parsed text of all chunks in order, and
  never more than 256 KiB are held.
\<close>

theorem response_read_iff:
  "bounded_response_json loads deadline checked now \<lparr>rs_content_length = len, rs_content_encoding = enc, rs_body = Chunks cs\<rparr> = Some v \<longleftrightarrow>
     length_header_ok len = Some True \<and> encoding_ok enc \<and> length (concat (map fst cs)) \<le> MAX_RESPONSE_BYTES \<and>
     (\<forall>(c, t) \<in> set cs. t \<le> deadline) \<and> now \<le> deadline \<and> loads (concat (map fst cs)) = Some v"
proof (cases "read_chunks deadline cs []")
  case None
  then have "\<not> (length (concat (map fst cs)) \<le> MAX_RESPONSE_BYTES \<and> (\<forall>(c, t) \<in> set cs. t \<le> deadline))"
    using read_chunks_iff [of "[]" deadline cs "concat (map fst cs)"] by simp
  with None show ?thesis by (auto simp: bounded_response_json_def)
next
  case (Some s)
  with read_chunks_iff [of "[]" deadline cs s] show ?thesis by (auto simp: bounded_response_json_def)
qed

theorem response_read_iff_witness:
  "bounded_response_json (\<lambda>s. Some (PStr s)) 5 0 4 \<lparr>rs_content_length = Some ''4'', rs_content_encoding = None,
     rs_body = Chunks [(''ab'', 1), (''cd'', 2)]\<rparr> = Some (PStr ''abcd'')"
proof -
  have "length_header_ok (Some ''4'') = Some True" "encoding_ok None"
    by (simp_all add: length_header_ok_def encoding_ok_def is_digit_def nat_of_digits_def MAX_RESPONSE_BYTES_def)
  then show ?thesis unfolding response_read_iff by (simp add: MAX_RESPONSE_BYTES_def)
qed

end
