(* ===== verification/Spec2Isabelle.thy ===== *)
theory Spec2Isabelle
  imports Evidence_Facts Policy_Facts Delivery_Facts Relay_Facts Redacted_Path Session_Facts Process_Hooks Response
begin

text \<open>
  A verification development for the DebugBundle Python SDK (\<open>src/src/debugbundle\<close>).

  The program. Captures of exceptions, logs and requests pass the capture policy, the duplicate
  suppression and the evidence boundary, and enter one bounded queue. A flush takes the queue in
  sections under one lock, lets an application hook replace each event, cuts off what fits one HTTP
  request, and settles the queue by the answer of the server. A diagnostic budget bounds the evidence
  that is tracked and pending at any time. Operations and scoped contexts say what a capture belongs to, probes are
  buffered until an error or a directive asks for them, and a refresh brings the policy and the directives. Captures come
  from the application, from hooks in the interpreter and in loggers, and from the middleware of web frameworks; an
  exception is read by bounded walks over the live object. Next to it stands the relay: a request handler that takes
  batches of events from browsers, sanitizes each one, writes them to a spool and forwards them.

  Theories and code.
    \<open>Prelude\<close>: lemmas on association lists, sums and runs; the interfaces \<open>ledger\<close> (a dictionary with
      costs and their total) and \<open>preserved\<close> (an invariant kept by every operation of a run).
    \<open>PyValues\<close>, \<open>Json\<close>: Python values as a datatype (unbounded ints, floats as rationals with
      infinities and NaN, strings as character lists, dictionaries as association lists), the string
      methods used, and the text \<open>json.dumps\<close> writes. The digits of a float are a parameter \<open>fr\<close>.
    \<open>Evidence_Json\<close> (\<open>evidence_json.py\<close>), \<open>Evidence_Wire\<close> and \<open>Evidence_Facts\<close> (\<open>evidence_wire.py\<close>):
      sizes, validation and stripping of evidence.
    \<open>Ingestion_Wire\<close>, \<open>Ingestion_Facts\<close>: \<open>ingestion_wire.py\<close> and the pure part of \<open>transport.py\<close>.
    \<open>Diagnostic_Budget\<close>, \<open>Budget_Facts\<close>: \<open>diagnostic_budget.py\<close>.
    \<open>Capture_Policy\<close>, \<open>Policy_Facts\<close>: \<open>config.py\<close>, \<open>request_capture_policy.py\<close>, the levels and incident
      statuses of \<open>event_support.py\<close>.
    \<open>Suppression\<close>: \<open>suppression.py\<close>. \<open>Acknowledgement\<close>: \<open>acknowledgement.py\<close>.
    \<open>Queue\<close>, \<open>Queue_Facts\<close>: the SDK's state (\<open>core.py\<close>), \<open>queue_admission.py\<close>, \<open>evidence_delivery.py\<close>.
    \<open>Flush\<close>, \<open>Strip_Size\<close>, \<open>Flush_Facts\<close>: \<open>flush_delivery.py\<close>, \<open>flush_aggregates.py\<close>,
      \<open>delivery_hooks.py\<close>, one definition per section under the lock.
    \<open>Delivery\<close>, \<open>Delivery_Facts\<close>: the sections as a step relation that interleaves them with captures,
      configuration, \<open>init\<close> and \<open>dispose\<close>; reachability, the invariant and what it gives.
    \<open>Regex\<close>, \<open>Redaction\<close>, \<open>Redaction_Facts\<close>: a fragment of Python's \<open>re\<close> with its priorities, and
      \<open>redaction.py\<close> over it: the scrubbing of texts and URLs, card numbers, sensitive keys, the bounded walk.
    \<open>Canonical_Event\<close>, \<open>Canonical_Facts\<close>: \<open>canonical_event.py\<close>, the copy of a hook's result and the
      interpreter of the event schema, with the declarative meaning of a schema as \<open>conforms\<close>.
    \<open>Before_Send\<close>: \<open>before_send.py\<close>, what a hook can do to an event.
    \<open>Relay_Delivery\<close>, \<open>Relay_Delivery_Facts\<close>: \<open>relay_delivery.py\<close>, forwarding in chunks and the spool.
    \<open>Relay\<close>, \<open>Relay_Facts\<close>: \<open>relay.py\<close>, the handler from the request to the response.
    \<open>Redacted_Path\<close>: how a redacted request path ends all delivery of a process.
    \<open>Event_Support\<close>: the payloads of \<open>event_support.py\<close>. \<open>Trigger_Token\<close>: \<open>trigger_token.py\<close>.
    \<open>Scopes\<close>, \<open>Scope_Facts\<close>: \<open>operation_context.py\<close>, \<open>scope_ownership.py\<close>; the interface \<open>ownership\<close> of chains
      of owners that both interpret, and the runs of operations across tasks.
    \<open>Capture\<close>: building, protecting and offering events (\<open>core.py\<close>), \<open>process_support.py\<close>,
      \<open>recovery_capture.py\<close>, the flow of \<open>exception_capture.py\<close>. \<open>Client\<close>: contexts, requests, construction, \<open>init\<close>
      and \<open>dispose\<close> (\<open>core.py\<close>), \<open>probe_capture.py\<close>, \<open>remote_config_client.py\<close>.
    \<open>Capture_Facts\<close>: what protection lets through; every capture follows the steps of \<open>Delivery\<close>.
    \<open>Session\<close>, \<open>Session_Facts\<close>: all calls on one SDK object, by any threads and across forks, as a step relation
      that refines \<open>Delivery\<close>; what holds of whole clients in every session; the refresh of the configuration.
    \<open>Exception_Evidence\<close> (\<open>exception_evidence.py\<close>), \<open>Exception_Evidence_Facts\<close>, \<open>Exception_Graph\<close>: the bounded walk over
      a live exception on a heap of exceptions, the invariant of the walk, and the reductions of a graph that is too
      large; the graph that comes out against the validator of \<open>Evidence_Wire\<close>.
    \<open>Exception_Details\<close>: \<open>exception_snapshot.py\<close>, \<open>exception_identity.py\<close>, and captures of an exception on the heap.
    \<open>Integrations\<close>: \<open>integrations/common.py\<close> and the middleware of \<open>django.py\<close>, \<open>fastapi.py\<close> and \<open>flask.py\<close>; what a
      request does to the context that serves it.
    \<open>Log_Capture\<close>: \<open>capture_hooks.py\<close>, the sink of \<open>logger_integrations.py\<close>, the capture of \<open>structlog_integration.py\<close>.
    \<open>Process_Hooks\<close>: what \<open>core.py\<close> and \<open>logger_integrations.py\<close> put into the process, and \<open>dispose\<close> taking it out;
      it interprets \<open>preserved\<close> on the sequences of hookings.
    \<open>Response\<close>: the bounded reading of an answer (\<open>evidence_http.py\<close>).

  Conventions. An exception that leaves a function is \<open>None\<close> or \<open>Inl\<close>. Objects that the code keys by
  \<open>id()\<close> carry a number. Times are rationals. The answer of the network, the application hook, hashes,
  clocks and the reading of ISO times are parameters, and the theorems hold for all of them unless a
  hypothesis says otherwise. A call gets what it meets outside (clocks, identifiers, the
  process, the lock) as a \<open>moment\<close> and what never changes as the \<open>host\<close>. No loop is given fuel, but for \<open>height\<close> in
  the walk over an exception: paths have at most four links, its fuel is 8, and \<open>snapshot_walk_returns\<close> shows that it
  is never used up. Every recursion has a measure, but for \<open>sanitize_event\<close> and \<open>protect_rounds\<close>, two \<open>partial_function\<close>s whose value is \<open>None\<close> when they do
  not return; that they always return are the theorems \<open>sanitize_event_total\<close> and \<open>protected_event_clean\<close>. Characters are those of the type \<open>char\<close>: code points
  above 255 and lone surrogates are outside the model.

  Parameters for code outside the repository. Of \<open>urllib.parse\<close>, \<open>urlsplit\<close> is written out and the percent
  decoding, the query strings and the check of bracketed hosts are the record \<open>urllib\<close>. \<open>json.loads\<close> is
  \<open>loads\<close>, \<open>re.compile\<close> on the patterns of the schema is \<open>pat\<close>. File operations of the spool are given by
  their outcome, a record per write. HMAC and base64 of trigger tokens are the record \<open>crypto\<close>; whether a child process
  can make a transport of its own is data of the moment, and for a client that was disposed of before the fork, which
  makes none, it is \<open>True\<close>.

  Exceptions are objects on a heap: what the built-in descriptors read of an exception is the record \<open>native\<close>, and causes,
  contexts and members of groups are addresses, so that shared and circular exceptions are what they are in the program.

  Not modelled. The proxies that \<open>structlog_integration.py\<close> puts around third-party loggers dispatch attributes of
  those loggers, the adapters of the relay translate between frameworks and the relay, and \<open>__init__.py\<close> re-exports: no
  logic of their own. \<open>evidence_url\<close> is \<open>urllib\<close>. Sockets, files, threads and the garbage collector have no counterpart
  in the values here; the examples, the benchmarks and the smoke tests use the package from outside.
\<close>

end
